(* ===== verification/Statix_Prelude.thy ===== *)
theory Statix_Prelude
  imports Main "HOL-Library.Word" "HOL-Library.AList" "HOL-Library.Multiset"
begin

text \<open>
  The shared layer of the development: the machine types of the Rust sources, the
  saturating and wrapping arithmetic they use, little-endian byte codecs, the fragment of
  the Rust \<^verbatim>\<open>str\<close> API the sources call (prefix and suffix stripping, trimming, splitting,
  integer parsing and printing), paths as component lists, and the generic list lemmas the
  component theories rest on, and the contract of an invariant of a step relation.  Text is ASCII: a \<open>string\<close> is the byte string of a Rust
  \<^verbatim>\<open>str\<close>, so lengths are byte lengths.
\<close>

named_theorems statix_simps \<open>rewriting rules shared by the component proofs\<close>
named_theorems sat_simps \<open>saturating arithmetic read as natural numbers\<close>

section \<open>Machine integers\<close>

type_synonym u8 = "8 word"
type_synonym u16 = "16 word"
type_synonym u32 = "32 word"
type_synonym u64 = "64 word"
type_synonym usize = "64 word"
type_synonym bytes = "u8 list"

definition sat_add :: "'a::len word \<Rightarrow> 'a word \<Rightarrow> 'a word" where
  "sat_add a b = (if unat a + unat b < 2 ^ LENGTH('a) then a + b else - 1)"

definition sat_sub :: "'a::len word \<Rightarrow> 'a word \<Rightarrow> 'a word" where
  "sat_sub a b = (if a < b then 0 else a - b)"

definition sat_mul :: "'a::len word \<Rightarrow> 'a word \<Rightarrow> 'a word" where
  "sat_mul a b = (if unat a * unat b < 2 ^ LENGTH('a) then a * b else - 1)"

lemma unat_sat_add [sat_simps]:
  "unat (sat_add a (b :: 'a::len word)) = min (unat a + unat b) (2 ^ LENGTH('a) - 1)"
  by (auto simp: sat_add_def unat_word_ariths unsigned_minus_1_eq_mask mask_eq_exp_minus_1)

lemma unat_sat_sub [sat_simps]: "unat (sat_sub a b) = unat a - unat b"
proof (cases "a < b")
  case True
  then show ?thesis by (simp add: sat_sub_def word_less_nat_alt)
next
  case False
  then have "b \<le> a" by simp
  then show ?thesis using False by (simp add: sat_sub_def unat_sub)
qed

lemma unat_sat_mul [sat_simps]:
  "unat (sat_mul a (b :: 'a::len word)) = min (unat a * unat b) (2 ^ LENGTH('a) - 1)"
  by (auto simp: sat_mul_def unat_word_ariths unsigned_minus_1_eq_mask mask_eq_exp_minus_1)

lemma sat_add_word_of_nat:
  "sat_add (word_of_nat (min n (2 ^ LENGTH('a) - 1))) d
     = (word_of_nat (min (n + unat d) (2 ^ LENGTH('a) - 1)) :: 'a::len word)"
proof -
  define top :: nat where "top = 2 ^ LENGTH('a) - 1"
  have lt: "min m top < (2 ^ LENGTH('a) :: nat)" for m
    unfolding top_def by (simp add: min_less_iff_disj)
  have "unat (sat_add (word_of_nat (min n top)) d :: 'a word) = min (min n top + unat d) top"
    using lt [of n] by (simp add: unat_sat_add unat_of_nat top_def)
  also have "\<dots> = min (n + unat d) top" by (simp add: min_def)
  finally show ?thesis
    using lt [of "n + unat d"] unfolding top_def [symmetric] by (simp add: word_unat_eq_iff unat_of_nat)
qed

lemma sat_sub_word_of_nat:
  assumes "m < 2 ^ LENGTH('a)" and "n < 2 ^ LENGTH('a)"
  shows "sat_sub (word_of_nat m) (word_of_nat n) = (word_of_nat (m - n) :: 'a::len word)"
proof -
  have "m - n < 2 ^ LENGTH('a)" using assms(1) by (rule le_less_trans [OF diff_le_self])
  then show ?thesis using assms by (simp add: word_unat_eq_iff unat_sat_sub unat_of_nat)
qed

lemma unat_u32_bound: "unat (w :: u32) < 4294967296"
  using unsigned_less [of w] by simp

lemma unat_u64_bound: "unat (w :: u64) < 18446744073709551616"
  using unsigned_less [of w] by simp

section \<open>Little-endian byte codecs\<close>

fun nat_le :: "nat \<Rightarrow> nat \<Rightarrow> bytes" where
  "nat_le 0 x = []"
| "nat_le (Suc n) x = word_of_nat (x mod 256) # nat_le n (x div 256)"

fun le_nat :: "bytes \<Rightarrow> nat" where
  "le_nat [] = 0"
| "le_nat (b # bs) = unat b + 256 * le_nat bs"

definition u32_to_le_bytes :: "u32 \<Rightarrow> bytes" where
  "u32_to_le_bytes w = nat_le 4 (unat w)"

definition u64_to_le_bytes :: "u64 \<Rightarrow> bytes" where
  "u64_to_le_bytes w = nat_le 8 (unat w)"

definition u32_from_le_bytes :: "bytes \<Rightarrow> u32" where
  "u32_from_le_bytes bs = word_of_nat (le_nat bs)"

definition u64_from_le_bytes :: "bytes \<Rightarrow> u64" where
  "u64_from_le_bytes bs = word_of_nat (le_nat bs)"

lemma length_nat_le [simp]: "length (nat_le n x) = n"
  by (induction n arbitrary: x) auto

lemma le_nat_nat_le: "le_nat (nat_le n x) = x mod 256 ^ n"
proof (induction n arbitrary: x)
  case (Suc n)
  have "unat (word_of_nat (x mod 256) :: u8) = x mod 256"
    by (simp add: unat_of_nat)
  then show ?case
    by (simp add: Suc.IH mod_mult2_eq)
qed simp

lemma length_u32_to_le_bytes [simp]: "length (u32_to_le_bytes w) = 4"
  by (simp add: u32_to_le_bytes_def)

lemma length_u64_to_le_bytes [simp]: "length (u64_to_le_bytes w) = 8"
  by (simp add: u64_to_le_bytes_def)

lemma u32_le_roundtrip [simp]: "u32_from_le_bytes (u32_to_le_bytes w) = w"
  using unat_u32_bound [of w]
  by (simp add: u32_from_le_bytes_def u32_to_le_bytes_def le_nat_nat_le)

lemma u64_le_roundtrip [simp]: "u64_from_le_bytes (u64_to_le_bytes w) = w"
  using unat_u64_bound [of w]
  by (simp add: u64_from_le_bytes_def u64_to_le_bytes_def le_nat_nat_le)

lemma le_nat_bound: "le_nat bs < 256 ^ length bs"
proof (induction bs)
  case (Cons b bs)
  have "unat b < 256" using unsigned_less [of b] by simp
  with Cons show ?case by simp
qed simp

lemma nat_le_le_nat: "nat_le (length bs) (le_nat bs) = bs"
proof (induction bs)
  case (Cons b bs)
  have "unat b < 256" using unsigned_less [of b] by simp
  then show ?case by (simp add: Cons.IH)
qed simp

lemma u32_le_inverse:
  assumes "length bs = 4"
  shows "u32_to_le_bytes (u32_from_le_bytes bs) = bs"
  using le_nat_bound [of bs] nat_le_le_nat [of bs] assms
  by (simp add: u32_to_le_bytes_def u32_from_le_bytes_def unat_of_nat)

lemma u64_le_inverse:
  assumes "length bs = 8"
  shows "u64_to_le_bytes (u64_from_le_bytes bs) = bs"
  using le_nat_bound [of bs] nat_le_le_nat [of bs] assms
  by (simp add: u64_to_le_bytes_def u64_from_le_bytes_def unat_of_nat)

section \<open>Rust string operations\<close>

fun strip_prefix :: "'a list \<Rightarrow> 'a list \<Rightarrow> 'a list option" where
  "strip_prefix [] s = Some s"
| "strip_prefix (p # ps) [] = None"
| "strip_prefix (p # ps) (c # cs) = (if p = c then strip_prefix ps cs else None)"

definition strip_suffix :: "'a list \<Rightarrow> 'a list \<Rightarrow> 'a list option" where
  "strip_suffix suf s = map_option rev (strip_prefix (rev suf) (rev s))"

definition starts_with :: "'a list \<Rightarrow> 'a list \<Rightarrow> bool" where
  "starts_with p s = (strip_prefix p s \<noteq> None)"

definition is_ws :: "char \<Rightarrow> bool" where
  "is_ws c = (c = CHR '' '' \<or> (9 \<le> (of_char c :: nat) \<and> (of_char c :: nat) \<le> 13))"

definition trim :: "string \<Rightarrow> string" where
  "trim s = rev (dropWhile is_ws (rev (dropWhile is_ws s)))"

definition to_ascii_lower :: "char \<Rightarrow> char" where
  "to_ascii_lower c =
     (if 65 \<le> (of_char c :: nat) \<and> (of_char c :: nat) \<le> 90 then char_of ((of_char c :: nat) + 32) else c)"

definition to_ascii_lowercase :: "string \<Rightarrow> string" where
  "to_ascii_lowercase s = map to_ascii_lower s"

fun split_once :: "'a list \<Rightarrow> 'a list \<Rightarrow> ('a list \<times> 'a list) option" where
  "split_once sep [] = (if sep = [] then Some ([], []) else None)"
| "split_once sep (c # cs) =
     (case strip_prefix sep (c # cs) of
        Some rest \<Rightarrow> Some ([], rest)
      | None \<Rightarrow> map_option (\<lambda>(a, b). (c # a, b)) (split_once sep cs))"

definition after_last :: "'a \<Rightarrow> 'a list \<Rightarrow> 'a list" where
  "after_last sep s = rev (takeWhile (\<lambda>c. c \<noteq> sep) (rev s))"

lemma strip_prefix_append [simp]: "strip_prefix p (p @ s) = Some s"
  by (induction p) auto

lemma strip_prefix_Some: "strip_prefix p s = Some r \<longleftrightarrow> s = p @ r"
  by (induction p s rule: strip_prefix.induct) auto

lemma strip_suffix_append [simp]: "strip_suffix suf (s @ suf) = Some s"
  by (simp add: strip_suffix_def)

lemma strip_suffix_Some: "strip_suffix suf s = Some r \<longleftrightarrow> s = r @ suf"
  by (simp add: strip_suffix_def strip_prefix_Some) (metis rev_append rev_rev_ident)

lemma after_last_none:
  assumes "sep \<notin> set s"
  shows "after_last sep s = s"
proof -
  from assms have "takeWhile (\<lambda>c. c \<noteq> sep) (rev s) = rev s"
    by (subst takeWhile_eq_all_conv) auto
  then show ?thesis unfolding after_last_def by (metis rev_rev_ident)
qed

lemma after_last_append:
  assumes "sep \<notin> set s"
  shows "after_last sep (p @ sep # s) = s"
proof -
  have "takeWhile (\<lambda>c. c \<noteq> sep) (rev s @ sep # rev p) = takeWhile (\<lambda>c. c \<noteq> sep) (rev s)"
    by (rule takeWhile_tail) simp
  with after_last_none [OF assms] show ?thesis by (simp add: after_last_def)
qed

section \<open>Decimal printing and parsing\<close>

definition digit_char :: "nat \<Rightarrow> char" where
  "digit_char d = char_of (48 + d)"

definition digit_val :: "char \<Rightarrow> nat option" where
  "digit_val c =
     (let v = (of_char c :: nat) in if 48 \<le> v \<and> v \<le> 57 then Some (v - 48) else None)"

fun dec_str :: "nat \<Rightarrow> string" where
  "dec_str n = (if n < 10 then [digit_char n] else dec_str (n div 10) @ [digit_char (n mod 10)])"

declare dec_str.simps [simp del]

fun digits_val :: "nat \<Rightarrow> string \<Rightarrow> nat option" where
  "digits_val acc [] = Some acc"
| "digits_val acc (c # cs) =
     (case digit_val c of None \<Rightarrow> None | Some d \<Rightarrow> digits_val (10 * acc + d) cs)"

text \<open>Rust's unsigned \<^verbatim>\<open>from_str\<close>: an optional plus sign, at least one digit, no overflow.\<close>

definition parse_uint :: "nat \<Rightarrow> string \<Rightarrow> nat option" where
  "parse_uint bound s =
     (let ds = (case strip_prefix ''+'' s of Some r \<Rightarrow> r | None \<Rightarrow> s)
      in if ds = [] then None
         else case digits_val 0 ds of
                None \<Rightarrow> None
              | Some v \<Rightarrow> if v < bound then Some v else None)"

definition parse_u64 :: "string \<Rightarrow> nat option" where
  "parse_u64 s = parse_uint (2 ^ 64) s"

definition parse_u16 :: "string \<Rightarrow> nat option" where
  "parse_u16 s = parse_uint (2 ^ 16) s"

text \<open>The format directive \<^verbatim>\<open>{:0w}\<close>: zero padding on the left up to a width.\<close>

definition zero_pad :: "nat \<Rightarrow> string \<Rightarrow> string" where
  "zero_pad w s = replicate (w - length s) CHR ''0'' @ s"

lemma of_char_digit_char [simp]: "d < 10 \<Longrightarrow> (of_char (digit_char d) :: nat) = 48 + d"
  by (simp add: digit_char_def)

lemma digit_val_digit_char [simp]: "d < 10 \<Longrightarrow> digit_val (digit_char d) = Some d"
  by (simp add: digit_val_def)

lemma digit_val_zero [simp]: "digit_val CHR ''0'' = Some 0"
  by (simp add: digit_val_def)

lemma digits_val_append:
  "digits_val acc (xs @ ys) = (case digits_val acc xs of None \<Rightarrow> None | Some v \<Rightarrow> digits_val v ys)"
  by (induction xs arbitrary: acc) (auto split: option.splits)

lemma digits_val_zeros [simp]: "digits_val 0 (replicate k CHR ''0'') = Some 0"
  by (induction k) auto

lemma dec_str_nonempty [simp]: "dec_str n \<noteq> []"
  by (subst dec_str.simps) simp

lemma digits_val_dec_str [simp]: "digits_val 0 (dec_str n) = Some n"
  by (induction n rule: dec_str.induct) (subst dec_str.simps, simp add: digits_val_append)

lemma dec_str_digits: "c \<in> set (dec_str n) \<Longrightarrow> \<exists>d<10. c = digit_char d"
proof (induction n rule: dec_str.induct)
  case (1 n)
  show ?case
  proof (cases "n < 10")
    case True
    with "1.prems" show ?thesis by (auto simp: dec_str.simps [of n])
  next
    case False
    with "1.prems" have "c \<in> set (dec_str (n div 10)) \<or> c = digit_char (n mod 10)"
      by (auto simp: dec_str.simps [of n])
    moreover have "n mod 10 < 10" by simp
    ultimately show ?thesis using "1.IH" [OF False] by blast
  qed
qed

lemma digit_char_neq: "d < 10 \<Longrightarrow> (of_char c :: nat) < 48 \<or> 57 < (of_char c :: nat) \<Longrightarrow> digit_char d \<noteq> c"
  by auto

lemma dec_str_notin: "(of_char c :: nat) < 48 \<or> 57 < (of_char c :: nat) \<Longrightarrow> c \<notin> set (dec_str n)"
  using dec_str_digits digit_char_neq by blast

lemma length_dec_str: "n < 10 ^ k \<Longrightarrow> 0 < k \<Longrightarrow> length (dec_str n) \<le> k"
proof (induction n arbitrary: k rule: dec_str.induct)
  case (1 n)
  show ?case
  proof (cases "n < 10")
    case True
    with 1 show ?thesis by (subst dec_str.simps) simp
  next
    case False
    with "1.prems" obtain j where k: "k = Suc j" and j: "0 < j"
      by (cases k; cases "k - 1") auto
    with "1.prems" have "n div 10 < 10 ^ j"
      by (simp add: less_mult_imp_div_less mult.commute)
    with "1.IH" False j have "length (dec_str (n div 10)) \<le> j" by simp
    with False k show ?thesis by (subst dec_str.simps) simp
  qed
qed

lemma zero_pad_digit: "zero_pad w (dec_str n) = c # cs \<Longrightarrow> \<exists>d<10. c = digit_char d"
proof -
  assume "zero_pad w (dec_str n) = c # cs"
  then have "c \<in> set (zero_pad w (dec_str n))" by simp
  then have "c = CHR ''0'' \<or> c \<in> set (dec_str n)"
    by (auto simp: zero_pad_def split: if_splits)
  moreover have "CHR ''0'' = digit_char 0" by code_simp
  ultimately show ?thesis using dec_str_digits by force
qed

lemma parse_uint_zero_pad:
  assumes "n < bound"
  shows "parse_uint bound (zero_pad w (dec_str n)) = Some n"
proof -
  obtain c cs where s: "zero_pad w (dec_str n) = c # cs"
    by (cases "zero_pad w (dec_str n)") (auto simp: zero_pad_def)
  from zero_pad_digit [OF s] have "strip_prefix ''+'' (c # cs) = None"
    using digit_char_neq [of _ "CHR ''+''"] by fastforce
  moreover have "digits_val 0 (zero_pad w (dec_str n)) = Some n"
    by (simp add: zero_pad_def digits_val_append)
  ultimately show ?thesis
    using assms by (simp add: parse_uint_def s)
qed

lemma parse_uint_bound: "parse_uint bound s = Some v \<Longrightarrow> v < bound"
  by (auto simp: parse_uint_def Let_def split: option.splits if_splits)

section \<open>Bytes and text\<close>

definition str_bytes :: "string \<Rightarrow> bytes" where
  "str_bytes s = map (\<lambda>c. word_of_nat (of_char c)) s"

definition bytes_str :: "bytes \<Rightarrow> string" where
  "bytes_str bs = map (\<lambda>b. char_of (unat b)) bs"

text \<open>
  The validation of \<^verbatim>\<open>std::str::from_utf8\<close>: one to four byte sequences, no overlong
  encodings, no surrogates, nothing above U+10FFFF.
\<close>

definition utf8_cont :: "u8 \<Rightarrow> bool" where
  "utf8_cont b = (0x80 \<le> b \<and> b \<le> 0xBF)"

fun valid_utf8 :: "bytes \<Rightarrow> bool" where
  "valid_utf8 [] = True"
| "valid_utf8 (a # r) =
     (if a < 0x80 then valid_utf8 r
      else case r of
        [] \<Rightarrow> False
      | b # r2 \<Rightarrow>
          if 0xC2 \<le> a \<and> a \<le> 0xDF then utf8_cont b \<and> valid_utf8 r2
          else case r2 of
            [] \<Rightarrow> False
          | c # r3 \<Rightarrow>
              if 0xE0 \<le> a \<and> a \<le> 0xEF
              then utf8_cont b \<and> utf8_cont c \<and> (a = 0xE0 \<longrightarrow> 0xA0 \<le> b) \<and> (a = 0xED \<longrightarrow> b \<le> 0x9F)
                   \<and> valid_utf8 r3
              else case r3 of
                [] \<Rightarrow> False
              | d # r4 \<Rightarrow>
                  0xF0 \<le> a \<and> a \<le> 0xF4 \<and> utf8_cont b \<and> utf8_cont c \<and> utf8_cont d
                  \<and> (a = 0xF0 \<longrightarrow> 0x90 \<le> b) \<and> (a = 0xF4 \<longrightarrow> b \<le> 0x8F) \<and> valid_utf8 r4)"

definition from_utf8 :: "bytes \<Rightarrow> string option" where
  "from_utf8 bs = (if valid_utf8 bs then Some (bytes_str bs) else None)"

lemma length_str_bytes [simp]: "length (str_bytes s) = length s"
  by (simp add: str_bytes_def)

lemma unat_of_char [simp]: "unat (word_of_nat (of_char c) :: u8) = of_char c"
  by (simp add: unat_of_nat)

lemma bytes_str_bytes [simp]: "bytes_str (str_bytes s) = s"
  by (simp add: bytes_str_def str_bytes_def comp_def)

lemma valid_utf8_ascii: "(\<And>b. b \<in> set bs \<Longrightarrow> b < 0x80) \<Longrightarrow> valid_utf8 bs"
  by (induction bs) auto

section \<open>I/O errors and results\<close>

datatype io_error = InvalidData string | UnexpectedEof | NotFound | StorageFull | OtherIo

section \<open>Paths\<close>

text \<open>A path is the list of its components; \<^verbatim>\<open>Path::join\<close> with a relative path appends.\<close>

type_synonym path = "string list"

section \<open>Association lists as hash maps and directories\<close>

text \<open>
  The hash maps of the sources are association lists with distinct keys.  The iteration
  order of a Rust \<^verbatim>\<open>HashMap\<close> is unspecified; the model iterates in list order and the
  theorems are stated on \<open>map_of\<close> or on multisets, which do not depend on it.
\<close>

abbreviation keys :: "('k \<times> 'v) list \<Rightarrow> 'k list" where
  "keys al \<equiv> map fst al"

lemma map_of_update [statix_simps]: "map_of (AList.update k v al) = (map_of al)(k \<mapsto> v)"
  by (rule AList.update_conv')

lemma map_of_delete [statix_simps]: "map_of (AList.delete k al) = (map_of al)(k := None)"
  by (rule AList.delete_conv')

lemma map_of_delete_same [simp]: "map_of (AList.delete k al) k = None"
  by (simp add: map_of_delete)

lemma distinct_keys_update [intro]: "distinct (keys al) \<Longrightarrow> distinct (keys (AList.update k v al))"
  by (rule distinct_update)

lemma distinct_keys_delete [intro]: "distinct (keys al) \<Longrightarrow> distinct (keys (AList.delete k al))"
  by (rule distinct_delete)

lemma map_of_filter_keys: "map_of (filter (\<lambda>p. P (fst p)) al) k = (if P k then map_of al k else None)"
  by (induction al) auto

lemma map_of_rev_keys: "distinct (keys al) \<Longrightarrow> map_of (rev al) = map_of al"
proof
  fix k assume d: "distinct (keys al)"
  then have "distinct (keys (rev al))" by (simp add: rev_map [symmetric])
  with d have "map_of (rev al) k = Some v \<longleftrightarrow> map_of al k = Some v" for v by simp
  then show "map_of (rev al) k = map_of al k" by (metis option.exhaust)
qed

section \<open>Generic list lemmas\<close>

lemma take_length_append [simp]: "n = length xs \<Longrightarrow> take n (xs @ ys) = xs"
  by simp

lemma take_append_drop_length: "take j xs @ drop (length (take j xs)) xs = xs"
  by (cases "j \<le> length xs") (simp_all add: min_def)

lemma map_filter_append [simp]: "List.map_filter f (xs @ ys) = List.map_filter f xs @ List.map_filter f ys"
  by (simp add: map_filter_def)

lemma map_filter_all_Some: "\<forall>x \<in> set xs. f x = Some (g x) \<Longrightarrow> List.map_filter f xs = map g xs"
  by (induction xs) (simp_all add: map_filter_simps)

lemma find_SomeD: "find P xs = Some x \<Longrightarrow> x \<in> set xs \<and> P x"
  by (induction xs) (auto split: if_splits)

lemma drop_length_append [simp]: "n = length xs \<Longrightarrow> drop n (xs @ ys) = ys"
  by simp

section \<open>Results in sequence\<close>

text \<open>The operator \<^verbatim>\<open>?\<close>.\<close>

definition try_then :: "'e + 'a \<Rightarrow> ('a \<Rightarrow> 'e + 'b) \<Rightarrow> 'e + 'b" where
  "try_then r f = (case r of Inl e \<Rightarrow> Inl e | Inr x \<Rightarrow> f x)"

definition ok_or :: "'e \<Rightarrow> 'a option \<Rightarrow> 'e + 'a" where
  "ok_or e x = (case x of None \<Rightarrow> Inl e | Some a \<Rightarrow> Inr a)"

lemma try_then_Inr: "try_then r f = Inr y \<longleftrightarrow> (\<exists>x. r = Inr x \<and> f x = Inr y)"
  by (simp add: try_then_def split: sum.splits)

section \<open>Invariants of step relations\<close>

text \<open>
  The contract behind every statement about reachable states: an invariant that holds at the
  start and is kept by every step.  The components with a step relation interpret it.
\<close>

locale step_system =
  fixes start :: "'s \<Rightarrow> bool"
    and step :: "'s \<Rightarrow> 's \<Rightarrow> bool"
    and inv :: "'s \<Rightarrow> bool"
  assumes start_inv: "start s \<Longrightarrow> inv s"
    and step_inv: "step s s' \<Longrightarrow> inv s \<Longrightarrow> inv s'"
begin

lemma run_inv:
  assumes "inv s" and "step\<^sup>*\<^sup>* s s'"
  shows "inv s'"
  using assms(2) by induction (use assms(1) step_inv in auto)

lemma reach_inv: "start s \<Longrightarrow> step\<^sup>*\<^sup>* s s' \<Longrightarrow> inv s'"
  by (rule run_inv [OF start_inv])

end

end
