(* ===== verification/Segment.thy ===== *)
theory Segment
  imports Statix_Prelude
begin

text \<open>
  The on-disk codec of the write-ahead log, \<^verbatim>\<open>statix/src/wal/segment.rs\<close>: segment names and
  headers, frame headers, and the frame reader with its handling of short reads, torn tails
  and corruption.  The checksum \<^verbatim>\<open>crc32fast::hash\<close> is third-party code and is the parameter
  \<open>crc32\<close> of the definitions; nothing is assumed about it except that it is a function.
  The answers of the kernel to \<^verbatim>\<open>read\<close> calls (short counts, \<^verbatim>\<open>EINTR\<close>, errors) are an explicit
  argument.
\<close>

section \<open>Constants and names\<close>

definition SEGMENT_MAGIC :: bytes where
  "SEGMENT_MAGIC = str_bytes ''STATXWAL''"

definition FORMAT_VERSION :: u32 where
  "FORMAT_VERSION = 1"

definition SEGMENT_HEADER_LEN :: nat where
  "SEGMENT_HEADER_LEN = 16"

definition FRAME_HEADER_LEN :: nat where
  "FRAME_HEADER_LEN = 16"

definition MAX_FRAME_PAYLOAD :: u32 where
  "MAX_FRAME_PAYLOAD = 16 * 1024 * 1024"

definition SEGMENT_PREFIX :: string where
  "SEGMENT_PREFIX = ''seg-''"

definition SEGMENT_SUFFIX :: string where
  "SEGMENT_SUFFIX = ''.wal''"

definition segment_path :: "path \<Rightarrow> nat \<Rightarrow> path" where
  "segment_path dir seq = dir @ [SEGMENT_PREFIX @ zero_pad 20 (dec_str seq) @ SEGMENT_SUFFIX]"

definition parse_segment_seq :: "string \<Rightarrow> nat option" where
  "parse_segment_seq name =
     (case strip_prefix SEGMENT_PREFIX name of
        None \<Rightarrow> None
      | Some r \<Rightarrow>
          (case strip_suffix SEGMENT_SUFFIX r of
             None \<Rightarrow> None
           | Some d \<Rightarrow> parse_u64 d))"

section \<open>Headers\<close>

definition encode_segment_header :: bytes where
  "encode_segment_header = SEGMENT_MAGIC @ u32_to_le_bytes FORMAT_VERSION @ replicate 4 0"

definition validate_segment_header :: "bytes \<Rightarrow> io_error + unit" where
  "validate_segment_header buf =
     (if length buf < SEGMENT_HEADER_LEN then Inl (InvalidData ''segment header truncated'')
      else if take 8 buf \<noteq> SEGMENT_MAGIC then Inl (InvalidData ''bad segment magic'')
      else let version = u32_from_le_bytes (take 4 (drop 8 buf))
           in if version \<noteq> FORMAT_VERSION
              then Inl (InvalidData (''unsupported WAL format version '' @ dec_str (unat version)))
              else Inr ())"

definition encode_frame_header :: "(bytes \<Rightarrow> u32) \<Rightarrow> bytes \<Rightarrow> u64 \<Rightarrow> bytes" where
  "encode_frame_header crc32 pl seq =
     u32_to_le_bytes (word_of_nat (length pl)) @ u32_to_le_bytes (crc32 pl) @ u64_to_le_bytes seq"

definition frame_len_on_disk :: "nat \<Rightarrow> nat" where
  "frame_len_on_disk payload_len = FRAME_HEADER_LEN + payload_len"

section \<open>Reading frames\<close>

record DecodedFrame =
  df_batch_seq :: u64
  df_payload :: bytes

datatype FrameRead = Frame DecodedFrame nat | End | Corrupt

datatype ReadStatus = Full | Partial | Eof

text \<open>
  One answer of the kernel to a \<^verbatim>\<open>read\<close> call: some bytes (at most the given count, at least
  one while the file has any), an interrupted call, or an error.
\<close>

datatype kread = KRead nat | KInterrupted | KError io_error

text \<open>
  The read loop.  The list is the kernel's answers to the first calls; once it is used up
  the kernel answers in full.
\<close>

fun read_full_or_eof :: "kread list \<Rightarrow> bytes \<Rightarrow> nat \<Rightarrow> bytes \<Rightarrow> io_error + (ReadStatus \<times> bytes)" where
  "read_full_or_eof [] src n filled =
     (let got = take (n - length filled) src
      in if n \<le> length filled + length got then Inr (Full, filled @ got)
         else if filled @ got = [] then Inr (Eof, []) else Inr (Partial, filled @ got))"
| "read_full_or_eof (k # ks) src n filled =
     (if n \<le> length filled then Inr (Full, filled)
      else case k of
        KRead m \<Rightarrow>
          (let got = take (min (max m 1) (n - length filled)) src
           in if got = [] then Inr (if filled = [] then Eof else Partial, filled)
              else read_full_or_eof ks (drop (length got) src) n (filled @ got))
      | KInterrupted \<Rightarrow> read_full_or_eof ks src n filled
      | KError e \<Rightarrow> Inl e)"

definition read_frame_at ::
  "(bytes \<Rightarrow> u32) \<Rightarrow> kread list \<times> kread list \<Rightarrow> bytes \<Rightarrow> nat \<Rightarrow> io_error + FrameRead" where
  "read_frame_at crc32 ks file offset =
     (case read_full_or_eof (fst ks) (drop offset file) FRAME_HEADER_LEN [] of
        Inl e \<Rightarrow> Inl e
      | Inr (Eof, _) \<Rightarrow> Inr End
      | Inr (Partial, _) \<Rightarrow> Inr End
      | Inr (Full, header) \<Rightarrow>
          let payload_len = u32_from_le_bytes (take 4 header);
              crc_expected = u32_from_le_bytes (take 4 (drop 4 header));
              seq = u64_from_le_bytes (take 8 (drop 8 header))
          in if payload_len = 0 \<or> payload_len > MAX_FRAME_PAYLOAD then Inr Corrupt
             else case read_full_or_eof (snd ks) (drop (offset + FRAME_HEADER_LEN) file)
                         (unat payload_len) [] of
                    Inl e \<Rightarrow> Inl e
                  | Inr (Eof, _) \<Rightarrow> Inr End
                  | Inr (Partial, _) \<Rightarrow> Inr End
                  | Inr (Full, pl) \<Rightarrow>
                      if crc32 pl \<noteq> crc_expected then Inr Corrupt
                      else Inr (Frame \<lparr>df_batch_seq = seq, df_payload = pl\<rparr>
                                 (offset + frame_len_on_disk (unat payload_len))))"

text \<open>The bytes of one frame on disk, and the payloads the reader accepts.\<close>

definition frame_bytes :: "(bytes \<Rightarrow> u32) \<Rightarrow> DecodedFrame \<Rightarrow> bytes" where
  "frame_bytes crc32 f = encode_frame_header crc32 (df_payload f) (df_batch_seq f) @ df_payload f"

definition payload_ok :: "bytes \<Rightarrow> bool" where
  "payload_ok pl \<longleftrightarrow> 0 < length pl \<and> length pl \<le> unat MAX_FRAME_PAYLOAD"

definition no_read_error :: "kread list \<Rightarrow> bool" where
  "no_read_error ks \<longleftrightarrow> (\<forall>k \<in> set ks. \<forall>e. k \<noteq> KError e)"

abbreviation reads_ok :: "kread list \<times> kread list \<Rightarrow> bool" where
  "reads_ok ks \<equiv> no_read_error (fst ks) \<and> no_read_error (snd ks)"

section \<open>The read loop returns what one full read would\<close>

lemma no_read_error_Cons [simp]:
  "no_read_error (k # ks) \<longleftrightarrow> (\<forall>e. k \<noteq> KError e) \<and> no_read_error ks"
  by (auto simp: no_read_error_def)

lemma no_read_error_Nil [simp]: "no_read_error []"
  by (simp add: no_read_error_def)

lemma read_full_or_eof_chunking:
  assumes "no_read_error ks" and "length filled \<le> n"
  shows "read_full_or_eof ks src n filled = read_full_or_eof [] src n filled"
  using assms
proof (induction ks arbitrary: src filled)
  case (Cons k ks)
  show ?case
  proof (cases "n \<le> length filled")
    case True
    then show ?thesis by (simp add: Let_def)
  next
    case False
    show ?thesis
    proof (cases k)
      case (KRead m)
      define got where "got = take (min (max m 1) (n - length filled)) src"
      show ?thesis
      proof (cases "src = []")
        case True
        with KRead False show ?thesis by (simp add: Let_def)
      next
        case src: False
        then have ne: "got \<noteq> []" using False by (auto simp: got_def)
        obtain rest where rest: "rest = drop (length got) src" by simp
        have eq: "src = got @ rest"
          unfolding rest got_def by (rule take_append_drop_length [symmetric])
        have len: "length got \<le> n - length filled"
          by (simp add: got_def)
        have IH: "read_full_or_eof ks rest n (filled @ got) = read_full_or_eof [] rest n (filled @ got)"
          using Cons.IH Cons.prems len False by simp
        have "take (n - length filled) src = got @ take (n - length (filled @ got)) rest"
          using len by (simp add: eq)
        then have "read_full_or_eof [] src n filled = read_full_or_eof [] rest n (filled @ got)"
          using ne by (simp add: Let_def) linarith
        moreover have "read_full_or_eof (k # ks) src n filled = read_full_or_eof ks rest n (filled @ got)"
          using KRead False ne by (simp add: Let_def got_def [symmetric] rest del: One_nat_def)
        ultimately show ?thesis using IH by simp
      qed
    qed (use Cons False in auto)
  qed
qed simp

section \<open>The reader as a function of the bytes\<close>

text \<open>Without a read error, \<open>read_frame_at\<close> is this function of the file alone.\<close>

definition decode_frame :: "(bytes \<Rightarrow> u32) \<Rightarrow> bytes \<Rightarrow> nat \<Rightarrow> FrameRead" where
  "decode_frame crc32 file offset =
     (let header = take FRAME_HEADER_LEN (drop offset file);
          n = u32_from_le_bytes (take 4 header);
          pl = take (unat n) (drop (offset + FRAME_HEADER_LEN) file)
      in if length header < FRAME_HEADER_LEN then End
         else if n = 0 \<or> n > MAX_FRAME_PAYLOAD then Corrupt
         else if length pl < unat n then End
         else if crc32 pl \<noteq> u32_from_le_bytes (take 4 (drop 4 header)) then Corrupt
         else Frame \<lparr>df_batch_seq = u64_from_le_bytes (take 8 (drop 8 header)), df_payload = pl\<rparr>
                (offset + frame_len_on_disk (unat n)))"

lemma read_full_or_eof_full:
  "no_read_error ks \<Longrightarrow> read_full_or_eof ks src n [] =
     (let got = take n src
      in if length got = n then Inr (Full, got) else if got = [] then Inr (Eof, []) else Inr (Partial, got))"
  by (subst read_full_or_eof_chunking) (auto simp: Let_def)

lemma read_frame_at_decode:
  assumes "reads_ok ks"
  shows "read_frame_at crc32 ks file offset = Inr (decode_frame crc32 file offset)"
proof -
  define h where "h = take FRAME_HEADER_LEN (drop offset file)"
  define n where "n = u32_from_le_bytes (take 4 h)"
  define pl where "pl = take (unat n) (drop (offset + FRAME_HEADER_LEN) file)"
  note folds = h_def [symmetric] n_def [symmetric] pl_def [symmetric]
  have r1: "read_full_or_eof (fst ks) (drop offset file) FRAME_HEADER_LEN [] =
      (if length h = FRAME_HEADER_LEN then Inr (Full, h) else if h = [] then Inr (Eof, []) else Inr (Partial, h))"
    using assms by (simp add: read_full_or_eof_full Let_def h_def)
  have r2: "read_full_or_eof (snd ks) (drop (offset + FRAME_HEADER_LEN) file) (unat n) [] =
      (if length pl = unat n then Inr (Full, pl) else if pl = [] then Inr (Eof, []) else Inr (Partial, pl))"
    using assms by (simp add: read_full_or_eof_full Let_def pl_def)
  have le: "length h \<le> FRAME_HEADER_LEN" "length pl \<le> unat n"
    by (simp_all add: h_def pl_def)
  have d: "decode_frame crc32 file offset =
      (if length h < FRAME_HEADER_LEN then End
       else if n = 0 \<or> n > MAX_FRAME_PAYLOAD then Corrupt
       else if length pl < unat n then End
       else if crc32 pl \<noteq> u32_from_le_bytes (take 4 (drop 4 h)) then Corrupt
       else Frame \<lparr>df_batch_seq = u64_from_le_bytes (take 8 (drop 8 h)), df_payload = pl\<rparr>
              (offset + frame_len_on_disk (unat n)))"
    unfolding decode_frame_def Let_def folds ..
  show ?thesis
  proof (cases "length h = FRAME_HEADER_LEN")
    case False
    with le show ?thesis unfolding d read_frame_at_def r1 by simp
  next
    case True
    with le show ?thesis
      unfolding d read_frame_at_def r1 if_P [OF True] sum.case prod.case ReadStatus.case Let_def
        folds r2
      by auto
  qed
qed

text \<open>A read that returned without an error returned what the file holds, whatever was still to come.\<close>

lemma read_full_or_eof_Inr:
  assumes "read_full_or_eof ks src n filled = Inr r" and "length filled \<le> n"
  shows "read_full_or_eof [] src n filled = Inr r"
proof -
  let ?ok = "\<lambda>k. \<forall>e. k \<noteq> KError e"
  have "read_full_or_eof (takeWhile ?ok ks) src n filled = Inr r"
    using assms
  proof (induction ks arbitrary: src filled)
    case (Cons k ks)
    show ?case
    proof (cases k)
      case (KRead m)
      define got where "got = take (min (max m 1) (n - length filled)) src"
      have len: "length (filled @ got) \<le> n" using Cons.prems(2) by (simp add: got_def)
      have eq: "read_full_or_eof (KRead m # ks) src n filled =
          (if n \<le> length filled then Inr (Full, filled)
           else if got = [] then Inr (if filled = [] then Eof else Partial, filled)
           else read_full_or_eof ks (drop (length got) src) n (filled @ got))" for ks
        by (simp only: read_full_or_eof.simps kread.case Let_def got_def)
      then show ?thesis
        using Cons.prems Cons.IH [OF _ len] KRead
        by (auto simp: eq simp del: read_full_or_eof.simps split: if_splits)
    qed (use Cons in \<open>auto simp: Let_def split: if_splits\<close>)
  qed simp
  moreover have "no_read_error (takeWhile ?ok ks)"
    using set_takeWhileD unfolding no_read_error_def by fast
  ultimately show ?thesis using read_full_or_eof_chunking assms(2) by simp
qed

lemma read_frame_at_Inr:
  assumes "read_frame_at crc32 ks file offset = Inr r"
  shows "r = decode_frame crc32 file offset"
proof -
  obtain st h where h: "read_full_or_eof (fst ks) (drop offset file) FRAME_HEADER_LEN [] = Inr (st, h)"
    using assms by (cases "read_full_or_eof (fst ks) (drop offset file) FRAME_HEADER_LEN []")
      (auto simp: read_frame_at_def)
  let ?rd = "\<lambda>l. read_full_or_eof l (drop (offset + FRAME_HEADER_LEN) file)
      (unat (u32_from_le_bytes (take 4 h))) []"
  have snd: "?rd (snd ks) = Inr x \<Longrightarrow> ?rd [] = Inr x" for x
    by (rule read_full_or_eof_Inr) simp_all
  have h': "read_full_or_eof [] (drop offset file) FRAME_HEADER_LEN [] = Inr (st, h)"
    by (rule read_full_or_eof_Inr [OF h]) simp
  have "read_frame_at crc32 ([], []) file offset = Inr r"
    using assms snd unfolding read_frame_at_def h h' fst_conv snd_conv
    by (cases st; cases "?rd (snd ks)") (auto simp: Let_def split: if_splits simp del: read_full_or_eof.simps)
  then show ?thesis by (simp add: read_frame_at_decode)
qed

lemma parse_segment_path:
  assumes "seq < 2 ^ 64"
  shows "parse_segment_seq (last (segment_path dir seq)) = Some seq"
  using parse_uint_zero_pad [OF assms]
  by (simp add: parse_segment_seq_def segment_path_def parse_u64_def)

lemma length_encode_frame_header [simp]: "length (encode_frame_header crc32 pl s) = 16"
  by (simp add: encode_frame_header_def)

lemma length_frame_bytes: "length (frame_bytes crc32 f) = frame_len_on_disk (length (df_payload f))"
  by (simp add: frame_bytes_def frame_len_on_disk_def FRAME_HEADER_LEN_def)

lemma MAX_FRAME_PAYLOAD_unat [simp]: "unat MAX_FRAME_PAYLOAD = 16777216"
  by (simp add: MAX_FRAME_PAYLOAD_def)

lemma payload_ok_len:
  assumes "payload_ok pl"
  shows "unat (word_of_nat (length pl) :: u32) = length pl"
    and "(word_of_nat (length pl) :: u32) \<noteq> 0"
    and "\<not> MAX_FRAME_PAYLOAD < word_of_nat (length pl)"
proof -
  from assms show u: "unat (word_of_nat (length pl) :: u32) = length pl"
    by (simp add: payload_ok_def unat_of_nat)
  then show "(word_of_nat (length pl) :: u32) \<noteq> 0"
    using assms by (auto simp: payload_ok_def)
  show "\<not> MAX_FRAME_PAYLOAD < word_of_nat (length pl)"
    using assms u by (simp add: payload_ok_def word_less_nat_alt)
qed

lemma encode_frame_header_fields [simp]:
  "take 4 (encode_frame_header crc32 pl s) = u32_to_le_bytes (word_of_nat (length pl))"
  "take 4 (drop 4 (encode_frame_header crc32 pl s)) = u32_to_le_bytes (crc32 pl)"
  "take 8 (drop 8 (encode_frame_header crc32 pl s)) = u64_to_le_bytes s"
  by (simp_all add: encode_frame_header_def)

lemma decode_frame_encoded:
  assumes "payload_ok (df_payload f)"
  shows "decode_frame crc32 (pre @ frame_bytes crc32 f @ post) (length pre)
       = Frame f (length pre + length (frame_bytes crc32 f))"
proof -
  let ?file = "pre @ frame_bytes crc32 f @ post"
  note len = payload_ok_len [OF assms]
  have hdr: "take FRAME_HEADER_LEN (drop (length pre) ?file)
      = encode_frame_header crc32 (df_payload f) (df_batch_seq f)"
    by (simp add: FRAME_HEADER_LEN_def frame_bytes_def)
  have pl: "take (length (df_payload f)) (drop (length pre + FRAME_HEADER_LEN) ?file) = df_payload f"
    by (simp add: FRAME_HEADER_LEN_def frame_bytes_def)
  show ?thesis
    unfolding decode_frame_def Let_def hdr encode_frame_header_fields u32_le_roundtrip
      u64_le_roundtrip len(1) pl length_encode_frame_header length_frame_bytes
    using len(2,3) by (simp add: FRAME_HEADER_LEN_def)
qed

lemma payload_ok_word:
  assumes "n \<noteq> (0 :: u32)" and "\<not> MAX_FRAME_PAYLOAD < n" and "length pl = unat n"
  shows "payload_ok pl"
  using assms by (simp add: payload_ok_def word_less_nat_alt unat_gt_0 not_less)

lemma split_header:
  assumes "length h = 16"
  shows "take 4 h @ take 4 (drop 4 h) @ take 8 (drop 8 h) = h"
proof -
  have "take 8 (drop 8 h) = drop 8 h" using assms by simp
  moreover have "take 4 (drop 4 h) @ drop 8 h = drop 4 h"
    using append_take_drop_id [of 4 "drop 4 h"] by simp
  ultimately show ?thesis by simp
qed

lemma decode_frame_sound:
  assumes "decode_frame crc32 file off = Frame f next"
  shows "payload_ok (df_payload f)" and "next = off + length (frame_bytes crc32 f)"
    and "\<exists>post. file = take off file @ frame_bytes crc32 f @ post \<and> off \<le> length file"
proof -
  define h where "h = take FRAME_HEADER_LEN (drop off file)"
  define n where "n = u32_from_le_bytes (take 4 h)"
  define pl where "pl = take (unat n) (drop (off + FRAME_HEADER_LEN) file)"
  have props: "length h = 16" "n \<noteq> 0" "\<not> MAX_FRAME_PAYLOAD < n" "length pl = unat n"
      "crc32 pl = u32_from_le_bytes (take 4 (drop 4 h))"
      "f = \<lparr>df_batch_seq = u64_from_le_bytes (take 8 (drop 8 h)), df_payload = pl\<rparr>"
      "next = off + frame_len_on_disk (unat n)"
    using assms
    unfolding decode_frame_def Let_def h_def [symmetric] n_def [symmetric] pl_def [symmetric]
    by (auto simp: FRAME_HEADER_LEN_def h_def pl_def split: if_splits)
  show ok: "payload_ok (df_payload f)"
    using payload_ok_word [OF props(2,3,4)] props(6) by simp
  show "next = off + length (frame_bytes crc32 f)"
    using props by (simp add: length_frame_bytes)
  have "encode_frame_header crc32 pl (df_batch_seq f) = h"
    using props(4) split_header [OF props(1)] props(1)
    by (simp add: encode_frame_header_def props(5,6) n_def u32_le_inverse u64_le_inverse)
  then have "frame_bytes crc32 f = h @ pl" using props(6) by (simp add: frame_bytes_def)
  moreover have "off \<le> length file" using props(1) by (simp add: h_def FRAME_HEADER_LEN_def)
  moreover have "drop off file = h @ pl @ drop (off + 16 + unat n) file"
    using append_take_drop_id [of 16 "drop off file"]
      append_take_drop_id [of "unat n" "drop (off + 16) file"]
    by (simp add: h_def pl_def FRAME_HEADER_LEN_def add.commute add.left_commute)
  ultimately show "\<exists>post. file = take off file @ frame_bytes crc32 f @ post \<and> off \<le> length file"
    by (metis append.assoc append_take_drop_id)
qed

lemma decode_frame_short:
  assumes "length file < off + 16"
  shows "decode_frame crc32 file off = End"
proof -
  have "length (take FRAME_HEADER_LEN (drop off file)) < FRAME_HEADER_LEN"
    using assms by (simp add: FRAME_HEADER_LEN_def)
  then show ?thesis unfolding decode_frame_def Let_def by (simp only: if_True)
qed

lemma decode_frame_torn:
  assumes "payload_ok (df_payload f)" and "k < length (frame_bytes crc32 f)"
  shows "decode_frame crc32 (pre @ take k (frame_bytes crc32 f)) (length pre) = End"
proof (cases "k < 16")
  case True
  then show ?thesis by (intro decode_frame_short) simp
next
  case False
  define h where "h = encode_frame_header crc32 (df_payload f) (df_batch_seq f)"
  note len = payload_ok_len [OF assms(1)]
  let ?file = "pre @ take k (frame_bytes crc32 f)"
  have feq: "?file = pre @ h @ take (k - 16) (df_payload f)"
    using False by (simp add: frame_bytes_def h_def)
  have hdr: "take FRAME_HEADER_LEN (drop (length pre) ?file) = h"
    unfolding feq by (simp add: h_def FRAME_HEADER_LEN_def)
  have pl: "take (length (df_payload f)) (drop (length pre + FRAME_HEADER_LEN) ?file)
      = take (k - 16) (df_payload f)"
    unfolding feq by (simp add: h_def FRAME_HEADER_LEN_def min_def)
  have "k - 16 < length (df_payload f)"
    using False assms(2) by (simp add: length_frame_bytes frame_len_on_disk_def FRAME_HEADER_LEN_def)
  then show ?thesis
    unfolding decode_frame_def Let_def hdr h_def encode_frame_header_fields u32_le_roundtrip
      u64_le_roundtrip len(1) pl
    using len(2,3) by (simp add: FRAME_HEADER_LEN_def)
qed

lemma decode_frame_bad_crc:
  assumes "payload_ok pl" and "length pl' = length pl" and "crc32 pl' \<noteq> crc32 pl"
  shows "decode_frame crc32 (pre @ encode_frame_header crc32 pl s @ pl' @ post) (length pre) = Corrupt"
proof -
  let ?file = "pre @ encode_frame_header crc32 pl s @ pl' @ post"
  note len = payload_ok_len [OF assms(1)]
  have hdr: "take FRAME_HEADER_LEN (drop (length pre) ?file) = encode_frame_header crc32 pl s"
    by (simp add: FRAME_HEADER_LEN_def)
  have pl: "take (length pl) (drop (length pre + FRAME_HEADER_LEN) ?file) = pl'"
    using assms(2) by (simp add: FRAME_HEADER_LEN_def)
  show ?thesis
    unfolding decode_frame_def Let_def hdr encode_frame_header_fields u32_le_roundtrip len(1) pl
    using len(2,3) assms(2,3) by (simp add: FRAME_HEADER_LEN_def)
qed

lemma decode_frame_unreadable:
  assumes "pl = [] \<or> 16777216 < length pl \<and> length pl < 4294967296"
  shows "decode_frame crc32 (pre @ encode_frame_header crc32 pl s @ post) (length pre) = Corrupt"
proof -
  let ?n = "word_of_nat (length pl) :: u32"
  have "?n = 0 \<or> MAX_FRAME_PAYLOAD < ?n"
    using assms by (auto simp: word_less_nat_alt unat_of_nat)
  moreover have "take FRAME_HEADER_LEN (drop (length pre) (pre @ encode_frame_header crc32 pl s @ post))
      = encode_frame_header crc32 pl s"
    by (simp add: FRAME_HEADER_LEN_def)
  ultimately show ?thesis
    by (simp add: decode_frame_def Let_def FRAME_HEADER_LEN_def)
qed

section \<open>Properties of the codec\<close>

text \<open>
  C15: the frame reader is exact.  Whatever short counts or interrupted calls the kernel
  answers with, \<open>read_frame_at\<close> returns a frame and a next offset if and only if the file
  holds, at that offset, precisely the bytes the writer produces for a frame of acceptable
  size, and the next offset is the end of those bytes.
\<close>

theorem read_frame_at_iff:
  assumes "no_read_error ks" and "no_read_error ks'"
  shows "read_frame_at crc32 (ks, ks') file off = Inr (Frame f nxt) \<longleftrightarrow>
    0 < length (df_payload f) \<and> length (df_payload f) \<le> unat MAX_FRAME_PAYLOAD
    \<and> nxt = off + frame_len_on_disk (length (df_payload f))
    \<and> (\<exists>pre post. length pre = off \<and>
         file = pre @ encode_frame_header crc32 (df_payload f) (df_batch_seq f) @ df_payload f @ post)"
    (is "?read \<longleftrightarrow> ?bytes")
proof
  assume ?read
  then have d: "decode_frame crc32 file off = Frame f nxt"
    using assms by (simp add: read_frame_at_decode)
  from decode_frame_sound [OF this] obtain post where
      "file = take off file @ frame_bytes crc32 f @ post" "off \<le> length file"
    by blast
  then have "length (take off file) = off \<and>
      file = take off file @ encode_frame_header crc32 (df_payload f) (df_batch_seq f) @ df_payload f @ post"
    by (simp add: frame_bytes_def)
  then have "\<exists>pre post. length pre = off \<and>
      file = pre @ encode_frame_header crc32 (df_payload f) (df_batch_seq f) @ df_payload f @ post"
    by blast
  then show ?bytes
    using decode_frame_sound(1,2) [OF d] by (simp add: payload_ok_def length_frame_bytes)
next
  assume ?bytes
  then obtain pre post where
      "length pre = off" "file = pre @ frame_bytes crc32 f @ post"
      "payload_ok (df_payload f)" "nxt = off + length (frame_bytes crc32 f)"
    unfolding length_frame_bytes by (auto simp: frame_bytes_def payload_ok_def)
  then show ?read
    using assms decode_frame_encoded by (fastforce simp: read_frame_at_decode)
qed

theorem read_frame_at_iff_witness:
  "no_read_error [KRead 3, KInterrupted] \<and> no_read_error []
   \<and> (read_frame_at (\<lambda>bs. word_of_nat (length bs)) ([KRead 3, KInterrupted], [])
        ([1, 2] @ encode_frame_header (\<lambda>bs. word_of_nat (length bs)) [7, 8, 9] 5 @ [7, 8, 9]) 2
      = Inr (Frame \<lparr>df_batch_seq = 5, df_payload = [7, 8, 9]\<rparr> 21))"
proof -
  have h: "no_read_error [KRead 3, KInterrupted]" "no_read_error []" by simp_all
  show ?thesis
    unfolding read_frame_at_iff [OF h]
    using h by (simp add: frame_len_on_disk_def FRAME_HEADER_LEN_def)
       (intro exI [of _ "[1, 2]"] exI [of _ "[]"]; simp)
qed

text \<open>
  a torn write is recognised as the end of the log.  If a crash leaves any proper prefix
  of a frame at the end of the file, the reader answers \<open>End\<close> at that frame's offset.
\<close>

theorem torn_tail_reads_as_end:
  assumes "no_read_error ks" and "no_read_error ks'"
    and "0 < length pl" and "length pl \<le> unat MAX_FRAME_PAYLOAD"
    and "k < frame_len_on_disk (length pl)"
  shows "read_frame_at crc32 (ks, ks') (pre @ take k (encode_frame_header crc32 pl s @ pl)) (length pre)
    = Inr End"
proof -
  have "payload_ok pl" using assms by (simp add: payload_ok_def)
  with assms show ?thesis
    using decode_frame_torn [of "\<lparr>df_batch_seq = s, df_payload = pl\<rparr>" k crc32 pre]
    by (simp add: read_frame_at_decode frame_bytes_def frame_len_on_disk_def FRAME_HEADER_LEN_def)
qed

theorem torn_tail_reads_as_end_witness:
  "read_frame_at (\<lambda>bs. 9) ([KRead 1], []) ([0xAA] @ take 17 (encode_frame_header (\<lambda>bs. 9) [1, 2] 4 @ [1, 2]))
     (length [0xAA :: u8]) = Inr End"
  by (rule torn_tail_reads_as_end)
     (simp_all add: frame_len_on_disk_def FRAME_HEADER_LEN_def)

text \<open>
  C30: payload corruption is detected.  If the payload bytes of a stored frame are replaced by
  others of the same length with another checksum, the reader answers \<open>Corrupt\<close>.
\<close>

theorem corrupt_payload_is_detected:
  assumes "no_read_error ks" and "no_read_error ks'"
    and "0 < length pl" and "length pl \<le> unat MAX_FRAME_PAYLOAD"
    and "length pl' = length pl" and "crc32 pl' \<noteq> crc32 pl"
  shows "read_frame_at crc32 (ks, ks') (pre @ encode_frame_header crc32 pl s @ pl' @ post) (length pre)
    = Inr Corrupt"
  using assms decode_frame_bad_crc [of pl pl' crc32 pre s post]
  by (simp add: read_frame_at_decode payload_ok_def)

theorem corrupt_payload_is_detected_witness:
  "read_frame_at (\<lambda>bs. word_of_nat (le_nat bs)) ([], []) ([] @ encode_frame_header (\<lambda>bs. word_of_nat (le_nat bs)) [1, 2] 4 @ [1, 3] @ [])
     (length ([] :: bytes)) = Inr Corrupt"
  by (rule corrupt_payload_is_detected) simp_all

text \<open>
  segment file names round-trip.  The file name of every 64-bit segment sequence number is
  parsed back to that number by the directory scan of recovery.
\<close>

theorem seq_path_parses_round_trip:
  assumes "seq < 2 ^ 64"
  shows "parse_segment_seq (last (segment_path dir seq)) = Some seq"
  by (rule parse_segment_path [OF assms])

theorem seq_path_parses_round_trip_witness:
  "(12345 :: nat) < 2 ^ 64 \<and> parse_segment_seq (last (segment_path [''tmp''] 12345)) = Some 12345"
  using seq_path_parses_round_trip [of 12345 "[''tmp'']"] by simp

text \<open>
  A segment header is accepted exactly when its first twelve bytes are the magic and the
  format version; the header the writer emits is accepted.
\<close>

theorem validate_segment_header_iff:
  "validate_segment_header buf = Inr () \<longleftrightarrow>
     (\<exists>reserved rest. length reserved = 4 \<and>
        buf = SEGMENT_MAGIC @ u32_to_le_bytes FORMAT_VERSION @ reserved @ rest)"
proof
  assume v: "validate_segment_header buf = Inr ()"
  then have len: "16 \<le> length buf" and magic: "take 8 buf = SEGMENT_MAGIC"
      and ver: "u32_from_le_bytes (take 4 (drop 8 buf)) = FORMAT_VERSION"
    by (auto simp: validate_segment_header_def SEGMENT_HEADER_LEN_def Let_def split: if_splits)
  have "take 4 (drop 8 buf) = u32_to_le_bytes FORMAT_VERSION"
    using u32_le_inverse [of "take 4 (drop 8 buf)"] len ver by simp
  with magic have "buf = SEGMENT_MAGIC @ u32_to_le_bytes FORMAT_VERSION @ take 4 (drop 12 buf) @ drop 16 buf"
    using append_take_drop_id [of 8 buf] append_take_drop_id [of 4 "drop 8 buf"]
      append_take_drop_id [of 4 "drop 12 buf"] by simp
  then show "\<exists>reserved rest. length reserved = 4 \<and>
        buf = SEGMENT_MAGIC @ u32_to_le_bytes FORMAT_VERSION @ reserved @ rest"
    using len by (intro exI [of _ "take 4 (drop 12 buf)"] exI [of _ "drop 16 buf"]) simp
next
  have "length SEGMENT_MAGIC = 8" by (simp add: SEGMENT_MAGIC_def)
  moreover assume "\<exists>reserved rest. length reserved = 4 \<and>
        buf = SEGMENT_MAGIC @ u32_to_le_bytes FORMAT_VERSION @ reserved @ rest"
  ultimately show "validate_segment_header buf = Inr ()"
    by (auto simp: validate_segment_header_def SEGMENT_HEADER_LEN_def Let_def)
qed

end
