(* ===== verification/Env.thy ===== *)
theory Env
  imports Statix_Prelude
begin

text \<open>
  Configuration from the process environment, \<^verbatim>\<open>statix-infra/src/env.rs\<close>: the legacy
  \<^verbatim>\<open>FINOPS_*\<close> fall-back and the strictly positive numeric readers.  The environment is a
  map from names to Unicode values (\<^verbatim>\<open>std::env::var(name).ok()\<close>).
\<close>

type_synonym environ = "string \<Rightarrow> string option"

definition var_with_legacy :: "environ \<Rightarrow> string \<Rightarrow> string option" where
  "var_with_legacy env name =
     (case env name of
        Some v \<Rightarrow> Some v
      | None \<Rightarrow>
          (case strip_prefix ''STATIX_'' name of
             None \<Rightarrow> None
           | Some legacy \<Rightarrow> env (''FINOPS_'' @ legacy)))"

definition var :: "environ \<Rightarrow> string \<Rightarrow> string option" where
  "var env name = var_with_legacy env name"

text \<open>The type parameter of the Rust function is its width: values below \<open>bound\<close> parse.\<close>

definition read_env_positive :: "nat \<Rightarrow> environ \<Rightarrow> string \<Rightarrow> nat \<Rightarrow> nat" where
  "read_env_positive bound env name dflt =
     (case var_with_legacy env name of
        Some s \<Rightarrow>
          (case parse_uint bound s of
             Some v \<Rightarrow> if v > 0 then v else dflt
           | None \<Rightarrow> dflt)
      | None \<Rightarrow> dflt)"

definition read_env_u64 :: "environ \<Rightarrow> string \<Rightarrow> nat \<Rightarrow> nat" where
  "read_env_u64 env name dflt = read_env_positive (2 ^ 64) env name dflt"

definition read_env_usize :: "environ \<Rightarrow> string \<Rightarrow> nat \<Rightarrow> nat" where
  "read_env_usize env name dflt = read_env_positive (2 ^ 64) env name dflt"

lemma read_env_positive_bounds:
  "0 < dflt \<Longrightarrow> 0 < read_env_positive bound env name dflt"
  "dflt < bound \<Longrightarrow> read_env_positive bound env name dflt < bound"
  by (auto simp: read_env_positive_def dest: parse_uint_bound split: option.splits)

lemma read_env_u64_bounds:
  "0 < dflt \<Longrightarrow> 0 < read_env_u64 env name dflt"
  "dflt < 2 ^ 64 \<Longrightarrow> read_env_u64 env name dflt < 2 ^ 64"
  unfolding read_env_u64_def by (rule read_env_positive_bounds, assumption)+

lemma read_env_usize_bounds:
  "0 < dflt \<Longrightarrow> 0 < read_env_usize env name dflt"
  "dflt < 2 ^ 64 \<Longrightarrow> read_env_usize env name dflt < 2 ^ 64"
  unfolding read_env_usize_def by (rule read_env_positive_bounds, assumption)+

end
