(* ===== verification/Wal_Store.thy ===== *)
theory Wal_Store
  imports Segment Env
begin

text \<open>
  The single-owner store of the write-ahead log, \<^verbatim>\<open>WalInner\<close> of \<^verbatim>\<open>statix/src/wal/mod.rs\<close>:
  append with segment rotation and the drop-oldest cap, the drainer's peek, commit and
  garbage collection, and the repair of a failed append.  The files are an explicit disk;
  the outcome of every fallible system call is an argument (\<open>io_env\<close>), so that a failure at
  any point of an operation is a branch of the model.  Byte counts, offsets and sequence
  numbers are natural numbers, since no log reaches \<open>2 ^ 64\<close> bytes; the batch sequence number,
  which the code increments with wrap-around and stores in eight bytes, is a 64-bit word.
\<close>

section \<open>Disk\<close>

record disk =
  d_dirs :: "path list"
  d_files :: "(path \<times> bytes) list"

abbreviation file_content :: "disk \<Rightarrow> path \<Rightarrow> bytes option" where
  "file_content d p \<equiv> map_of (d_files d) p"

definition create_dir_all :: "path \<Rightarrow> disk \<Rightarrow> disk" where
  "create_dir_all p d = (if p \<in> set (d_dirs d) then d else d\<lparr>d_dirs := p # d_dirs d\<rparr>)"

definition create_file :: "path \<Rightarrow> disk \<Rightarrow> disk" where
  "create_file p d = d\<lparr>d_files := AList.update p [] (d_files d)\<rparr>"

definition remove_file :: "path \<Rightarrow> disk \<Rightarrow> disk" where
  "remove_file p d = d\<lparr>d_files := AList.delete p (d_files d)\<rparr>"

text \<open>A write at a position overwrites, and fills a hole past the end with zeros.\<close>

definition overwrite :: "nat \<Rightarrow> bytes \<Rightarrow> bytes \<Rightarrow> bytes" where
  "overwrite pos bs c =
     take pos (c @ replicate (pos - length c) 0) @ bs @ drop (pos + length bs) c"

definition write_file :: "path \<Rightarrow> nat \<Rightarrow> bytes \<Rightarrow> disk \<Rightarrow> disk" where
  "write_file p pos bs d =
     (case file_content d p of
        None \<Rightarrow> d
      | Some c \<Rightarrow> d\<lparr>d_files := AList.update p (overwrite pos bs c) (d_files d)\<rparr>)"

definition truncate_file :: "path \<Rightarrow> nat \<Rightarrow> disk \<Rightarrow> disk" where
  "truncate_file p n d =
     (case file_content d p of
        None \<Rightarrow> d
      | Some c \<Rightarrow> d\<lparr>d_files := AList.update p (take n (c @ replicate (n - length c) 0)) (d_files d)\<rparr>)"

text \<open>
  The outcomes of the system calls one operation makes.  A write outcome \<open>None\<close> is success;
  \<open>Some k\<close> is a failure after \<open>k\<close> bytes (for example \<^verbatim>\<open>ENOSPC\<close>).  Reads are indexed by the
  segment and the offset read at.
\<close>

record io_env =
  io_mkdir :: bool
  io_create :: bool
  io_seg_header :: "nat option"
  io_frame_header :: "nat option"
  io_payload :: "nat option"
  io_set_len :: bool
  io_seek :: bool
  io_remove :: "nat \<Rightarrow> bool"
  io_reads :: "nat \<Rightarrow> nat \<Rightarrow> kread list \<times> kread list"

definition io_ok :: io_env where
  "io_ok = \<lparr>io_mkdir = True, io_create = True, io_seg_header = None, io_frame_header = None,
     io_payload = None, io_set_len = True, io_seek = True, io_remove = (\<lambda>_. True),
     io_reads = (\<lambda>_ _. ([], []))\<rparr>"

section \<open>Configuration\<close>

record WalConfig =
  wc_enabled :: bool
  wc_dir :: path
  wc_max_bytes :: nat
  wc_segment_bytes :: nat
  wc_fsync_frames :: nat
  wc_fsync_interval_ms :: nat

definition wal_enabled_value :: "string \<Rightarrow> bool" where
  "wal_enabled_value v =
     (let v = to_ascii_lowercase (trim v)
      in \<not> (v = ''0'' \<or> v = ''false'' \<or> v = ''no'' \<or> v = ''off''))"

text \<open>\<open>PathBuf::from\<close> is the parameter \<open>path_of\<close>: the components of a path string.\<close>

definition WalConfig_from_env :: "(string \<Rightarrow> path) \<Rightarrow> environ \<Rightarrow> WalConfig" where
  "WalConfig_from_env path_of env =
     (let enabled = (case var env ''STATIX_WAL_ENABLED'' of Some v \<Rightarrow> wal_enabled_value v | None \<Rightarrow> True);
          dir = (case var env ''STATIX_WAL_DIR'' of
                   Some p \<Rightarrow> path_of p | None \<Rightarrow> path_of ''/var/lib/statix/wal'');
          max_bytes = read_env_u64 env ''STATIX_WAL_MAX_BYTES'' (512 * 1024 * 1024);
          segment_bytes = read_env_u64 env ''STATIX_WAL_SEGMENT_BYTES'' (8 * 1024 * 1024);
          fsync_frames = read_env_u64 env ''STATIX_WAL_FSYNC_FRAMES'' 64;
          fsync_interval = read_env_u64 env ''STATIX_WAL_FSYNC_INTERVAL_MS'' 200
      in \<lparr>wc_enabled = enabled, wc_dir = dir, wc_max_bytes = max max_bytes segment_bytes,
          wc_segment_bytes = segment_bytes, wc_fsync_frames = max fsync_frames 1,
          wc_fsync_interval_ms = fsync_interval\<rparr>)"

section \<open>Store state\<close>

record SegmentMeta =
  sm_seq :: nat
  sm_path :: path
  sm_bytes :: nat
  sm_frames :: nat

text \<open>The open file handle of the active segment is its path and its cursor.\<close>

record ActiveSegment =
  as_seq :: nat
  as_file :: path
  as_pos :: nat
  as_offset :: nat

record wal_metrics =
  m_bytes_current :: nat
  m_segments_current :: nat
  m_frames_written :: nat
  m_frames_replayed :: nat
  m_dropped_batches :: nat
  m_dropped_bytes :: nat
  m_corrupt_frames :: nat
  m_write_errors :: nat

definition no_metrics :: wal_metrics where
  "no_metrics = \<lparr>m_bytes_current = 0, m_segments_current = 0, m_frames_written = 0,
     m_frames_replayed = 0, m_dropped_batches = 0, m_dropped_bytes = 0, m_corrupt_frames = 0,
     m_write_errors = 0\<rparr>"

text \<open>The last two fields are the environment of the store: the disk and the metric registry.\<close>

record WalInner =
  wi_cfg :: WalConfig
  wi_segments :: "SegmentMeta list"
  wi_active :: "ActiveSegment option"
  wi_total_bytes :: nat
  wi_next_seq :: nat
  wi_next_batch_seq :: u64
  wi_read_seq :: nat
  wi_read_offset :: nat
  wi_pending_advance :: "nat option"
  wi_disk :: disk
  wi_metrics :: wal_metrics

datatype wal_error = WalIo io_error | WalPanic string

section \<open>Operations\<close>

definition refresh_gauges :: "WalInner \<Rightarrow> WalInner" where
  "refresh_gauges w =
     w\<lparr>wi_metrics := (wi_metrics w)\<lparr>m_bytes_current := wi_total_bytes w,
                                    m_segments_current := length (wi_segments w)\<rparr>\<rparr>"

definition empty_inner :: "WalConfig \<Rightarrow> disk \<Rightarrow> wal_metrics \<Rightarrow> WalInner" where
  "empty_inner cfg d m =
     \<lparr>wi_cfg = cfg, wi_segments = [], wi_active = None, wi_total_bytes = 0, wi_next_seq = 0,
      wi_next_batch_seq = 0, wi_read_seq = 0, wi_read_offset = SEGMENT_HEADER_LEN,
      wi_pending_advance = None, wi_disk = d, wi_metrics = m\<rparr>"

definition inner_from_recovered ::
  "WalConfig \<Rightarrow> SegmentMeta list \<Rightarrow> ActiveSegment option \<Rightarrow> nat \<Rightarrow> nat \<Rightarrow> u64 \<Rightarrow> disk \<Rightarrow> wal_metrics
   \<Rightarrow> WalInner" where
  "inner_from_recovered cfg segs act total_b next_seq next_batch d m =
     (let (rs, ro) = (case segs of [] \<Rightarrow> (next_seq, SEGMENT_HEADER_LEN)
                                 | s # _ \<Rightarrow> (sm_seq s, SEGMENT_HEADER_LEN))
      in refresh_gauges
           \<lparr>wi_cfg = cfg, wi_segments = segs, wi_active = act, wi_total_bytes = total_b,
            wi_next_seq = next_seq, wi_next_batch_seq = next_batch, wi_read_seq = rs,
            wi_read_offset = ro, wi_pending_advance = None, wi_disk = d, wi_metrics = m\<rparr>)"

text \<open>One round of the drop-oldest loop: the oldest segment leaves the log.\<close>

definition drop_victim :: "io_env \<Rightarrow> SegmentMeta \<Rightarrow> SegmentMeta list \<Rightarrow> WalInner \<Rightarrow> WalInner" where
  "drop_victim env victim rest w =
     (let w1 = w\<lparr>wi_segments := rest,
                 wi_total_bytes := wi_total_bytes w - sm_bytes victim,
                 wi_metrics := (wi_metrics w)
                   \<lparr>m_dropped_batches := m_dropped_batches (wi_metrics w) + sm_frames victim,
                    m_dropped_bytes := m_dropped_bytes (wi_metrics w) + sm_bytes victim\<rparr>,
                 wi_disk := (if io_remove env (sm_seq victim)
                             then remove_file (sm_path victim) (wi_disk w) else wi_disk w)\<rparr>
      in if wi_read_seq w1 = sm_seq victim
         then case rest of
                [] \<Rightarrow> w1
              | front # _ \<Rightarrow> w1\<lparr>wi_read_seq := sm_seq front, wi_read_offset := SEGMENT_HEADER_LEN,
                                wi_pending_advance := None\<rparr>
         else w1)"

lemma drop_victim_segments [simp]: "wi_segments (drop_victim env v rest w) = rest"
  by (auto simp: drop_victim_def Let_def split: list.splits)

function enforce_cap :: "io_env \<Rightarrow> nat \<Rightarrow> WalInner \<Rightarrow> WalInner" where
  "enforce_cap env incoming w =
     (if wi_total_bytes w + incoming > wc_max_bytes (wi_cfg w) \<and> length (wi_segments w) > 1
      then case wi_segments w of
             [] \<Rightarrow> refresh_gauges w
           | victim # rest \<Rightarrow> enforce_cap env incoming (drop_victim env victim rest w)
      else refresh_gauges w)"
  by pat_completeness auto
termination
  by (relation "measure (\<lambda>(env, incoming, w). length (wi_segments w))") auto

declare enforce_cap.simps [simp del]

definition rotate_segment :: "io_env \<Rightarrow> WalInner \<Rightarrow> (wal_error + unit) \<times> WalInner" where
  "rotate_segment env w =
     (let w1 = w\<lparr>wi_active := None\<rparr>
      in if \<not> io_mkdir env then (Inl (WalIo OtherIo), w1)
         else
           let w2 = w1\<lparr>wi_disk := create_dir_all (wc_dir (wi_cfg w1)) (wi_disk w1)\<rparr>;
               seq = wi_next_seq w2;
               w3 = w2\<lparr>wi_next_seq := wi_next_seq w2 + 1\<rparr>;
               p = segment_path (wc_dir (wi_cfg w3)) seq
           in if \<not> io_create env then (Inl (WalIo OtherIo), w3)
              else
                let w4 = w3\<lparr>wi_disk := create_file p (wi_disk w3)\<rparr>
                in case io_seg_header env of
                     Some k \<Rightarrow>
                       (Inl (WalIo StorageFull),
                        w4\<lparr>wi_disk := write_file p 0 (take k encode_segment_header) (wi_disk w4)\<rparr>)
                   | None \<Rightarrow>
                       (Inr (),
                        w4\<lparr>wi_disk := write_file p 0 encode_segment_header (wi_disk w4),
                           wi_segments := wi_segments w4 @
                             [\<lparr>sm_seq = seq, sm_path = p, sm_bytes = SEGMENT_HEADER_LEN, sm_frames = 0\<rparr>],
                           wi_total_bytes := wi_total_bytes w4 + SEGMENT_HEADER_LEN,
                           wi_active := Some \<lparr>as_seq = seq, as_file = p,
                             as_pos = length encode_segment_header, as_offset = SEGMENT_HEADER_LEN\<rparr>\<rparr>))"

definition ensure_active_with_room ::
  "io_env \<Rightarrow> nat \<Rightarrow> WalInner \<Rightarrow> (wal_error + unit) \<times> WalInner" where
  "ensure_active_with_room env frame_size w =
     (let needs_rotate =
            (case wi_active w of
               None \<Rightarrow> True
             | Some a \<Rightarrow> as_offset a > SEGMENT_HEADER_LEN
                        \<and> as_offset a + frame_size > wc_segment_bytes (wi_cfg w))
      in if needs_rotate then rotate_segment env w else (Inr (), w))"

text \<open>\<^verbatim>\<open>write_all\<close> on the active handle: all bytes, or a prefix and an error.\<close>

definition write_active :: "nat option \<Rightarrow> bytes \<Rightarrow> ActiveSegment \<Rightarrow> WalInner \<Rightarrow> bool \<times> ActiveSegment \<times> WalInner" where
  "write_active fault bs a w =
     (let done = (case fault of None \<Rightarrow> bs | Some k \<Rightarrow> take k bs);
          a' = a\<lparr>as_pos := as_pos a + length done\<rparr>
      in (fault = None, a',
          w\<lparr>wi_active := Some a', wi_disk := write_file (as_file a) (as_pos a) done (wi_disk w)\<rparr>))"

definition bump_last :: "nat \<Rightarrow> SegmentMeta list \<Rightarrow> SegmentMeta list" where
  "bump_last n segs =
     (if segs = [] then []
      else butlast segs @ [(last segs)\<lparr>sm_bytes := sm_bytes (last segs) + n,
                                      sm_frames := sm_frames (last segs) + 1\<rparr>])"

definition append_batch ::
  "(bytes \<Rightarrow> u32) \<Rightarrow> io_env \<Rightarrow> bytes \<Rightarrow> WalInner \<Rightarrow> (wal_error + unit) \<times> WalInner" where
  "append_batch crc32 env pl w =
     (let frame_size = frame_len_on_disk (length pl);
          w1 = enforce_cap env frame_size w
      in case ensure_active_with_room env frame_size w1 of
           (Inl e, w2) \<Rightarrow> (Inl e, w2)
         | (Inr _, w2) \<Rightarrow>
             let batch_seq = wi_next_batch_seq w2;
                 w3 = w2\<lparr>wi_next_batch_seq := wi_next_batch_seq w2 + 1\<rparr>;
                 header = encode_frame_header crc32 pl batch_seq
             in case wi_active w3 of
                  None \<Rightarrow> (Inl (WalPanic ''ensure_active_with_room guarantees an active segment''), w3)
                | Some a \<Rightarrow>
                    (case write_active (io_frame_header env) header a w3 of
                       (False, _, w4) \<Rightarrow> (Inl (WalIo StorageFull), w4)
                     | (True, a1, w4) \<Rightarrow>
                         (case write_active (io_payload env) pl a1 w4 of
                            (False, _, w5) \<Rightarrow> (Inl (WalIo StorageFull), w5)
                          | (True, a2, w5) \<Rightarrow>
                              let w6 = w5\<lparr>wi_active := Some (a2\<lparr>as_offset := as_offset a2 + frame_size\<rparr>),
                                          wi_segments := bump_last frame_size (wi_segments w5),
                                          wi_total_bytes := wi_total_bytes w5 + frame_size,
                                          wi_metrics := (wi_metrics w5)
                                            \<lparr>m_frames_written := m_frames_written (wi_metrics w5) + 1\<rparr>\<rparr>
                              in (Inr (), refresh_gauges w6))))"

definition recover_active_after_error :: "io_env \<Rightarrow> WalInner \<Rightarrow> WalInner" where
  "recover_active_after_error env w =
     (case wi_active w of
        None \<Rightarrow> w
      | Some a \<Rightarrow>
          w\<lparr>wi_disk := (if io_set_len env then truncate_file (as_file a) (as_offset a) (wi_disk w)
                        else wi_disk w),
            wi_active := Some (if io_seek env then a\<lparr>as_pos := as_offset a\<rparr> else a)\<rparr>)"

definition gc_front_consumed :: "io_env \<Rightarrow> WalInner \<Rightarrow> WalInner" where
  "gc_front_consumed env w =
     (let cur = wi_read_seq w;
          w1 = (case List.extract (\<lambda>s. sm_seq s = cur) (wi_segments w) of
                  None \<Rightarrow> w
                | Some (before, meta, after) \<Rightarrow>
                    w\<lparr>wi_segments := before @ after,
                      wi_total_bytes := wi_total_bytes w - sm_bytes meta,
                      wi_disk := (if io_remove env (sm_seq meta)
                                  then remove_file (sm_path meta) (wi_disk w) else wi_disk w)\<rparr>);
          w2 = (case wi_segments w1 of
                  [] \<Rightarrow> w1
                | front # _ \<Rightarrow> w1\<lparr>wi_read_seq := sm_seq front, wi_read_offset := SEGMENT_HEADER_LEN\<rparr>)
      in refresh_gauges (w2\<lparr>wi_pending_advance := None\<rparr>))"

text \<open>The resynchronisation at the head of the peek loop.\<close>

definition resync_cursor :: "WalInner \<Rightarrow> WalInner" where
  "resync_cursor w =
     (if \<exists>s \<in> set (wi_segments w). sm_seq s = wi_read_seq w then w
      else case wi_segments w of
             [] \<Rightarrow> w
           | front # _ \<Rightarrow> w\<lparr>wi_read_seq := sm_seq front, wi_read_offset := SEGMENT_HEADER_LEN\<rparr>)"

definition reading_active :: "WalInner \<Rightarrow> bool" where
  "reading_active w = (case wi_active w of None \<Rightarrow> False | Some a \<Rightarrow> as_seq a = wi_read_seq w)"

lemma resync_cursor_segments [simp]: "wi_segments (resync_cursor w) = wi_segments w"
  by (simp add: resync_cursor_def split: list.splits)

lemma gc_front_consumed_segments:
  assumes "List.extract (\<lambda>s. sm_seq s = wi_read_seq w) (wi_segments w) = Some (b, m, a)"
  shows "wi_segments (gc_front_consumed env w) = b @ a"
  unfolding gc_front_consumed_def Let_def assms
  by (cases "b @ a") (simp_all add: refresh_gauges_def)

lemma gc_front_consumed_shorter:
  assumes "find (\<lambda>s. sm_seq s = wi_read_seq w) (wi_segments w) = Some m"
  shows "length (wi_segments (gc_front_consumed env w)) < length (wi_segments w)"
proof -
  from find_SomeD [OF assms] have "m \<in> set (wi_segments w)" "sm_seq m = wi_read_seq w"
    by auto
  then obtain b m a where x: "List.extract (\<lambda>s. sm_seq s = wi_read_seq w) (wi_segments w) = Some (b, m, a)"
    by (cases "List.extract (\<lambda>s. sm_seq s = wi_read_seq w) (wi_segments w)") (auto simp: extract_None_iff)
  then have "wi_segments w = b @ m # a"
    by (rule extract_SomeE [THEN conjunct1])
  with gc_front_consumed_segments [OF x] show ?thesis by simp
qed

lemma gc_resync_shorter:
  "find (\<lambda>s. sm_seq s = wi_read_seq w1) (wi_segments w1) = Some m \<Longrightarrow> w1 = resync_cursor w
   \<Longrightarrow> length (wi_segments (gc_front_consumed env w1)) < length (wi_segments w)"
  using gc_front_consumed_shorter [of w1 m env] by simp

function peek_next ::
  "(bytes \<Rightarrow> u32) \<Rightarrow> io_env \<Rightarrow> WalInner \<Rightarrow> (wal_error + DecodedFrame option) \<times> WalInner" where
  "peek_next crc32 env w =
     (if wi_segments w = [] then (Inr None, w)
      else
        let w1 = resync_cursor w
        in case find (\<lambda>s. sm_seq s = wi_read_seq w1) (wi_segments w1) of
             None \<Rightarrow> (Inl (WalPanic ''read_seq resynced to an existing segment''), w1)
           | Some m \<Rightarrow>
               (case file_content (wi_disk w1) (sm_path m) of
                  None \<Rightarrow> (Inl (WalIo NotFound), w1)
                | Some c \<Rightarrow>
                    (case read_frame_at crc32 (io_reads env (wi_read_seq w1) (wi_read_offset w1)) c
                            (wi_read_offset w1) of
                       Inl e \<Rightarrow> (Inl (WalIo e), w1)
                     | Inr (Frame f nxt) \<Rightarrow> (Inr (Some f), w1\<lparr>wi_pending_advance := Some nxt\<rparr>)
                     | Inr _ \<Rightarrow>
                         if reading_active w1 then (Inr None, w1)
                         else peek_next crc32 env (gc_front_consumed env w1))))"
  by pat_completeness auto
termination
  by (relation "measure (\<lambda>(crc32, env, w). length (wi_segments w))")
     (simp_all add: gc_resync_shorter)

declare peek_next.simps [simp del]

definition commit_pending :: "WalInner \<Rightarrow> WalInner" where
  "commit_pending w =
     (case wi_pending_advance w of
        None \<Rightarrow> w
      | Some nxt \<Rightarrow>
          w\<lparr>wi_pending_advance := None, wi_read_offset := nxt,
            wi_metrics := (wi_metrics w)\<lparr>m_frames_replayed := m_frames_replayed (wi_metrics w) + 1\<rparr>\<rparr>)"

definition has_backlog :: "WalInner \<Rightarrow> bool" where
  "has_backlog w =
     (case wi_active w of
        None \<Rightarrow> False
      | Some a \<Rightarrow> wi_read_seq w \<noteq> as_seq a \<or> wi_read_offset w < as_offset a)"

text \<open>The writer thread's wrapper around one append, \<^verbatim>\<open>append_one\<close> of \<^verbatim>\<open>writer.rs\<close>.\<close>

definition append_one :: "(bytes \<Rightarrow> u32) \<Rightarrow> io_env \<Rightarrow> bytes \<Rightarrow> WalInner \<Rightarrow> WalInner" where
  "append_one crc32 env pl w =
     (case append_batch crc32 env pl w of
        (Inr _, w') \<Rightarrow> w'
      | (Inl _, w') \<Rightarrow>
          recover_active_after_error env
            (w'\<lparr>wi_metrics := (wi_metrics w')\<lparr>m_write_errors := m_write_errors (wi_metrics w') + 1\<rparr>\<rparr>))"

end
