(* ===== verification/Wal_Refine.thy ===== *)
theory Wal_Refine
  imports Wal_Store
begin

text \<open>
  The store of \<open>Wal_Store\<close> implements a bounded FIFO queue of frames.  The representation
  predicate \<open>wal_rep crc32 w fss k\<close> says that the files and the bookkeeping of \<open>w\<close> hold the
  frames \<open>fss\<close>, segment by segment, and that the drainer has committed the first \<open>k\<close> frames of
  the oldest segment; the abstract queue is what remains.  Every operation, with any
  combination of I/O failures of its writes, preserves it.
\<close>

section \<open>Representation\<close>

definition seg_image :: "(bytes \<Rightarrow> u32) \<Rightarrow> DecodedFrame list \<Rightarrow> bytes" where
  "seg_image crc32 fs = encode_segment_header @ concat (map (frame_bytes crc32) fs)"

definition seg_ok :: "(bytes \<Rightarrow> u32) \<Rightarrow> path \<Rightarrow> disk \<Rightarrow> SegmentMeta \<Rightarrow> DecodedFrame list \<Rightarrow> bool" where
  "seg_ok crc32 dir d m fs \<longleftrightarrow>
     sm_path m = segment_path dir (sm_seq m)
     \<and> file_content d (sm_path m) = Some (seg_image crc32 fs)
     \<and> sm_bytes m = length (seg_image crc32 fs) \<and> sm_frames m = length fs
     \<and> (\<forall>f \<in> set fs. payload_ok (df_payload f))"

definition segs_rep :: "(bytes \<Rightarrow> u32) \<Rightarrow> WalInner \<Rightarrow> DecodedFrame list list \<Rightarrow> bool" where
  "segs_rep crc32 w fss \<longleftrightarrow>
     list_all2 (seg_ok crc32 (wc_dir (wi_cfg w)) (wi_disk w)) (wi_segments w) fss
     \<and> sorted_wrt (<) (map sm_seq (wi_segments w))
     \<and> (\<forall>s \<in> set (wi_segments w). sm_seq s < wi_next_seq w)
     \<and> wi_total_bytes w = sum_list (map sm_bytes (wi_segments w))"

definition active_rep :: "WalInner \<Rightarrow> bool" where
  "active_rep w \<longleftrightarrow>
     (\<forall>a. wi_active w = Some a \<longrightarrow>
        wi_segments w \<noteq> [] \<and> as_seq a = sm_seq (last (wi_segments w))
        \<and> as_file a = sm_path (last (wi_segments w)) \<and> as_offset a = sm_bytes (last (wi_segments w))
        \<and> as_pos a = as_offset a)"

definition cursor_rep :: "(bytes \<Rightarrow> u32) \<Rightarrow> WalInner \<Rightarrow> DecodedFrame list list \<Rightarrow> nat \<Rightarrow> bool" where
  "cursor_rep crc32 w fss k \<longleftrightarrow>
     (if wi_segments w = []
      then k = 0 \<and> wi_pending_advance w = None \<and> wi_read_seq w \<le> wi_next_seq w
           \<and> (wi_read_seq w = wi_next_seq w \<longrightarrow> wi_read_offset w = SEGMENT_HEADER_LEN)
      else
        (wi_read_seq w = sm_seq (hd (wi_segments w)) \<and> k \<le> length (hd fss)
         \<and> wi_read_offset w = length (seg_image crc32 (take k (hd fss)))
         \<and> (wi_pending_advance w = None
            \<or> k < length (hd fss)
              \<and> wi_pending_advance w = Some (length (seg_image crc32 (take (Suc k) (hd fss))))))
        \<or> (wi_read_seq w < sm_seq (hd (wi_segments w)) \<and> k = 0 \<and> wi_pending_advance w = None))"

definition wal_rep :: "(bytes \<Rightarrow> u32) \<Rightarrow> WalInner \<Rightarrow> DecodedFrame list list \<Rightarrow> nat \<Rightarrow> bool" where
  "wal_rep crc32 w fss k \<longleftrightarrow> segs_rep crc32 w fss \<and> active_rep w \<and> cursor_rep crc32 w fss k"

definition backlog :: "DecodedFrame list list \<Rightarrow> nat \<Rightarrow> DecodedFrame list" where
  "backlog fss k = drop k (concat fss)"

section \<open>Disk lemmas\<close>

lemma file_content_write [simp]:
  "file_content (write_file p pos bs d) q =
     (if q = p then map_option (overwrite pos bs) (file_content d p) else file_content d q)"
  by (auto simp: write_file_def map_of_update split: option.splits)

lemma file_content_truncate [simp]:
  "file_content (truncate_file p n d) q =
     (if q = p then map_option (\<lambda>c. take n (c @ replicate (n - length c) 0)) (file_content d p)
      else file_content d q)"
  by (auto simp: truncate_file_def map_of_update split: option.splits)

lemma file_content_create [simp]:
  "file_content (create_file p d) q = (if q = p then Some [] else file_content d q)"
  by (simp add: create_file_def map_of_update)

lemma file_content_remove [simp]:
  "file_content (remove_file p d) q = (if q = p then None else file_content d q)"
  by (simp add: remove_file_def map_of_delete)

lemma file_content_mkdir [simp]: "file_content (create_dir_all p d) q = file_content d q"
  by (simp add: create_dir_all_def)

lemma overwrite_end [simp]: "overwrite (length c) bs c = c @ bs"
  by (simp add: overwrite_def)

lemma zero_pad_inj: "zero_pad k (dec_str a) = zero_pad k (dec_str b) \<Longrightarrow> a = b"
proof -
  have "digits_val 0 (zero_pad k (dec_str n)) = Some n" for n
    by (simp add: zero_pad_def digits_val_append)
  then show "zero_pad k (dec_str a) = zero_pad k (dec_str b) \<Longrightarrow> a = b"
    by (metis option.inject)
qed

lemma segment_path_inj [simp]: "segment_path dir a = segment_path dir b \<longleftrightarrow> a = b"
  by (auto simp: segment_path_def dest: zero_pad_inj)

lemma length_encode_segment_header [simp]: "length encode_segment_header = 16"
  by (simp add: encode_segment_header_def SEGMENT_MAGIC_def)

lemma seg_image_Nil [simp]: "seg_image crc32 [] = encode_segment_header"
  by (simp add: seg_image_def)

lemma seg_image_snoc: "seg_image crc32 (fs @ [f]) = seg_image crc32 fs @ frame_bytes crc32 f"
  by (simp add: seg_image_def)

lemma seg_image_split:
  "k < length fs \<Longrightarrow> seg_image crc32 fs
     = seg_image crc32 (take k fs) @ frame_bytes crc32 (fs ! k) @ concat (map (frame_bytes crc32) (drop (Suc k) fs))"
  by (subst id_take_nth_drop [of k fs]) (simp_all add: seg_image_def)

section \<open>Segments\<close>

lemma seg_ok_disk:
  "seg_ok crc32 dir d m fs \<Longrightarrow> file_content d' (sm_path m) = file_content d (sm_path m)
   \<Longrightarrow> seg_ok crc32 dir d' m fs"
  unfolding seg_ok_def by metis

lemma seg_ok_path: "seg_ok crc32 dir d m fs \<Longrightarrow> sm_path m = segment_path dir (sm_seq m)"
  by (simp add: seg_ok_def)

lemma segs_ok_disk:
  assumes "list_all2 (seg_ok crc32 dir d) segs fss"
    and "\<And>m. m \<in> set segs \<Longrightarrow> file_content d' (segment_path dir (sm_seq m)) = file_content d (segment_path dir (sm_seq m))"
  shows "list_all2 (seg_ok crc32 dir d') segs fss"
  using assms
proof (induction rule: list_all2_induct)
  case (Cons m ms fs fss)
  then show ?case by (auto intro: seg_ok_disk simp: seg_ok_path)
qed simp

lemma wal_rep_lengths: "wal_rep crc32 w fss k \<Longrightarrow> length fss = length (wi_segments w)"
  by (auto simp: wal_rep_def segs_rep_def dest: list_all2_lengthD)

lemma wal_rep_k: "wal_rep crc32 w fss k \<Longrightarrow> k \<le> length (concat fss)"
  by (cases fss) (auto simp: wal_rep_def cursor_rep_def segs_rep_def split: if_splits)

text \<open>The fields the representation reads; an update of any other field keeps it.\<close>

lemma wal_rep_cong:
  assumes "wal_rep crc32 w fss k"
    and "wc_dir (wi_cfg w') = wc_dir (wi_cfg w)" "wi_disk w' = wi_disk w" "wi_segments w' = wi_segments w"
    "wi_active w' = wi_active w" "wi_total_bytes w' = wi_total_bytes w" "wi_next_seq w' = wi_next_seq w"
    "wi_read_seq w' = wi_read_seq w" "wi_read_offset w' = wi_read_offset w"
    "wi_pending_advance w' = wi_pending_advance w"
  shows "wal_rep crc32 w' fss k"
  using assms by (simp add: wal_rep_def segs_rep_def active_rep_def cursor_rep_def)

lemma wal_rep_refresh [simp]: "wal_rep crc32 (refresh_gauges w) fss k = wal_rep crc32 w fss k"
  by (auto simp: refresh_gauges_def elim: wal_rep_cong)

lemma wal_rep_metrics [simp]: "wal_rep crc32 (w\<lparr>wi_metrics := m\<rparr>) fss k = wal_rep crc32 w fss k"
  by (auto elim: wal_rep_cong)

lemma wal_rep_batch_seq [simp]: "wal_rep crc32 (w\<lparr>wi_next_batch_seq := s\<rparr>) fss k = wal_rep crc32 w fss k"
  by (auto elim: wal_rep_cong)

lemma wal_rep_empty: "wal_rep crc32 (empty_inner cfg d m) [] 0"
  by (simp add: wal_rep_def segs_rep_def active_rep_def cursor_rep_def empty_inner_def)

section \<open>Dropping the oldest segment\<close>

lemma drop_victim_fields [simp]:
  "wi_cfg (drop_victim env v rest w) = wi_cfg w"
  "wi_active (drop_victim env v rest w) = wi_active w"
  "wi_next_seq (drop_victim env v rest w) = wi_next_seq w"
  "wi_next_batch_seq (drop_victim env v rest w) = wi_next_batch_seq w"
  "wi_total_bytes (drop_victim env v rest w) = wi_total_bytes w - sm_bytes v"
  "wi_disk (drop_victim env v rest w) =
     (if io_remove env (sm_seq v) then remove_file (sm_path v) (wi_disk w) else wi_disk w)"
  "m_dropped_batches (wi_metrics (drop_victim env v rest w)) = m_dropped_batches (wi_metrics w) + sm_frames v"
  "m_frames_written (wi_metrics (drop_victim env v rest w)) = m_frames_written (wi_metrics w)"
  by (simp_all add: drop_victim_def Let_def split: list.splits)

lemma drop_victim_rep:
  assumes rep: "wal_rep crc32 w (fs # fss) k" and segs: "wi_segments w = v # rest" and ne: "rest \<noteq> []"
  shows "wal_rep crc32 (drop_victim env v rest w) fss 0"
proof -
  obtain front rest' where rest: "rest = front # rest'" using ne by (cases rest) auto
  let ?w = "drop_victim env v rest w"
  let ?dir = "wc_dir (wi_cfg w)"
  have all: "list_all2 (seg_ok crc32 ?dir (wi_disk w)) rest fss"
    and v: "seg_ok crc32 ?dir (wi_disk w) v fs"
    and lt: "\<And>s. s \<in> set rest \<Longrightarrow> sm_seq v < sm_seq s"
    using rep segs by (auto simp: wal_rep_def segs_rep_def)
  have "list_all2 (seg_ok crc32 ?dir (wi_disk ?w)) rest fss"
  proof (rule segs_ok_disk [OF all])
    fix m assume "m \<in> set rest"
    then show "file_content (wi_disk ?w) (segment_path ?dir (sm_seq m))
        = file_content (wi_disk w) (segment_path ?dir (sm_seq m))"
      using lt [of m] seg_ok_path [OF v] by auto
  qed
  then have "segs_rep crc32 ?w fss"
    using rep segs by (auto simp: wal_rep_def segs_rep_def)
  moreover have "active_rep ?w"
    using rep segs ne by (simp add: wal_rep_def active_rep_def)
  moreover have "cursor_rep crc32 ?w fss 0"
    using rep segs rest lt [of front]
    by (auto simp: wal_rep_def cursor_rep_def drop_victim_def Let_def SEGMENT_HEADER_LEN_def)
  ultimately show ?thesis by (simp add: wal_rep_def)
qed

lemma drop_victim_pending:
  assumes "wal_rep crc32 w fss k" and "wi_segments w = v # rest" and "rest \<noteq> []"
  shows "wi_pending_advance (drop_victim env v rest w) = None"
  using assms by (auto simp: drop_victim_def Let_def wal_rep_def cursor_rep_def split: list.splits)

lemma refresh_gauges_fields [simp]:
  "wi_cfg (refresh_gauges w) = wi_cfg w" "wi_segments (refresh_gauges w) = wi_segments w"
  "wi_active (refresh_gauges w) = wi_active w" "wi_total_bytes (refresh_gauges w) = wi_total_bytes w"
  "wi_next_seq (refresh_gauges w) = wi_next_seq w"
  "wi_next_batch_seq (refresh_gauges w) = wi_next_batch_seq w"
  "wi_read_seq (refresh_gauges w) = wi_read_seq w"
  "wi_read_offset (refresh_gauges w) = wi_read_offset w"
  "wi_pending_advance (refresh_gauges w) = wi_pending_advance w" "wi_disk (refresh_gauges w) = wi_disk w"
  "m_dropped_batches (wi_metrics (refresh_gauges w)) = m_dropped_batches (wi_metrics w)"
  "m_frames_written (wi_metrics (refresh_gauges w)) = m_frames_written (wi_metrics w)"
  by (simp_all add: refresh_gauges_def)

lemma enforce_cap_fields [simp]:
  "wi_cfg (enforce_cap env n w) = wi_cfg w" "wi_active (enforce_cap env n w) = wi_active w"
  "wi_next_seq (enforce_cap env n w) = wi_next_seq w"
  "wi_next_batch_seq (enforce_cap env n w) = wi_next_batch_seq w"
  "m_frames_written (wi_metrics (enforce_cap env n w)) = m_frames_written (wi_metrics w)"
  by (induction env n w rule: enforce_cap.induct; subst enforce_cap.simps; simp split: list.splits)+

text \<open>
  The cap loop drops \<open>d\<close> whole segments from the oldest end, never the last one, and stops
  when the incoming frame fits or a single segment is left.
\<close>

definition cap_drops :: "(bytes \<Rightarrow> u32) \<Rightarrow> WalInner \<Rightarrow> WalInner \<Rightarrow> DecodedFrame list list \<Rightarrow> nat \<Rightarrow> nat \<Rightarrow> nat \<Rightarrow> bool" where
  "cap_drops crc32 w w' fss k d k' \<longleftrightarrow>
     wal_rep crc32 w' (drop d fss) k' \<and> (d = 0 \<and> k' = k \<or> 0 < d \<and> d < length fss \<and> k' = 0)
     \<and> wi_segments w' = drop d (wi_segments w)
     \<and> wi_pending_advance w' = (if d = 0 then wi_pending_advance w else None)
     \<and> m_dropped_batches (wi_metrics w') = m_dropped_batches (wi_metrics w) + length (concat (take d fss))"

lemma enforce_cap_drops:
  "wal_rep crc32 w fss k \<Longrightarrow>
   \<exists>d k'. cap_drops crc32 w (enforce_cap env n w) fss k d k'
     \<and> (wi_total_bytes (enforce_cap env n w) + n \<le> wc_max_bytes (wi_cfg w)
        \<or> length (wi_segments (enforce_cap env n w)) \<le> 1)"
proof (induction env n w arbitrary: fss k rule: enforce_cap.induct)
  case (1 env n w)
  show ?case
  proof (cases "wi_total_bytes w + n > wc_max_bytes (wi_cfg w) \<and> length (wi_segments w) > 1")
    case False
    then have "enforce_cap env n w = refresh_gauges w" by (subst enforce_cap.simps) (simp only: if_not_P if_False)
    with False "1.prems" show ?thesis
      by (intro exI [of _ 0] exI [of _ k]) (auto simp: cap_drops_def)
  next
    case True
    then obtain v rest where segs: "wi_segments w = v # rest" and ne: "rest \<noteq> []"
      by (cases "wi_segments w") auto
    then obtain fs fss' where fss: "fss = fs # fss'"
      using wal_rep_lengths [OF "1.prems"] by (cases fss) auto
    let ?w = "drop_victim env v rest w"
    have eq: "enforce_cap env n w = enforce_cap env n ?w"
      using True segs by (subst enforce_cap.simps) simp
    have rep: "wal_rep crc32 ?w fss' 0"
      using drop_victim_rep "1.prems" segs ne unfolding fss by blast
    have frames: "sm_frames v = length fs"
      using "1.prems" segs fss by (simp add: wal_rep_def segs_rep_def seg_ok_def)
    obtain d k' where IH: "cap_drops crc32 ?w (enforce_cap env n ?w) fss' 0 d k'"
        "wi_total_bytes (enforce_cap env n ?w) + n \<le> wc_max_bytes (wi_cfg ?w)
         \<or> length (wi_segments (enforce_cap env n ?w)) \<le> 1"
      using "1.IH" [OF True segs rep] by blast
    have "length fss' = length rest" using wal_rep_lengths [OF rep] by simp
    with IH(1) frames segs ne drop_victim_pending [OF "1.prems" segs ne] have "cap_drops crc32 w (enforce_cap env n w) fss k (Suc d) k'"
      unfolding cap_drops_def eq fss by (auto simp: le_simps)
    with IH(2) show ?thesis unfolding eq by auto
  qed
qed

section \<open>Rotation\<close>

lemma list_all2_snoc: "list_all2 P (xs @ [x]) (ys @ [y]) \<longleftrightarrow> list_all2 P xs ys \<and> P x y"
proof -
  have "list_all2 P (xs @ [x]) (ys @ [y]) \<Longrightarrow> length xs = length ys"
    using list_all2_lengthD by fastforce
  then show ?thesis by (auto simp: list_all2_append list_all2_lengthD)
qed

lemma wal_rep_deactivate:
  assumes rep: "wal_rep crc32 w fss k"
    and same: "wi_cfg w' = wi_cfg w" "wi_segments w' = wi_segments w" "wi_total_bytes w' = wi_total_bytes w"
      "wi_read_seq w' = wi_read_seq w" "wi_read_offset w' = wi_read_offset w"
      "wi_pending_advance w' = wi_pending_advance w"
    and act: "wi_active w' = None" and seq: "wi_next_seq w \<le> wi_next_seq w'"
    and dsk: "\<And>s. s < wi_next_seq w \<Longrightarrow> file_content (wi_disk w') (segment_path (wc_dir (wi_cfg w)) s)
             = file_content (wi_disk w) (segment_path (wc_dir (wi_cfg w)) s)"
  shows "wal_rep crc32 w' fss k"
proof -
  have all: "list_all2 (seg_ok crc32 (wc_dir (wi_cfg w)) (wi_disk w)) (wi_segments w) fss"
    and lt: "\<And>s. s \<in> set (wi_segments w) \<Longrightarrow> sm_seq s < wi_next_seq w"
    using rep by (auto simp: wal_rep_def segs_rep_def)
  have "list_all2 (seg_ok crc32 (wc_dir (wi_cfg w)) (wi_disk w')) (wi_segments w) fss"
    by (rule segs_ok_disk [OF all]) (simp add: dsk lt)
  then have "segs_rep crc32 w' fss"
    using rep seq by (fastforce simp: wal_rep_def segs_rep_def same)
  moreover have "active_rep w'" by (simp add: active_rep_def act)
  moreover have "cursor_rep crc32 w' fss k"
    using rep seq by (auto simp: wal_rep_def cursor_rep_def same)
  ultimately show ?thesis by (simp add: wal_rep_def)
qed

lemma rotate_segment_error:
  assumes rep: "wal_rep crc32 w fss k" and err: "rotate_segment env w = (Inl e, w')"
  shows "wal_rep crc32 w' fss k" and "wi_active w' = None" and "e \<noteq> WalPanic msg"
    and "wi_next_batch_seq w' = wi_next_batch_seq w" and "wi_metrics w' = wi_metrics w"
proof -
  show act: "wi_active w' = None" and "e \<noteq> WalPanic msg" "wi_next_batch_seq w' = wi_next_batch_seq w"
      "wi_metrics w' = wi_metrics w"
    using err by (auto simp: rotate_segment_def Let_def split: if_splits option.splits)
  show "wal_rep crc32 w' fss k"
    by (rule wal_rep_deactivate [OF rep])
       (use err in \<open>auto simp: rotate_segment_def Let_def split: if_splits option.splits\<close>)
qed

lemma rotate_segment_success:
  assumes rep: "wal_rep crc32 w fss k" and ok: "rotate_segment env w = (Inr u, w')"
  shows "wal_rep crc32 w' (fss @ [[]]) k" and "\<exists>a. wi_active w' = Some a"
    and "wi_next_batch_seq w' = wi_next_batch_seq w" and "wi_metrics w' = wi_metrics w"
    and "wi_total_bytes w' = wi_total_bytes w + 16"
    and "length (wi_segments w') = Suc (length (wi_segments w))"
    and "wi_cfg w' = wi_cfg w"
proof -
  let ?dir = "wc_dir (wi_cfg w)"
  let ?p = "segment_path ?dir (wi_next_seq w)"
  let ?m = "\<lparr>sm_seq = wi_next_seq w, sm_path = ?p, sm_bytes = SEGMENT_HEADER_LEN, sm_frames = 0\<rparr>"
  have segs: "wi_segments w' = wi_segments w @ [?m]"
    and dsk: "wi_disk w' = write_file ?p 0 encode_segment_header (create_file ?p (create_dir_all ?dir (wi_disk w)))"
    and act: "wi_active w' = Some \<lparr>as_seq = wi_next_seq w, as_file = ?p,
        as_pos = length encode_segment_header, as_offset = SEGMENT_HEADER_LEN\<rparr>"
    and rest: "wi_cfg w' = wi_cfg w" "wi_next_seq w' = Suc (wi_next_seq w)"
      "wi_total_bytes w' = wi_total_bytes w + SEGMENT_HEADER_LEN" "wi_read_seq w' = wi_read_seq w"
      "wi_read_offset w' = wi_read_offset w" "wi_pending_advance w' = wi_pending_advance w"
    using ok by (auto simp: rotate_segment_def Let_def split: if_splits option.splits)
  show "\<exists>a. wi_active w' = Some a" "wi_next_batch_seq w' = wi_next_batch_seq w"
      "wi_metrics w' = wi_metrics w" "wi_total_bytes w' = wi_total_bytes w + 16"
      "length (wi_segments w') = Suc (length (wi_segments w))" "wi_cfg w' = wi_cfg w"
    using ok segs rest act
    by (auto simp: rotate_segment_def Let_def SEGMENT_HEADER_LEN_def split: if_splits option.splits)
  have lt: "\<And>s. s \<in> set (wi_segments w) \<Longrightarrow> sm_seq s < wi_next_seq w"
    and all: "list_all2 (seg_ok crc32 ?dir (wi_disk w)) (wi_segments w) fss"
    using rep by (auto simp: wal_rep_def segs_rep_def)
  have "list_all2 (seg_ok crc32 ?dir (wi_disk w')) (wi_segments w) fss"
    by (rule segs_ok_disk [OF all]) (use lt in \<open>force simp: dsk\<close>)
  moreover have "seg_ok crc32 ?dir (wi_disk w') ?m []"
    by (simp add: seg_ok_def dsk overwrite_def SEGMENT_HEADER_LEN_def)
  ultimately have "segs_rep crc32 w' (fss @ [[]])"
    using rep lt by (auto simp: wal_rep_def segs_rep_def segs rest list_all2_snoc sorted_wrt_append less_Suc_eq)
  moreover have "active_rep w'"
    by (simp add: active_rep_def act segs SEGMENT_HEADER_LEN_def)
  moreover have "cursor_rep crc32 w' (fss @ [[]]) k"
  proof (cases "wi_segments w = []")
    case True
    then show ?thesis
      using rep wal_rep_lengths [OF rep]
      by (auto simp: wal_rep_def cursor_rep_def segs rest SEGMENT_HEADER_LEN_def)
  next
    case False
    then have "fss \<noteq> []" using wal_rep_lengths [OF rep] by auto
    with False show ?thesis
      using rep by (simp add: wal_rep_def cursor_rep_def segs rest)
  qed
  ultimately show "wal_rep crc32 w' (fss @ [[]]) k" by (simp add: wal_rep_def)
qed

lemma ensure_active_error:
  assumes "wal_rep crc32 w fss k" and "ensure_active_with_room env n w = (Inl e, w')"
  shows "wal_rep crc32 w' fss k" and "wi_active w' = None" and "e \<noteq> WalPanic msg"
    and "wi_next_batch_seq w' = wi_next_batch_seq w" and "wi_metrics w' = wi_metrics w"
  using assms rotate_segment_error [OF assms(1)]
  by (auto simp: ensure_active_with_room_def Let_def split: if_splits)

text \<open>With an active segment in place the last segment takes the frame; its frames are \<open>fs\<close>.\<close>

lemma ensure_active_success:
  assumes rep: "wal_rep crc32 w fss k" and ok: "ensure_active_with_room env n w = (Inr u, w')"
  obtains fss' fs a where "wal_rep crc32 w' (fss' @ [fs]) k" and "concat (fss' @ [fs]) = concat fss"
    and "wi_active w' = Some a" and "wi_next_batch_seq w' = wi_next_batch_seq w"
    and "wi_metrics w' = wi_metrics w"
proof (cases "rotate_segment env w = (Inr u, w')")
  case True
  from rotate_segment_success [OF rep True] show ?thesis
    by (auto intro!: that [of fss "[]"])
next
  case False
  with ok have w': "w' = w" and "wi_active w \<noteq> None"
    by (auto simp: ensure_active_with_room_def Let_def split: if_splits option.splits)
  then obtain a where a: "wi_active w = Some a" by auto
  then have "wi_segments w \<noteq> []" using rep by (simp add: wal_rep_def active_rep_def)
  then have "fss \<noteq> []" using wal_rep_lengths [OF rep] by auto
  then show ?thesis
    using rep a w' by (intro that [of "butlast fss" "last fss"]) simp_all
qed

section \<open>Growing the last segment\<close>

lemma wal_rep_last:
  assumes "wal_rep crc32 w (fss @ [fs]) k" and "wi_active w = Some a"
  shows "file_content (wi_disk w) (as_file a) = Some (seg_image crc32 fs)"
    and "as_offset a = length (seg_image crc32 fs)" and "as_pos a = as_offset a"
    and "\<exists>ms m. wi_segments w = ms @ [m] \<and> as_file a = sm_path m \<and> seg_ok crc32 (wc_dir (wi_cfg w)) (wi_disk w) m fs
          \<and> list_all2 (seg_ok crc32 (wc_dir (wi_cfg w)) (wi_disk w)) ms fss"
proof -
  have ne: "wi_segments w \<noteq> []" using assms by (simp add: wal_rep_def active_rep_def)
  then obtain ms m where segs: "wi_segments w = ms @ [m]" by (metis rev_exhaust)
  with assms have "seg_ok crc32 (wc_dir (wi_cfg w)) (wi_disk w) m fs"
      "list_all2 (seg_ok crc32 (wc_dir (wi_cfg w)) (wi_disk w)) ms fss"
      "as_file a = sm_path m" "as_offset a = sm_bytes m" "as_pos a = as_offset a"
    by (auto simp: wal_rep_def segs_rep_def active_rep_def list_all2_snoc)
  with segs show "file_content (wi_disk w) (as_file a) = Some (seg_image crc32 fs)"
      "as_offset a = length (seg_image crc32 fs)" "as_pos a = as_offset a"
      "\<exists>ms m. wi_segments w = ms @ [m] \<and> as_file a = sm_path m \<and> seg_ok crc32 (wc_dir (wi_cfg w)) (wi_disk w) m fs
          \<and> list_all2 (seg_ok crc32 (wc_dir (wi_cfg w)) (wi_disk w)) ms fss"
    by (auto simp: seg_ok_def)
qed

lemma bump_last_snoc [simp]:
  "bump_last n (ms @ [m]) = ms @ [m\<lparr>sm_bytes := sm_bytes m + n, sm_frames := sm_frames m + 1\<rparr>]"
  by (simp add: bump_last_def)

lemma grow_last_rep:
  assumes rep: "wal_rep crc32 w (fss @ [fs]) k" and act: "wi_active w = Some a"
    and ok: "payload_ok (df_payload f)" and n: "n = length (frame_bytes crc32 f)"
    and dsk: "\<And>p. file_content (wi_disk w') p =
        (if p = as_file a then Some (seg_image crc32 (fs @ [f])) else file_content (wi_disk w) p)"
    and w': "wi_cfg w' = wi_cfg w" "wi_segments w' = bump_last n (wi_segments w)"
      "wi_total_bytes w' = wi_total_bytes w + n" "wi_next_seq w' = wi_next_seq w"
      "wi_read_seq w' = wi_read_seq w" "wi_read_offset w' = wi_read_offset w"
      "wi_pending_advance w' = wi_pending_advance w"
      "wi_active w' = Some (a\<lparr>as_pos := as_pos a + n, as_offset := as_offset a + n\<rparr>)"
  shows "wal_rep crc32 w' (fss @ [fs @ [f]]) k"
proof -
  let ?dir = "wc_dir (wi_cfg w)"
  obtain ms m where segs: "wi_segments w = ms @ [m]" and file_m: "as_file a = sm_path m"
    and m: "seg_ok crc32 ?dir (wi_disk w) m fs" and ms: "list_all2 (seg_ok crc32 ?dir (wi_disk w)) ms fss"
    using wal_rep_last(4) [OF rep act] by blast
  let ?m = "m\<lparr>sm_bytes := sm_bytes m + n, sm_frames := sm_frames m + 1\<rparr>"
  have segs': "wi_segments w' = ms @ [?m]" by (simp add: w' segs)
  have "\<And>s. s \<in> set ms \<Longrightarrow> sm_seq s < sm_seq m"
    using rep by (auto simp: wal_rep_def segs_rep_def segs sorted_wrt_append)
  then have "list_all2 (seg_ok crc32 ?dir (wi_disk w')) ms fss"
    by (intro segs_ok_disk [OF ms]) (force simp: dsk file_m seg_ok_path [OF m])
  moreover have "seg_ok crc32 ?dir (wi_disk w') ?m (fs @ [f])"
    using m ok by (simp add: seg_ok_def dsk file_m seg_image_snoc n)
  ultimately have "segs_rep crc32 w' (fss @ [fs @ [f]])"
    using rep by (simp add: wal_rep_def segs_rep_def segs segs' w' list_all2_snoc)
  moreover have "active_rep w'"
    using rep act by (simp add: wal_rep_def active_rep_def segs segs' w')
  moreover have "cursor_rep crc32 w' (fss @ [fs @ [f]]) k"
  proof (cases fss)
    case Nil
    with ms have "ms = []" by simp
    with Nil show ?thesis
      using rep by (auto simp: wal_rep_def cursor_rep_def segs segs' w')
  next
    case (Cons x xs)
    with ms obtain y ys where "ms = y # ys" by (cases ms) auto
    with Cons show ?thesis
      using rep by (simp add: wal_rep_def cursor_rep_def segs segs' w')
  qed
  ultimately show ?thesis by (simp add: wal_rep_def)
qed

lemma wal_rep_same_content:
  assumes rep: "wal_rep crc32 w fss k" and dsk: "\<And>p. file_content (wi_disk w') p = file_content (wi_disk w) p"
    and w': "wi_cfg w' = wi_cfg w" "wi_segments w' = wi_segments w" "wi_active w' = wi_active w"
      "wi_total_bytes w' = wi_total_bytes w" "wi_next_seq w' = wi_next_seq w"
      "wi_read_seq w' = wi_read_seq w" "wi_read_offset w' = wi_read_offset w"
      "wi_pending_advance w' = wi_pending_advance w"
  shows "wal_rep crc32 w' fss k"
proof -
  have "list_all2 (seg_ok crc32 (wc_dir (wi_cfg w)) (wi_disk w')) (wi_segments w) fss"
    by (rule segs_ok_disk [of _ _ "wi_disk w"]) (use rep in \<open>simp_all add: wal_rep_def segs_rep_def dsk\<close>)
  with rep show ?thesis
    by (simp add: wal_rep_def segs_rep_def active_rep_def cursor_rep_def w')
qed

text \<open>Repair after a torn write: whatever reached the file past the last frame is cut off.\<close>

lemma recover_torn_rep:
  assumes rep: "wal_rep crc32 w (fss @ [fs]) k" and act: "wi_active w = Some a"
    and ok: "io_set_len env" "io_seek env"
    and dsk: "\<And>p. file_content (wi_disk w') p =
        (if p = as_file a then Some (seg_image crc32 fs @ junk) else file_content (wi_disk w) p)"
    and w': "wi_cfg w' = wi_cfg w" "wi_segments w' = wi_segments w"
      "wi_total_bytes w' = wi_total_bytes w" "wi_next_seq w' = wi_next_seq w"
      "wi_read_seq w' = wi_read_seq w" "wi_read_offset w' = wi_read_offset w"
      "wi_pending_advance w' = wi_pending_advance w"
      "wi_active w' = Some (a\<lparr>as_pos := p'\<rparr>)"
  shows "wal_rep crc32 (recover_active_after_error env w') (fss @ [fs]) k"
proof (rule wal_rep_same_content [OF rep])
  note last = wal_rep_last [OF rep act]
  show "file_content (wi_disk (recover_active_after_error env w')) p = file_content (wi_disk w) p" for p
    using ok last(1,2) by (simp add: recover_active_after_error_def w' dsk)
  show "wi_active (recover_active_after_error env w') = wi_active w"
    using ok last(3) act by (simp add: recover_active_after_error_def w')
qed (use w' in \<open>simp_all add: recover_active_after_error_def\<close>)

section \<open>Append\<close>

text \<open>
  What the writer does once a segment is open: \<open>append_batch\<close> after the cap loop and the
  rotation, as a function of the two write outcomes.
\<close>

definition append_open ::
  "(bytes \<Rightarrow> u32) \<Rightarrow> io_env \<Rightarrow> bytes \<Rightarrow> ActiveSegment \<Rightarrow> WalInner \<Rightarrow> (wal_error + unit) \<times> WalInner" where
  "append_open crc32 env pl a w =
     (let header = encode_frame_header crc32 pl (wi_next_batch_seq w);
          w3 = w\<lparr>wi_next_batch_seq := wi_next_batch_seq w + 1\<rparr>
      in case write_active (io_frame_header env) header a w3 of
           (False, _, w4) \<Rightarrow> (Inl (WalIo StorageFull), w4)
         | (True, a1, w4) \<Rightarrow>
             (case write_active (io_payload env) pl a1 w4 of
                (False, _, w5) \<Rightarrow> (Inl (WalIo StorageFull), w5)
              | (True, a2, w5) \<Rightarrow>
                  (Inr (), refresh_gauges
                     (w5\<lparr>wi_active := Some (a2\<lparr>as_offset := as_offset a2 + frame_len_on_disk (length pl)\<rparr>),
                         wi_segments := bump_last (frame_len_on_disk (length pl)) (wi_segments w5),
                         wi_total_bytes := wi_total_bytes w5 + frame_len_on_disk (length pl),
                         wi_metrics := (wi_metrics w5)
                           \<lparr>m_frames_written := m_frames_written (wi_metrics w5) + 1\<rparr>\<rparr>))))"

lemma append_batch_open:
  "append_batch crc32 env pl w =
     (case ensure_active_with_room env (frame_len_on_disk (length pl))
             (enforce_cap env (frame_len_on_disk (length pl)) w) of
        (Inl e, w2) \<Rightarrow> (Inl e, w2)
      | (Inr _, w2) \<Rightarrow>
          (case wi_active w2 of
             None \<Rightarrow> (Inl (WalPanic ''ensure_active_with_room guarantees an active segment''),
                      w2\<lparr>wi_next_batch_seq := wi_next_batch_seq w2 + 1\<rparr>)
           | Some a \<Rightarrow> append_open crc32 env pl a w2))"
  by (auto simp: append_batch_def append_open_def Let_def
      split: prod.splits sum.splits option.splits bool.splits)

lemma append_open_success:
  assumes rep: "wal_rep crc32 w (fss @ [fs]) k" and act: "wi_active w = Some a" and pl: "payload_ok pl"
    and ok: "io_frame_header env = None" "io_payload env = None"
  shows "\<exists>w'. append_open crc32 env pl a w = (Inr (), w')
    \<and> wal_rep crc32 w' (fss @ [fs @ [\<lparr>df_batch_seq = wi_next_batch_seq w, df_payload = pl\<rparr>]]) k
    \<and> wi_next_batch_seq w' = wi_next_batch_seq w + 1
    \<and> m_dropped_batches (wi_metrics w') = m_dropped_batches (wi_metrics w)
    \<and> m_frames_written (wi_metrics w') = m_frames_written (wi_metrics w) + 1
    \<and> wi_total_bytes w' = wi_total_bytes w + frame_len_on_disk (length pl)
    \<and> wi_cfg w' = wi_cfg w"
proof -
  let ?f = "\<lparr>df_batch_seq = wi_next_batch_seq w, df_payload = pl\<rparr>"
  let ?n = "frame_len_on_disk (length pl)"
  note last = wal_rep_last [OF rep act]
  obtain w' where run: "append_open crc32 env pl a w = (Inr (), refresh_gauges w')"
    and w': "wi_cfg w' = wi_cfg w" "wi_segments w' = bump_last ?n (wi_segments w)"
      "wi_total_bytes w' = wi_total_bytes w + ?n" "wi_next_seq w' = wi_next_seq w"
      "wi_read_seq w' = wi_read_seq w" "wi_read_offset w' = wi_read_offset w"
      "wi_pending_advance w' = wi_pending_advance w"
      "wi_active w' = Some (a\<lparr>as_pos := as_pos a + ?n, as_offset := as_offset a + ?n\<rparr>)"
      "wi_next_batch_seq w' = wi_next_batch_seq w + 1"
      "m_dropped_batches (wi_metrics w') = m_dropped_batches (wi_metrics w)"
      "m_frames_written (wi_metrics w') = m_frames_written (wi_metrics w) + 1"
      "wi_disk w' = write_file (as_file a) (as_pos a + 16) pl
          (write_file (as_file a) (as_pos a) (encode_frame_header crc32 pl (wi_next_batch_seq w)) (wi_disk w))"
    using ok by (simp add: append_open_def write_active_def Let_def frame_len_on_disk_def FRAME_HEADER_LEN_def)
  have "overwrite (as_pos a + 16) pl (overwrite (as_pos a) (encode_frame_header crc32 pl (wi_next_batch_seq w))
          (seg_image crc32 fs)) = seg_image crc32 (fs @ [?f])"
  proof -
    have "as_pos a + 16 = length (seg_image crc32 fs @ encode_frame_header crc32 pl (wi_next_batch_seq w))"
      using last(2,3) by simp
    then show ?thesis
      using last(2,3) by (simp only: overwrite_end) (simp add: seg_image_snoc frame_bytes_def)
  qed
  then have "wal_rep crc32 w' (fss @ [fs @ [?f]]) k"
    by (intro grow_last_rep [OF rep act]) (use pl last(1) w' in \<open>simp_all add: length_frame_bytes\<close>)
  with run w' show ?thesis by auto
qed

lemma append_open_failure:
  assumes rep: "wal_rep crc32 w (fss @ [fs]) k" and act: "wi_active w = Some a"
    and err: "append_open crc32 env pl a w = (Inl e, w')" and ok: "io_set_len env" "io_seek env"
  shows "wal_rep crc32 (recover_active_after_error env (w'\<lparr>wi_metrics := m\<rparr>)) (fss @ [fs]) k"
    and "e \<noteq> WalPanic msg" and "wi_metrics w' = wi_metrics w"
    and "wi_next_batch_seq w' = wi_next_batch_seq w + 1"
proof -
  note last = wal_rep_last [OF rep act]
  obtain junk p' where dsk: "\<And>p. file_content (wi_disk w') p =
        (if p = as_file a then Some (seg_image crc32 fs @ junk) else file_content (wi_disk w) p)"
    and w': "wi_cfg w' = wi_cfg w" "wi_segments w' = wi_segments w"
      "wi_total_bytes w' = wi_total_bytes w" "wi_next_seq w' = wi_next_seq w"
      "wi_read_seq w' = wi_read_seq w" "wi_read_offset w' = wi_read_offset w"
      "wi_pending_advance w' = wi_pending_advance w" "wi_active w' = Some (a\<lparr>as_pos := p'\<rparr>)"
  proof (cases "io_frame_header env")
    case (Some j)
    let ?h = "take j (encode_frame_header crc32 pl (wi_next_batch_seq w))"
    have "w' = w\<lparr>wi_next_batch_seq := wi_next_batch_seq w + 1,
        wi_active := Some (a\<lparr>as_pos := as_pos a + length ?h\<rparr>),
        wi_disk := write_file (as_file a) (as_pos a) ?h (wi_disk w)\<rparr>"
      using err Some by (simp add: append_open_def write_active_def Let_def)
    then show ?thesis
      using last by (intro that [of ?h "as_pos a + length ?h"]) simp_all
  next
    case None
    let ?h = "encode_frame_header crc32 pl (wi_next_batch_seq w)"
    obtain j where j: "io_payload env = Some j"
      using err None by (cases "io_payload env") (simp_all add: append_open_def write_active_def Let_def)
    have "w' = w\<lparr>wi_next_batch_seq := wi_next_batch_seq w + 1,
        wi_active := Some (a\<lparr>as_pos := as_pos a + 16 + length (take j pl)\<rparr>),
        wi_disk := write_file (as_file a) (as_pos a + 16) (take j pl)
           (write_file (as_file a) (as_pos a) ?h (wi_disk w))\<rparr>"
      using err None j by (simp add: append_open_def write_active_def Let_def)
    moreover have "overwrite (as_pos a + 16) (take j pl) (overwrite (as_pos a) ?h (seg_image crc32 fs))
        = seg_image crc32 fs @ ?h @ take j pl"
    proof -
      have "as_pos a + 16 = length (seg_image crc32 fs @ ?h)" using last(2,3) by simp
      then show ?thesis using last(2,3) by (simp only: overwrite_end) simp
    qed
    ultimately show ?thesis
      using last by (intro that [of "?h @ take j pl" "as_pos a + 16 + length (take j pl)"]) simp_all
  qed
  show "wal_rep crc32 (recover_active_after_error env (w'\<lparr>wi_metrics := m\<rparr>)) (fss @ [fs]) k"
    by (rule recover_torn_rep [OF rep act ok]) (use dsk w' in simp_all)
  show "e \<noteq> WalPanic msg" "wi_metrics w' = wi_metrics w" "wi_next_batch_seq w' = wi_next_batch_seq w + 1"
    using err by (auto simp: append_open_def write_active_def Let_def split: if_splits option.splits)
qed

text \<open>
  The abstract effect of one append: the oldest \<open>d\<close> segments may leave, then either the new
  frame is at the tail or nothing else changed.
\<close>

text \<open>
  An append to a log in which there is room: the frame is at the end, or nothing has changed.
\<close>

definition appended :: "(bytes \<Rightarrow> u32) \<Rightarrow> io_env \<Rightarrow> bytes \<Rightarrow> WalInner \<Rightarrow> DecodedFrame list \<Rightarrow> nat \<Rightarrow> wal_metrics \<Rightarrow> bool" where
  "appended crc32 env pl w q k m \<longleftrightarrow> (\<exists>fss. wal_rep crc32 (append_one crc32 env pl w) fss k
     \<and> m_dropped_batches (wi_metrics (append_one crc32 env pl w)) = m_dropped_batches m
     \<and> (fst (append_batch crc32 env pl w) = Inr () \<and> concat fss = q @ [\<lparr>df_batch_seq = wi_next_batch_seq w, df_payload = pl\<rparr>]
        \<or> (\<exists>e. fst (append_batch crc32 env pl w) = Inl (WalIo e)) \<and> concat fss = q))"

lemma append_no_room:
  assumes rep: "wal_rep crc32 w1 fss k" and w1: "w1 = enforce_cap env (frame_len_on_disk (length pl)) w"
    and err: "ensure_active_with_room env (frame_len_on_disk (length pl)) w1 = (Inl e, w2)"
  shows "appended crc32 env pl w (concat fss) k (wi_metrics w1)"
proof -
  note p = ensure_active_error [OF rep err]
  obtain e' where e: "e = WalIo e'" using p(3) by (cases e) auto
  have "append_batch crc32 env pl w = (Inl (WalIo e'), w2)"
    using err by (simp add: append_batch_open e w1)
  moreover from this have "append_one crc32 env pl w =
      w2\<lparr>wi_metrics := (wi_metrics w2)\<lparr>m_write_errors := m_write_errors (wi_metrics w2) + 1\<rparr>\<rparr>"
    using p(2) by (simp add: append_one_def recover_active_after_error_def)
  ultimately show ?thesis
    using p(1,5) unfolding appended_def by (intro exI [of _ fss]) simp
qed

lemma append_with_room:
  assumes rep: "wal_rep crc32 w1 fss k" and w1: "w1 = enforce_cap env (frame_len_on_disk (length pl)) w"
    and en: "ensure_active_with_room env (frame_len_on_disk (length pl)) w1 = (Inr u, w2)"
    and pl: "payload_ok pl" and ok: "io_set_len env" "io_seek env"
  shows "appended crc32 env pl w (concat fss) k (wi_metrics w1)"
proof -
  obtain gss fs a where rep2: "wal_rep crc32 w2 (gss @ [fs]) k"
    and con: "concat (gss @ [fs]) = concat fss" and act: "wi_active w2 = Some a"
    and nb: "wi_next_batch_seq w2 = wi_next_batch_seq w1" and met: "wi_metrics w2 = wi_metrics w1"
    by (rule ensure_active_success [OF rep en])
  have ab: "append_batch crc32 env pl w = append_open crc32 env pl a w2"
    using en by (simp add: append_batch_open act w1)
  obtain r w3 where o: "append_open crc32 env pl a w2 = (r, w3)" by fastforce
  show ?thesis
  proof (cases r)
    case (Inl e)
    with o have err: "append_open crc32 env pl a w2 = (Inl e, w3)" by simp
    note p = append_open_failure [OF rep2 act err ok]
    obtain e' where "e = WalIo e'" using p(2) by (cases e) auto
    then show ?thesis
      using p(1,3) con met err unfolding appended_def
      by (intro exI [of _ "gss @ [fs]"]) (simp add: append_one_def ab recover_active_after_error_def split: option.splits)
  next
    case Inr
    with o have "io_frame_header env = None" "io_payload env = None"
      by (auto simp: append_open_def write_active_def Let_def split: option.splits if_splits)
    from append_open_success [OF rep2 act pl this] con nb met show ?thesis
      unfolding appended_def w1
      by (intro exI [of _ "gss @ [fs @ [\<lparr>df_batch_seq = wi_next_batch_seq w, df_payload = pl\<rparr>]]"]) (auto simp: append_one_def ab)
  qed
qed

lemma append_one_rep:
  assumes rep: "wal_rep crc32 w fss k" and pl: "payload_ok pl" and ok: "io_set_len env" "io_seek env"
  obtains d k' fss' where
    "cap_drops crc32 w (enforce_cap env (frame_len_on_disk (length pl)) w) fss k d k'"
    and "wal_rep crc32 (append_one crc32 env pl w) fss' k'"
    and "m_dropped_batches (wi_metrics (append_one crc32 env pl w))
           = m_dropped_batches (wi_metrics w) + length (concat (take d fss))"
    and "fst (append_batch crc32 env pl w) = Inr ()
           \<and> concat fss' = concat (drop d fss) @ [\<lparr>df_batch_seq = wi_next_batch_seq w, df_payload = pl\<rparr>]
         \<or> (\<exists>e. fst (append_batch crc32 env pl w) = Inl (WalIo e)) \<and> concat fss' = concat (drop d fss)"
proof -
  let ?n = "frame_len_on_disk (length pl)"
  define w1 where "w1 = enforce_cap env ?n w"
  obtain d k' where drops: "cap_drops crc32 w w1 fss k d k'"
    using enforce_cap_drops [OF rep] unfolding w1_def by blast
  then have rep1: "wal_rep crc32 w1 (drop d fss) k'"
    and met1: "m_dropped_batches (wi_metrics w1) = m_dropped_batches (wi_metrics w) + length (concat (take d fss))"
    by (simp_all add: cap_drops_def)
  obtain r w2 where "ensure_active_with_room env ?n w1 = (r, w2)" by fastforce
  then have "appended crc32 env pl w (concat (drop d fss)) k' (wi_metrics w1)"
    using append_no_room [OF rep1 w1_def] append_with_room [OF rep1 w1_def _ pl ok] by (cases r) auto
  then show thesis
    using that [OF drops [unfolded w1_def]] met1 unfolding appended_def by auto
qed

lemma append_batch_no_fault:
  assumes rep: "wal_rep crc32 w fss k" and "io_mkdir env" "io_create env" "io_seg_header env = None"
    "io_frame_header env = None" "io_payload env = None"
  shows "fst (append_batch crc32 env pl w) = Inr ()"
proof -
  let ?n = "frame_len_on_disk (length pl)"
  let ?w1 = "enforce_cap env ?n w"
  obtain d k' where "cap_drops crc32 w ?w1 fss k d k'"
    using enforce_cap_drops [OF rep] by blast
  then have rep1: "wal_rep crc32 ?w1 (drop d fss) k'" by (simp add: cap_drops_def)
  have "fst (ensure_active_with_room env ?n ?w1) = Inr ()"
    using assms by (simp add: ensure_active_with_room_def rotate_segment_def Let_def)
  then obtain w2 where en: "ensure_active_with_room env ?n ?w1 = (Inr (), w2)"
    by (cases "ensure_active_with_room env ?n ?w1") simp
  obtain gss fs a where act: "wi_active w2 = Some a"
    by (rule ensure_active_success [OF rep1 en])
  show ?thesis
    using assms by (simp add: append_batch_open en act append_open_def write_active_def Let_def)
qed


lemma append_one_fields:
  "wi_pending_advance (append_one crc32 env pl w)
     = wi_pending_advance (enforce_cap env (frame_len_on_disk (length pl)) w)"
  "wi_cfg (append_one crc32 env pl w) = wi_cfg w"
  by (auto simp: append_one_def append_batch_def write_active_def ensure_active_with_room_def
      rotate_segment_def recover_active_after_error_def Let_def split: option.splits)

lemma enforce_cap_fits:
  "wi_total_bytes w + n \<le> wc_max_bytes (wi_cfg w) \<Longrightarrow> enforce_cap env n w = refresh_gauges w"
  by (subst enforce_cap.simps) simp

section \<open>The drainer's side\<close>

lemma resync_rep:
  assumes rep: "wal_rep crc32 w fss k" and ne: "wi_segments w \<noteq> []"
  shows "wal_rep crc32 (resync_cursor w) fss k"
    and "wi_read_seq (resync_cursor w) = sm_seq (hd (wi_segments w))"
    and "k \<le> length (hd fss)"
    and "wi_read_offset (resync_cursor w) = length (seg_image crc32 (take k (hd fss)))"
    and "wi_disk (resync_cursor w) = wi_disk w" and "wi_cfg (resync_cursor w) = wi_cfg w"
proof -
  obtain m ms where segs: "wi_segments w = m # ms" using ne by (cases "wi_segments w") auto
  have cur: "wi_read_seq w = sm_seq m \<and> k \<le> length (hd fss)
         \<and> wi_read_offset w = length (seg_image crc32 (take k (hd fss)))
       \<or> wi_read_seq w < sm_seq m \<and> k = 0 \<and> wi_pending_advance w = None"
    and srt: "\<forall>s \<in> set ms. sm_seq m < sm_seq s"
    using rep segs by (auto simp: wal_rep_def cursor_rep_def segs_rep_def)
  show "wi_read_seq (resync_cursor w) = sm_seq (hd (wi_segments w))" "k \<le> length (hd fss)"
      "wi_read_offset (resync_cursor w) = length (seg_image crc32 (take k (hd fss)))"
      "wi_disk (resync_cursor w) = wi_disk w" "wi_cfg (resync_cursor w) = wi_cfg w"
    using cur srt segs by (auto simp: resync_cursor_def SEGMENT_HEADER_LEN_def)
  show "wal_rep crc32 (resync_cursor w) fss k"
    using rep cur srt segs
    by (auto simp: resync_cursor_def wal_rep_def segs_rep_def active_rep_def cursor_rep_def SEGMENT_HEADER_LEN_def)
qed

lemma wal_rep_pending:
  assumes rep: "wal_rep crc32 w (fs # fss) k" and cur: "wi_read_seq w = sm_seq (hd (wi_segments w))"
    and k: "k < length fs"
  shows "wal_rep crc32 (w\<lparr>wi_pending_advance := Some (length (seg_image crc32 (take (Suc k) fs)))\<rparr>) (fs # fss) k"
  using assms by (auto simp: wal_rep_def segs_rep_def active_rep_def cursor_rep_def)

lemma gc_front_rep:
  assumes rep: "wal_rep crc32 w (fs # fss) (length fs)" and cur: "wi_read_seq w = sm_seq (hd (wi_segments w))"
    and act: "\<not> reading_active w"
  shows "wal_rep crc32 (gc_front_consumed env w) fss 0"
proof -
  obtain m ms where segs: "wi_segments w = m # ms"
    using wal_rep_lengths [OF rep] by (cases "wi_segments w") auto
  let ?w = "gc_front_consumed env w"
  let ?dir = "wc_dir (wi_cfg w)"
  have all: "list_all2 (seg_ok crc32 ?dir (wi_disk w)) ms fss" and m: "seg_ok crc32 ?dir (wi_disk w) m fs"
    and lt: "\<And>s. s \<in> set ms \<Longrightarrow> sm_seq m < sm_seq s"
    and nx: "\<And>s. s \<in> set (m # ms) \<Longrightarrow> sm_seq s < wi_next_seq w"
    using rep segs by (auto simp: wal_rep_def segs_rep_def)
  have w: "wi_segments ?w = ms" "wi_cfg ?w = wi_cfg w" "wi_active ?w = wi_active w"
      "wi_next_seq ?w = wi_next_seq w" "wi_pending_advance ?w = None"
      "wi_total_bytes ?w = wi_total_bytes w - sm_bytes m"
      "wi_disk ?w = (if io_remove env (sm_seq m) then remove_file (sm_path m) (wi_disk w) else wi_disk w)"
      "wi_read_seq ?w = (if ms = [] then wi_read_seq w else sm_seq (hd ms))"
      "ms \<noteq> [] \<Longrightarrow> wi_read_offset ?w = SEGMENT_HEADER_LEN"
    using cur segs by (auto simp: gc_front_consumed_def Let_def extract_Cons_code split: list.splits)
  have "list_all2 (seg_ok crc32 ?dir (wi_disk ?w)) ms fss"
  proof (rule segs_ok_disk [OF all])
    fix s assume "s \<in> set ms"
    then show "file_content (wi_disk ?w) (segment_path ?dir (sm_seq s))
        = file_content (wi_disk w) (segment_path ?dir (sm_seq s))"
      using lt [of s] seg_ok_path [OF m] by (auto simp: w)
  qed
  then have "segs_rep crc32 ?w fss"
    using rep segs by (auto simp: wal_rep_def segs_rep_def w)
  moreover have "active_rep ?w"
    using rep segs act cur
    by (cases "wi_active w") (auto simp: wal_rep_def active_rep_def reading_active_def w)
  moreover have "cursor_rep crc32 ?w fss 0"
    using nx [of m] cur segs by (auto simp: cursor_rep_def w SEGMENT_HEADER_LEN_def)
  ultimately show ?thesis by (simp add: wal_rep_def)
qed

text \<open>What one look at the head of the log can answer.\<close>

definition peek_answers ::
  "(bytes \<Rightarrow> u32) \<Rightarrow> io_env \<Rightarrow> (wal_error + DecodedFrame option) \<times> WalInner \<Rightarrow> DecodedFrame list \<Rightarrow> bool" where
  "peek_answers crc32 env rw q \<longleftrightarrow>
     (\<exists>fss k. wal_rep crc32 (snd rw) fss k \<and> backlog fss k = q
        \<and> (case fst rw of
             Inl e \<Rightarrow> (\<exists>io. e = WalIo io) \<and> (\<exists>s off. \<not> reads_ok (io_reads env s off))
           | Inr None \<Rightarrow> q = []
           | Inr (Some f) \<Rightarrow> q \<noteq> [] \<and> f = hd q \<and> wi_pending_advance (snd rw) \<noteq> None))"

lemma read_front_frame:
  assumes "k < length fs" and "\<forall>f \<in> set fs. payload_ok (df_payload f)"
  shows "decode_frame crc32 (seg_image crc32 fs) (length (seg_image crc32 (take k fs)))
       = Frame (fs ! k) (length (seg_image crc32 (take (Suc k) fs)))"
  using assms
  by (subst seg_image_split [OF assms(1)])
     (simp add: decode_frame_encoded take_Suc_conv_app_nth seg_image_snoc)

lemma read_front_end:
  "decode_frame crc32 (seg_image crc32 fs) (length (seg_image crc32 fs)) = End"
  by (simp add: decode_frame_short)

lemma backlog_step: "k < length fs \<Longrightarrow> backlog (fs # fss) k = fs ! k # backlog (fs # fss) (Suc k)"
  by (simp add: backlog_def Cons_nth_drop_Suc [symmetric])

lemma read_error_case:
  "read_frame_at crc32 ks c off = Inl e \<Longrightarrow> \<not> reads_ok ks"
  by (auto simp: read_frame_at_decode)

lemma peek_next_front:
  assumes rep: "wal_rep crc32 w (fs # fss) k" and w1: "w1 = resync_cursor w"
  shows "peek_next crc32 env w =
     (case read_frame_at crc32 (io_reads env (wi_read_seq w1) (wi_read_offset w1)) (seg_image crc32 fs)
             (length (seg_image crc32 (take k fs))) of
        Inl e \<Rightarrow> (Inl (WalIo e), w1)
      | Inr (Frame f nxt) \<Rightarrow> (Inr (Some f), w1\<lparr>wi_pending_advance := Some nxt\<rparr>)
      | Inr _ \<Rightarrow>
          if reading_active w1 then (Inr None, w1)
          else peek_next crc32 env (gc_front_consumed env w1))"
proof -
  obtain m ms where segs: "wi_segments w = m # ms"
    using wal_rep_lengths [OF rep] by (cases "wi_segments w") auto
  then have ne: "wi_segments w \<noteq> []" by simp
  note r = resync_rep [OF rep ne, folded w1]
  have m: "file_content (wi_disk w1) (sm_path m) = Some (seg_image crc32 fs)"
    using rep segs r(5) by (auto simp: wal_rep_def segs_rep_def seg_ok_def)
  have "wi_segments w1 = m # ms" "wi_read_seq w1 = sm_seq m"
      "wi_read_offset w1 = length (seg_image crc32 (take k fs))"
    using r segs w1 by simp_all
  with m ne show ?thesis
    by (subst peek_next.simps) (simp add: Let_def w1 [symmetric])
qed

text \<open>If the cursor is on the active segment, there is no other.\<close>

lemma reading_active_single:
  assumes rep: "wal_rep crc32 w fss k" and "wi_segments w \<noteq> []" and "reading_active w"
    and "wi_read_seq w = sm_seq (hd (wi_segments w))"
  shows "length fss = 1"
proof -
  obtain a where "wi_active w = Some a" "as_seq a = wi_read_seq w"
    using assms(3) by (auto simp: reading_active_def split: option.splits)
  then have "sm_seq (last (wi_segments w)) = sm_seq (hd (wi_segments w))"
    using assms by (auto simp: wal_rep_def active_rep_def)
  moreover have "distinct (map sm_seq (wi_segments w))"
    using rep by (simp add: wal_rep_def segs_rep_def strict_sorted_iff)
  ultimately have "length (wi_segments w) = 1"
    using assms(2) by (cases "wi_segments w") (simp_all split: if_splits, metis imageI last_in_set)
  then show ?thesis using wal_rep_lengths [OF rep] by simp
qed

text \<open>One pass of the loop over the front segment: an answer, or the next segment.\<close>

lemma peek_front_answers:
  assumes rep: "wal_rep crc32 w (fs # fss) k" and w1: "w1 = resync_cursor w"
    and next_seg: "\<lbrakk>k = length fs; \<not> reading_active w1; wal_rep crc32 (gc_front_consumed env w1) fss 0\<rbrakk>
      \<Longrightarrow> peek_answers crc32 env (peek_next crc32 env (gc_front_consumed env w1)) (backlog fss 0)"
  shows "peek_answers crc32 env (peek_next crc32 env w) (backlog (fs # fss) k)"
proof -
  have ne: "wi_segments w \<noteq> []" using wal_rep_lengths [OF rep] by auto
  note r = resync_rep [OF rep ne, folded w1]
  let ?rd = "read_frame_at crc32 (io_reads env (wi_read_seq w1) (wi_read_offset w1))
      (seg_image crc32 fs) (length (seg_image crc32 (take k fs)))"
  note pk = peek_next_front [OF rep w1]
  have pok: "\<forall>f \<in> set fs. payload_ok (df_payload f)"
    using rep by (cases "wi_segments w") (auto simp: wal_rep_def segs_rep_def seg_ok_def)
  have segs1: "wi_segments w1 = wi_segments w" by (simp add: w1)
  consider (error) e where "?rd = Inl e" | (frame) fr where "?rd = Inr fr" "k < length fs"
    | (rest) fr where "?rd = Inr fr" "k = length fs"
    using r(3) by (cases ?rd; cases "k < length fs") auto
  then show ?thesis
  proof cases
    case error
    then have "\<not> reads_ok (io_reads env (wi_read_seq w1) (wi_read_offset w1))" by (rule read_error_case)
    with error r(1) show ?thesis unfolding pk peek_answers_def by auto
  next
    case frame
    have rd: "?rd = Inr (Frame (fs ! k) (length (seg_image crc32 (take (Suc k) fs))))"
      using frame(1) read_frame_at_Inr [OF frame(1)] by (simp add: read_front_frame [OF frame(2) pok])
    have "wal_rep crc32 (w1\<lparr>wi_pending_advance := Some (length (seg_image crc32 (take (Suc k) fs)))\<rparr>) (fs # fss) k"
      using r(1,2) frame(2) segs1 by (intro wal_rep_pending) simp_all
    with rd show ?thesis
      unfolding pk peek_answers_def using backlog_step [OF frame(2), of fss] by auto
  next
    case rest
    have rd: "?rd = Inr End"
      using rest(1) read_frame_at_Inr [OF rest(1)] by (simp add: rest(2) read_front_end)
    show ?thesis
    proof (cases "reading_active w1")
      case True
      then have "fss = []" using reading_active_single [OF r(1)] r(2) ne segs1 by simp
      with rd True r(1) rest(2) show ?thesis
        unfolding pk peek_answers_def by (auto simp: backlog_def intro!: exI [of _ "[fs]"])
    next
      case False
      have "wal_rep crc32 (gc_front_consumed env w1) fss 0"
        using r(1,2) False segs1 rest(2) by (intro gc_front_rep) simp_all
      from next_seg [OF rest(2) False this] rd False rest(2) show ?thesis
        unfolding pk by (simp add: backlog_def)
    qed
  qed
qed

lemma peek_next_answers:
  "wal_rep crc32 w fss k \<Longrightarrow> peek_answers crc32 env (peek_next crc32 env w) (backlog fss k)"
proof (induction fss arbitrary: w k)
  case Nil
  then have "wi_segments w = []" using wal_rep_lengths [OF Nil] by auto
  with Nil show ?case
    by (subst peek_next.simps) (auto simp: peek_answers_def backlog_def intro!: exI)
next
  case (Cons fs fss)
  from Cons.prems refl Cons.IH show ?case by (rule peek_front_answers)
qed

lemma commit_pending_rep:
  assumes rep: "wal_rep crc32 w fss k" and pend: "wi_pending_advance w \<noteq> None"
  shows "wal_rep crc32 (commit_pending w) fss (Suc k)" and "k < length (concat fss)"
proof -
  obtain m ms where segs: "wi_segments w = m # ms"
    using assms by (cases "wi_segments w") (auto simp: wal_rep_def cursor_rep_def)
  then obtain fs fss' where fss: "fss = fs # fss'"
    using wal_rep_lengths [OF rep] by (cases fss) auto
  show "wal_rep crc32 (commit_pending w) fss (Suc k)" "k < length (concat fss)"
    using assms by (auto simp: commit_pending_def wal_rep_def segs_rep_def active_rep_def
        cursor_rep_def segs fss)
qed

lemma commit_pending_None: "wi_pending_advance w = None \<Longrightarrow> commit_pending w = w"
  by (simp add: commit_pending_def)


end
