(* ===== verification/Wal_Queue.thy ===== *)
theory Wal_Queue
  imports Wal_Refine
begin

text \<open>
  What the write-ahead log promises to its clients, as the interface \<open>spill_queue\<close>: a FIFO
  queue whose producer may lose elements only at the old end (the disk cap) or the element it
  is writing (an I/O error), both counted, and whose consumer looks at the head and later
  removes it, with producers running in between.  \<open>WalInner\<close> with \<open>append_one\<close>, \<open>peek_next\<close>
  and \<open>commit_pending\<close> is shown to be such a queue.
\<close>

section \<open>The interface\<close>

locale spill_queue =
  fixes holds :: "'w \<Rightarrow> 'f list \<Rightarrow> bool"
    and put :: "'p \<Rightarrow> 'w \<Rightarrow> 'w"
    and peek :: "'i \<Rightarrow> 'w \<Rightarrow> ('e + 'f option) \<times> 'w"
    and commit :: "'w \<Rightarrow> 'w"
    and peeked :: "'w \<Rightarrow> bool"
    and meter :: "'w \<Rightarrow> nat"
    and accepts :: "'p \<Rightarrow> bool"
    and carries :: "'p \<Rightarrow> 'f \<Rightarrow> bool"
  assumes put_law: "\<And>w q p. holds w q \<Longrightarrow> accepts p \<Longrightarrow>
      \<exists>n. n \<le> length q \<and> (peeked (put p w) \<longrightarrow> n = 0 \<and> peeked w)
        \<and> ((\<exists>f. carries p f \<and> holds (put p w) (drop n q @ [f])) \<and> meter w + n \<le> meter (put p w)
           \<or> holds (put p w) (drop n q) \<and> meter w + n + 1 \<le> meter (put p w))"
    and peek_law: "\<And>w q i. holds w q \<Longrightarrow> holds (snd (peek i w)) q \<and> meter (snd (peek i w)) = meter w
        \<and> (\<forall>f. fst (peek i w) = Inr (Some f) \<longrightarrow> q \<noteq> [] \<and> f = hd q \<and> peeked (snd (peek i w)))
        \<and> (fst (peek i w) = Inr None \<longrightarrow> q = [])"
    and commit_law: "\<And>w q. holds w q \<Longrightarrow> peeked w \<Longrightarrow>
        q \<noteq> [] \<and> holds (commit w) (tl q) \<and> \<not> peeked (commit w) \<and> meter (commit w) = meter w"
    and commit_idle: "\<And>w. \<not> peeked w \<Longrightarrow> commit w = w"
begin

text \<open>
  A look at the head stays valid while producers run: as long as the mark survives, the head
  is still the frame that was looked at.
\<close>

lemma puts_keep_peeked:
  assumes "holds w (f # q)" and "\<forall>p \<in> set ps. accepts p"
  shows "\<exists>q'. holds (fold put ps w) q' \<and> (peeked (fold put ps w) \<longrightarrow> q' \<noteq> [] \<and> hd q' = f \<and> peeked w)"
  using assms
proof (induction ps rule: rev_induct)
  case Nil
  then show ?case by auto
next
  case (snoc p ps)
  then obtain q1 where q1: "holds (fold put ps w) q1"
      "peeked (fold put ps w) \<longrightarrow> q1 \<noteq> [] \<and> hd q1 = f \<and> peeked w"
    by auto
  obtain n where n: "peeked (put p (fold put ps w)) \<longrightarrow> n = 0 \<and> peeked (fold put ps w)"
      "(\<exists>g. holds (put p (fold put ps w)) (drop n q1 @ [g])) \<or> holds (put p (fold put ps w)) (drop n q1)"
    using put_law [OF q1(1), of p] snoc.prems by auto
  with q1(2) show ?case by auto
qed

text \<open>
  The consumer's cycle with producers running between its two halves: the frame it removes is
  the frame it was shown, or it removes nothing.
\<close>

lemma peek_puts_commit:
  assumes "holds w q" and "peek i w = (Inr (Some f), w1)" and "\<forall>p \<in> set ps. accepts p"
  shows "\<exists>q'. holds (fold put ps w1) q'
     \<and> (commit (fold put ps w1) = fold put ps w1
        \<or> q' \<noteq> [] \<and> hd q' = f \<and> holds (commit (fold put ps w1)) (tl q'))"
proof -
  from peek_law [OF assms(1), of i] assms(2) obtain q0 where "q = f # q0" "holds w1 q"
    by (cases q) auto
  then obtain q' where q': "holds (fold put ps w1) q'"
      "peeked (fold put ps w1) \<longrightarrow> q' \<noteq> [] \<and> hd q' = f"
    using puts_keep_peeked [OF _ assms(3), of w1 f q0] by auto
  show ?thesis
  proof (cases "peeked (fold put ps w1)")
    case True
    then show ?thesis using commit_law [OF q'(1) True] q' by auto
  next
    case False
    then show ?thesis using commit_idle q' by auto
  qed
qed

text \<open>Producers lose nothing that is not counted.\<close>

lemma puts_metered:
  assumes "holds w q" and "\<forall>p \<in> set ps. accepts p"
  shows "\<exists>q'. holds (fold put ps w) q' \<and> length q + length ps \<le> length q' + (meter (fold put ps w) - meter w)
     \<and> meter w \<le> meter (fold put ps w)"
  using assms
proof (induction ps rule: rev_induct)
  case (snoc p ps)
  then obtain q1 where q1: "holds (fold put ps w) q1"
      "length q + length ps \<le> length q1 + (meter (fold put ps w) - meter w)" "meter w \<le> meter (fold put ps w)"
    by auto
  obtain n where n: "n \<le> length q1"
      "(\<exists>g. holds (put p (fold put ps w)) (drop n q1 @ [g])) \<and> meter (fold put ps w) + n \<le> meter (put p (fold put ps w))
       \<or> holds (put p (fold put ps w)) (drop n q1) \<and> meter (fold put ps w) + n + 1 \<le> meter (put p (fold put ps w))"
    using put_law [OF q1(1), of p] snoc.prems by auto
  then show ?case
  proof (elim disjE conjE exE)
    fix g assume "holds (put p (fold put ps w)) (drop n q1 @ [g])"
      and "meter (fold put ps w) + n \<le> meter (put p (fold put ps w))"
    with q1 n(1) show ?thesis by (intro exI [of _ "drop n q1 @ [g]"]) simp
  next
    assume "holds (put p (fold put ps w)) (drop n q1)"
      and "meter (fold put ps w) + n + 1 \<le> meter (put p (fold put ps w))"
    with q1 n(1) show ?thesis by (intro exI [of _ "drop n q1"]) simp
  qed
qed auto

end

section \<open>The write-ahead log provides it\<close>

definition wal_holds :: "(bytes \<Rightarrow> u32) \<Rightarrow> WalInner \<Rightarrow> DecodedFrame list \<Rightarrow> bool" where
  "wal_holds crc32 w q \<longleftrightarrow> (\<exists>fss k. wal_rep crc32 w fss k \<and> backlog fss k = q)"

text \<open>Frames the log dropped at its cap, and appends that failed.\<close>

definition wal_lost :: "WalInner \<Rightarrow> nat" where
  "wal_lost w = m_dropped_batches (wi_metrics w) + m_write_errors (wi_metrics w)"

text \<open>The environments in which the repair of a failed append itself succeeds.\<close>

definition append_accepts :: "io_env \<times> bytes \<Rightarrow> bool" where
  "append_accepts p \<longleftrightarrow> payload_ok (snd p) \<and> io_set_len (fst p) \<and> io_seek (fst p)"

lemma enforce_cap_write_errors [simp]:
  "m_write_errors (wi_metrics (enforce_cap env n w)) = m_write_errors (wi_metrics w)"
  by (induction env n w rule: enforce_cap.induct; subst enforce_cap.simps)
     (simp add: refresh_gauges_def drop_victim_def Let_def split: list.splits)

lemma append_one_write_errors:
  "m_write_errors (wi_metrics (append_one crc32 env pl w)) = m_write_errors (wi_metrics w)
     + (case fst (append_batch crc32 env pl w) of Inl _ \<Rightarrow> 1 | Inr _ \<Rightarrow> 0)"
  by (auto simp: append_one_def append_batch_def write_active_def ensure_active_with_room_def
      rotate_segment_def recover_active_after_error_def refresh_gauges_def Let_def split: option.splits)

lemma backlog_drop:
  assumes "d = 0 \<and> k' = k \<or> 0 < d \<and> d < length fss \<and> k' = 0" and "k \<le> length (hd fss) \<or> d = 0"
  shows "\<exists>n \<le> length (backlog fss k). drop k' (concat (drop d fss)) = drop n (backlog fss k)
      \<and> n \<le> length (concat (take d fss)) \<and> (d = 0 \<longrightarrow> n = 0)"
proof (cases "d = 0")
  case False
  let ?c = "length (concat (take d fss))"
  obtain fs fss' where "fss = fs # fss'" using False assms(1) by (cases fss) auto
  with False assms have k: "k \<le> ?c" by (cases d) auto
  have con: "concat fss = concat (take d fss) @ concat (drop d fss)"
    by (metis append_take_drop_id concat_append)
  have "drop (?c - k) (backlog fss k) = concat (drop d fss)"
    using k by (simp add: backlog_def con)
  moreover have "?c - k \<le> length (backlog fss k)"
    by (simp add: backlog_def con)
  ultimately show ?thesis using False assms(1) by (intro exI [of _ "?c - k"]) auto
qed (use assms in \<open>auto simp: backlog_def\<close>)

lemma wal_rep_k_hd: "wal_rep crc32 w fss k \<Longrightarrow> k \<le> length (hd fss) \<or> fss = []"
  by (cases fss) (auto simp: wal_rep_def cursor_rep_def segs_rep_def split: if_splits)


text \<open>If the frame fits, nothing is dropped for it.\<close>

lemma cap_drops_fits:
  assumes rep: "wal_rep crc32 w fss k" and drops: "cap_drops crc32 w (enforce_cap env n w) fss k d k'"
    and "wi_total_bytes w + n \<le> wc_max_bytes (wi_cfg w)"
  shows "d = 0"
proof -
  have dk: "d = 0 \<and> k' = k \<or> 0 < d \<and> d < length fss \<and> k' = 0" using drops by (simp add: cap_drops_def)
  have "drop d (wi_segments w) = wi_segments w"
    using drops assms(3) by (simp add: cap_drops_def enforce_cap_fits)
  from arg_cong [OF this, of length] have "length (wi_segments w) - d = length (wi_segments w)" by simp
  then have "d = 0 \<or> length (wi_segments w) = 0" by arith
  then show ?thesis using dk wal_rep_lengths [OF rep] by auto
qed

lemma append_one_holds:
  assumes h: "wal_holds crc32 w q" and ok: "append_accepts (env, pl)"
    and w': "w' = append_one crc32 env pl w" and r: "r = fst (append_batch crc32 env pl w)"
  shows "\<exists>n \<le> length q.
     (wi_pending_advance w' \<noteq> None \<longrightarrow> n = 0 \<and> wi_pending_advance w \<noteq> None)
     \<and> (wi_total_bytes w + frame_len_on_disk (length pl) \<le> wc_max_bytes (wi_cfg w) \<longrightarrow> n = 0)
     \<and> (r = Inr () \<and> wal_lost w + n \<le> wal_lost w'
          \<and> wal_holds crc32 w' (drop n q @ [\<lparr>df_batch_seq = wi_next_batch_seq w, df_payload = pl\<rparr>])
        \<or> (\<exists>e. r = Inl (WalIo e)) \<and> wal_lost w + n + 1 \<le> wal_lost w' \<and> wal_holds crc32 w' (drop n q))"
proof -
  let ?f = "\<lparr>df_batch_seq = wi_next_batch_seq w, df_payload = pl\<rparr>"
  let ?n = "frame_len_on_disk (length pl)"
  from h obtain fss k where rep: "wal_rep crc32 w fss k" and q: "q = backlog fss k"
    by (auto simp: wal_holds_def)
  from ok have pl: "payload_ok pl" "io_set_len env" "io_seek env" by (simp_all add: append_accepts_def)
  obtain d k' fss' where drops: "cap_drops crc32 w (enforce_cap env ?n w) fss k d k'"
    and rep': "wal_rep crc32 w' fss' k'"
    and met: "m_dropped_batches (wi_metrics w') = m_dropped_batches (wi_metrics w) + length (concat (take d fss))"
    and res: "r = Inr () \<and> concat fss' = concat (drop d fss) @ [?f]
         \<or> (\<exists>e. r = Inl (WalIo e)) \<and> concat fss' = concat (drop d fss)"
    by (rule append_one_rep [OF rep pl, folded w' r]) blast
  have dk: "d = 0 \<and> k' = k \<or> 0 < d \<and> d < length fss \<and> k' = 0" and
    rep1: "wal_rep crc32 (enforce_cap env ?n w) (drop d fss) k'"
    using drops by (simp_all add: cap_drops_def)
  have "k \<le> length (hd fss) \<or> d = 0" using wal_rep_k_hd [OF rep] dk by auto
  from backlog_drop [OF dk this] obtain n where n: "n \<le> length q"
      "drop k' (concat (drop d fss)) = drop n q" "n \<le> length (concat (take d fss))" "d = 0 \<longrightarrow> n = 0"
    by (auto simp: q)
  have k': "k' \<le> length (concat (drop d fss))" by (rule wal_rep_k [OF rep1])
  have pend: "wi_pending_advance w' \<noteq> None \<longrightarrow> n = 0 \<and> wi_pending_advance w \<noteq> None"
    using drops n(4) by (auto simp: w' append_one_fields cap_drops_def)
  have fits: "wi_total_bytes w + ?n \<le> wc_max_bytes (wi_cfg w) \<longrightarrow> n = 0"
    using cap_drops_fits [OF rep drops] n(4) by blast
  have lost: "wal_lost w' = wal_lost w + length (concat (take d fss)) + (case r of Inl _ \<Rightarrow> 1 | Inr _ \<Rightarrow> 0)"
    using met by (simp add: wal_lost_def append_one_write_errors w' r)
  have "r = Inr () \<and> wal_lost w + n \<le> wal_lost w' \<and> wal_holds crc32 w' (drop n q @ [?f])
        \<or> (\<exists>e. r = Inl (WalIo e)) \<and> wal_lost w + n + 1 \<le> wal_lost w' \<and> wal_holds crc32 w' (drop n q)"
    using res
  proof (elim disjE conjE exE)
    assume "r = Inr ()" and con: "concat fss' = concat (drop d fss) @ [?f]"
    moreover have "backlog fss' k' = drop n q @ [?f]" using k' n(2) by (simp add: backlog_def con)
    ultimately show ?thesis using rep' lost n(3) by (auto simp: wal_holds_def)
  next
    fix e assume "r = Inl (WalIo e)" and con: "concat fss' = concat (drop d fss)"
    moreover have "backlog fss' k' = drop n q" using n(2) by (simp add: backlog_def con)
    ultimately show ?thesis using rep' lost n(3) by (auto simp: wal_holds_def)
  qed
  with n(1) pend fits show ?thesis by blast
qed

lemma gc_front_meter [simp]:
  "m_dropped_batches (wi_metrics (gc_front_consumed env w)) = m_dropped_batches (wi_metrics w)"
  "m_write_errors (wi_metrics (gc_front_consumed env w)) = m_write_errors (wi_metrics w)"
  by (auto simp: gc_front_consumed_def refresh_gauges_def Let_def split: option.splits list.splits)

lemma resync_metrics [simp]: "wi_metrics (resync_cursor w) = wi_metrics w"
  by (auto simp: resync_cursor_def split: list.splits)

lemma peek_next_lost: "wal_lost (snd (peek_next crc32 env w)) = wal_lost w"
proof (induction crc32 env w rule: peek_next.induct)
  case (1 crc32 env w)
  then show ?case
    by (subst peek_next.simps)
       (auto simp: wal_lost_def Let_def split: option.splits sum.splits FrameRead.splits)
qed

lemma peek_next_holds:
  assumes "wal_holds crc32 w q"
  shows "wal_holds crc32 (snd (peek_next crc32 env w)) q"
    and "fst (peek_next crc32 env w) = Inr (Some f) \<Longrightarrow>
           q \<noteq> [] \<and> f = hd q \<and> wi_pending_advance (snd (peek_next crc32 env w)) \<noteq> None"
    and "fst (peek_next crc32 env w) = Inr None \<Longrightarrow> q = []"
    and "fst (peek_next crc32 env w) = Inl e \<Longrightarrow> (\<exists>io. e = WalIo io) \<and> (\<exists>s off. \<not> reads_ok (io_reads env s off))"
proof -
  from assms obtain fss k where "wal_rep crc32 w fss k" "q = backlog fss k"
    by (auto simp: wal_holds_def)
  then have "peek_answers crc32 env (peek_next crc32 env w) q"
    using peek_next_answers by simp
  then show "wal_holds crc32 (snd (peek_next crc32 env w)) q"
    "fst (peek_next crc32 env w) = Inr (Some f) \<Longrightarrow>
           q \<noteq> [] \<and> f = hd q \<and> wi_pending_advance (snd (peek_next crc32 env w)) \<noteq> None"
    "fst (peek_next crc32 env w) = Inr None \<Longrightarrow> q = []"
    "fst (peek_next crc32 env w) = Inl e \<Longrightarrow> (\<exists>io. e = WalIo io) \<and> (\<exists>s off. \<not> reads_ok (io_reads env s off))"
    unfolding peek_answers_def wal_holds_def by auto
qed

lemma peek_next_ok:
  assumes "wal_holds crc32 w q" and "\<forall>s off. reads_ok (io_reads env s off)"
  shows "fst (peek_next crc32 env w) = Inr (case q of [] \<Rightarrow> None | f # _ \<Rightarrow> Some f)
     \<and> wal_holds crc32 (snd (peek_next crc32 env w)) q"
proof (cases "fst (peek_next crc32 env w)")
  case (Inl e)
  then show ?thesis using peek_next_holds(4) [OF assms(1), of env e] assms(2) by auto
next
  case (Inr r)
  then show ?thesis
    using peek_next_holds(1-3) [OF assms(1), of env]
    by (cases r) (auto split: list.splits)
qed

lemma commit_pending_holds:
  assumes "wal_holds crc32 w q" and "wi_pending_advance w \<noteq> None"
  shows "q \<noteq> []" and "wal_holds crc32 (commit_pending w) (tl q)"
    and "wi_pending_advance (commit_pending w) = None" and "wal_lost (commit_pending w) = wal_lost w"
proof -
  from assms(1) obtain fss k where rep: "wal_rep crc32 w fss k" and q: "q = backlog fss k"
    by (auto simp: wal_holds_def)
  note c = commit_pending_rep [OF rep assms(2)]
  have "tl q = backlog fss (Suc k)" by (simp add: q backlog_def drop_Suc tl_drop)
  with c(1) show "wal_holds crc32 (commit_pending w) (tl q)" by (auto simp: wal_holds_def)
  show "q \<noteq> []" using c(2) by (simp add: q backlog_def)
  show "wi_pending_advance (commit_pending w) = None" "wal_lost (commit_pending w) = wal_lost w"
    using assms(2) by (auto simp: commit_pending_def wal_lost_def)
qed

interpretation wal: spill_queue "wal_holds crc32" "\<lambda>p. append_one crc32 (fst p) (snd p)"
  "peek_next crc32" commit_pending "\<lambda>w. wi_pending_advance w \<noteq> None" wal_lost append_accepts
  "\<lambda>p f. df_payload f = snd p"
  for crc32
proof (unfold_locales, goal_cases)
  case (1 w q p)
  let ?w' = "append_one crc32 (fst p) (snd p) w"
  let ?f = "\<lparr>df_batch_seq = wi_next_batch_seq w, df_payload = snd p\<rparr>"
  obtain n where "n \<le> length q" "wi_pending_advance ?w' \<noteq> None \<longrightarrow> n = 0 \<and> wi_pending_advance w \<noteq> None"
      "wal_lost w + n \<le> wal_lost ?w' \<and> wal_holds crc32 ?w' (drop n q @ [?f])
       \<or> wal_lost w + n + 1 \<le> wal_lost ?w' \<and> wal_holds crc32 ?w' (drop n q)"
    using append_one_holds [of crc32 w q "fst p" "snd p", OF _ _ refl refl] 1 by auto
  then show ?case
    by (intro exI [of _ n]) (auto intro: exI [of _ ?f])
next
  case (2 w q i)
  then show ?case using peek_next_holds [OF 2] by (simp add: peek_next_lost)
next
  case (3 w q)
  then show ?case using commit_pending_holds [OF 3(1)] by simp
next
  case (4 w)
  then show ?case by (simp add: commit_pending_None)
qed

section \<open>A sample log\<close>

text \<open>A log with room for a handful of short frames, for the examples below.\<close>

definition sample_cfg :: WalConfig where
  "sample_cfg = \<lparr>wc_enabled = True, wc_dir = [''wal''], wc_max_bytes = 120, wc_segment_bytes = 60,
     wc_fsync_frames = 1, wc_fsync_interval_ms = 200\<rparr>"

definition sample_log :: WalInner where
  "sample_log = empty_inner sample_cfg \<lparr>d_dirs = [], d_files = []\<rparr> no_metrics"

lemma wal_holds_empty: "wal_holds crc32 (empty_inner cfg d m) []"
  unfolding wal_holds_def
  by (intro exI [of _ "[]"] exI [of _ 0] conjI wal_rep_empty) (simp add: backlog_def)

lemma sample_log_holds: "wal_holds crc32 sample_log []"
  by (simp add: sample_log_def wal_holds_empty)

definition sample_log1 :: WalInner where
  "sample_log1 = append_one (\<lambda>_. 7) io_ok [1, 2] sample_log"

lemma sample_log1_holds:
  "wal_holds (\<lambda>_. 7) sample_log1 [\<lparr>df_batch_seq = 0, df_payload = [1, 2]\<rparr>]"
proof -
  have a: "append_accepts (io_ok, [1, 2])"
    by (simp add: append_accepts_def payload_ok_def io_ok_def)
  have 1: "fst (append_batch (\<lambda>_. 7) io_ok [1, 2] sample_log) = Inr ()" "wi_next_batch_seq sample_log = 0"
    by code_simp+
  then show ?thesis
    using append_one_holds [OF sample_log_holds a refl refl, of "\<lambda>_. 7"] by (simp add: sample_log1_def)
qed

section \<open>Properties of the store\<close>

text \<open>
  C3: Spilling a batch.  For a log holding the unreplayed frames \<open>q\<close> and a payload the reader
  accepts, one append by the writer thread, whatever combination of failures hits its writes,
  returns Ok if no write fails and
  leaves a log that holds either \<open>q\<close> with the new frame at the tail (the append returned Ok) or
  \<open>q\<close> alone (it returned an I/O error and the torn bytes were cut off), in both cases less some
  of the oldest frames; none is dropped if the frame fits under the configured cap, and every
  loss is counted in the dropped-batches or write-errors metric.
\<close>

theorem append_is_bounded_enqueue:
  assumes "wal_holds crc32 w q" and "payload_ok pl" and "io_set_len env" and "io_seek env"
  shows "\<exists>n \<le> length q.
     (wi_total_bytes w + frame_len_on_disk (length pl) \<le> wc_max_bytes (wi_cfg w) \<longrightarrow> n = 0)
     \<and> (io_mkdir env \<and> io_create env \<and> io_seg_header env = None \<and> io_frame_header env = None
          \<and> io_payload env = None \<longrightarrow> fst (append_batch crc32 env pl w) = Inr ())
     \<and> (fst (append_batch crc32 env pl w) = Inr ()
          \<and> wal_lost w + n \<le> wal_lost (append_one crc32 env pl w)
          \<and> wal_holds crc32 (append_one crc32 env pl w)
                (drop n q @ [\<lparr>df_batch_seq = wi_next_batch_seq w, df_payload = pl\<rparr>])
        \<or> (\<exists>e. fst (append_batch crc32 env pl w) = Inl (WalIo e))
          \<and> wal_lost w + n + 1 \<le> wal_lost (append_one crc32 env pl w)
          \<and> wal_holds crc32 (append_one crc32 env pl w) (drop n q))"
proof -
  have "io_mkdir env \<Longrightarrow> io_create env \<Longrightarrow> io_seg_header env = None \<Longrightarrow> io_frame_header env = None
      \<Longrightarrow> io_payload env = None \<Longrightarrow> fst (append_batch crc32 env pl w) = Inr ()"
    using assms(1) append_batch_no_fault unfolding wal_holds_def by blast
  then show ?thesis
    using append_one_holds [OF assms(1) _ refl refl, of env pl] assms(2-4)
    by (auto simp: append_accepts_def)
qed

theorem append_is_bounded_enqueue_witness:
  "wal_holds (\<lambda>_. 7) (append_one (\<lambda>_. 7) (io_ok\<lparr>io_payload := Some 1\<rparr>) [8, 9] sample_log) []"
proof -
  let ?env = "io_ok\<lparr>io_payload := Some 1\<rparr>"
  have e: "payload_ok [8, 9]" "io_set_len ?env" "io_seek ?env"
    by (simp_all add: payload_ok_def io_ok_def)
  have "fst (append_batch (\<lambda>_. 7) ?env [8, 9] sample_log) = Inl (WalIo StorageFull)"
    by code_simp
  with append_is_bounded_enqueue [OF sample_log_holds e, of "\<lambda>_. 7"] show ?thesis by auto
qed

text \<open>
  C4: Replaying a batch with the writer running.  When the drainer is shown a frame, that frame
  is the oldest unreplayed one; whatever the writer thread appends before the drainer commits,
  with or without dropping segments at the cap and with any write failures, the commit removes
  exactly that frame, or removes nothing because the cap already dropped it.
\<close>

theorem commit_removes_only_the_peeked_frame:
  assumes "wal_holds crc32 w q" and "peek_next crc32 env w = (Inr (Some f), w1)"
    and "\<forall>p \<in> set ps. append_accepts p"
    and "w2 = fold (\<lambda>p. append_one crc32 (fst p) (snd p)) ps w1"
  shows "f = hd q \<and> wal_holds crc32 w1 q
     \<and> (\<exists>q'. wal_holds crc32 w2 q'
           \<and> (commit_pending w2 = w2 \<or> q' \<noteq> [] \<and> hd q' = f \<and> wal_holds crc32 (commit_pending w2) (tl q')))"
  using wal.peek_puts_commit [OF assms(1-3)] peek_next_holds(1,2) [OF assms(1), of env] assms(2,4)
  by simp

theorem commit_removes_only_the_peeked_frame_witness:
  "\<exists>q'. wal_holds (\<lambda>_. 7) (append_one (\<lambda>_. 7) io_ok [3] (snd (peek_next (\<lambda>_. 7) io_ok sample_log1))) q'"
proof -
  have p: "peek_next (\<lambda>_. 7) io_ok sample_log1
      = (Inr (Some \<lparr>df_batch_seq = 0, df_payload = [1, 2]\<rparr>), snd (peek_next (\<lambda>_. 7) io_ok sample_log1))"
    using peek_next_ok [OF sample_log1_holds, of io_ok] by (simp add: io_ok_def prod_eq_iff)
  have a: "\<forall>p \<in> set [(io_ok, [3])]. append_accepts p"
    by (simp add: append_accepts_def payload_ok_def io_ok_def)
  from commit_removes_only_the_peeked_frame [OF sample_log1_holds p a refl] show ?thesis
    by (elim conjE exE) (simp only: fold_simps fst_conv snd_conv o_id id_apply, blast)
qed

text \<open>
  C6: The drainer's look at the log.  Without read errors it never fails: on a log holding \<open>q\<close> it
  returns the oldest frame, or None exactly if nothing is left, and collecting consumed
  segments on the way loses nothing.
\<close>

theorem peek_returns_oldest:
  assumes "wal_holds crc32 w q" and "\<forall>s off. reads_ok (io_reads env s off)"
  shows "fst (peek_next crc32 env w) = Inr (case q of [] \<Rightarrow> None | f # _ \<Rightarrow> Some f)
     \<and> wal_holds crc32 (snd (peek_next crc32 env w)) q"
  by (rule peek_next_ok [OF assms])

theorem peek_returns_oldest_witness:
  "fst (peek_next (\<lambda>_. 7) io_ok sample_log1) = Inr (Some \<lparr>df_batch_seq = 0, df_payload = [1, 2]\<rparr>)"
  using peek_returns_oldest [OF sample_log1_holds, of io_ok] by (simp add: io_ok_def)


end
