(* ===== verification/Wal_Recovery.thy ===== *)
theory Wal_Recovery
  imports Wal_Queue
begin

text \<open>
  Bootstrap recovery of the write-ahead log, \<^verbatim>\<open>recover\<close> of \<^verbatim>\<open>statix/src/wal/recovery.rs\<close>: the
  directory scan, the validation of each segment, the walk over its frames to the first torn
  or corrupt one, the truncation there, and the rebuilt store.  The rebuilt store satisfies
  the representation of \<open>Wal_Refine\<close> and holds every frame that was completely on disk.
\<close>

section \<open>The walk over the frames of one segment\<close>

lemma read_frame_at_advances:
  assumes "read_frame_at crc32 ks file off = Inr (Frame f nxt)"
  shows "off < nxt \<and> nxt \<le> length file"
proof -
  note s = decode_frame_sound [OF read_frame_at_Inr [OF assms, symmetric]]
  from s(3) obtain post where "file = take off file @ frame_bytes crc32 f @ post" "off \<le> length file"
    by blast
  then have "length file = off + length (frame_bytes crc32 f) + length post"
    by (metis append.assoc length_append length_take min.absorb2)
  then show ?thesis using s(2) by (simp add: length_frame_bytes frame_len_on_disk_def FRAME_HEADER_LEN_def)
qed

text \<open>
  The loop state is the offset, the frame count and the next batch sequence number; the answer
  also says whether the walk ended at a corrupt frame.
\<close>

function walk_frames ::
  "(bytes \<Rightarrow> u32) \<Rightarrow> (nat \<Rightarrow> kread list \<times> kread list) \<Rightarrow> bytes \<Rightarrow> nat \<Rightarrow> nat \<Rightarrow> u64
   \<Rightarrow> io_error + (nat \<times> nat \<times> u64 \<times> bool)" where
  "walk_frames crc32 rd file off frames nbs =
     (case read_frame_at crc32 (rd off) file off of
        Inl e \<Rightarrow> Inl e
      | Inr (Frame f nxt) \<Rightarrow> walk_frames crc32 rd file nxt (frames + 1) (max nbs (df_batch_seq f + 1))
      | Inr End \<Rightarrow> Inr (off, frames, nbs, False)
      | Inr Corrupt \<Rightarrow> Inr (off, frames, nbs, True))"
  by pat_completeness auto
termination
  by (relation "measure (\<lambda>(crc32, rd, file, off, frames, nbs). length file - off)")
     (auto dest: read_frame_at_advances)

declare walk_frames.simps [simp del]

section \<open>Recovery\<close>

text \<open>
  Outcomes of the system calls of one recovery: the directory listing, and per segment the
  open, the header read, the frame reads, the removal, the metadata query and the truncation.
\<close>

record recover_env =
  re_read_dir :: bool
  re_open :: "nat \<Rightarrow> bool"
  re_header :: "nat \<Rightarrow> bool"
  re_reads :: "nat \<Rightarrow> nat \<Rightarrow> kread list \<times> kread list"
  re_remove :: "nat \<Rightarrow> bool"
  re_metadata :: "nat \<Rightarrow> bool"
  re_set_len :: "nat \<Rightarrow> bool"
  re_open_active :: bool

definition recover_env_ok :: recover_env where
  "recover_env_ok = \<lparr>re_read_dir = True, re_open = (\<lambda>_. True), re_header = (\<lambda>_. True),
     re_reads = (\<lambda>_ _. ([], [])), re_remove = (\<lambda>_. True), re_metadata = (\<lambda>_. True),
     re_set_len = (\<lambda>_. True), re_open_active = True\<rparr>"

record recover_state =
  rs_segments :: "SegmentMeta list"
  rs_total_bytes :: nat
  rs_next_batch_seq :: u64
  rs_max_seq :: nat
  rs_disk :: disk
  rs_metrics :: wal_metrics

definition read_dir :: "path \<Rightarrow> disk \<Rightarrow> string list" where
  "read_dir dir d = map last (filter (\<lambda>p. p \<noteq> [] \<and> butlast p = dir) (map fst (d_files d)))"

text \<open>\<^verbatim>\<open>read_exact\<close> followed by the header check; an I/O error is also a bad header.\<close>

definition header_valid :: "recover_env \<Rightarrow> nat \<Rightarrow> bytes \<Rightarrow> bool" where
  "header_valid env seq c \<longleftrightarrow>
     re_header env seq \<and> SEGMENT_HEADER_LEN \<le> length c
     \<and> validate_segment_header (take SEGMENT_HEADER_LEN c) = Inr ()"

definition count_corrupt :: "wal_metrics \<Rightarrow> wal_metrics" where
  "count_corrupt m = m\<lparr>m_corrupt_frames := m_corrupt_frames m + 1\<rparr>"

text \<open>The body of the loop over the segment files found.\<close>

definition recover_segment ::
  "(bytes \<Rightarrow> u32) \<Rightarrow> recover_env \<Rightarrow> path \<Rightarrow> nat \<Rightarrow> recover_state \<Rightarrow> io_error + recover_state" where
  "recover_segment crc32 env dir seq st =
     (let st1 = st\<lparr>rs_max_seq := max (rs_max_seq st) seq\<rparr>;
          p = segment_path dir seq
      in case (if re_open env seq then file_content (rs_disk st1) p else None) of
           None \<Rightarrow> Inr st1
         | Some c \<Rightarrow>
             if \<not> header_valid env seq c
             then Inr (st1\<lparr>rs_metrics := count_corrupt (rs_metrics st1),
                           rs_disk := (if re_remove env seq then remove_file p (rs_disk st1)
                                       else rs_disk st1)\<rparr>)
             else case walk_frames crc32 (re_reads env seq) c SEGMENT_HEADER_LEN 0 (rs_next_batch_seq st1) of
                    Inl e \<Rightarrow> Inl e
                  | Inr (off, frames, nbs, corrupt) \<Rightarrow>
                      let actual_len = (if re_metadata env seq then length c else off);
                          d' = (if actual_len > off \<and> re_set_len env seq
                                then truncate_file p off (rs_disk st1) else rs_disk st1)
                      in Inr (st1\<lparr>rs_segments := rs_segments st1 @
                                    [\<lparr>sm_seq = seq, sm_path = p, sm_bytes = off, sm_frames = frames\<rparr>],
                                  rs_total_bytes := rs_total_bytes st1 + off,
                                  rs_next_batch_seq := nbs,
                                  rs_disk := d',
                                  rs_metrics := (if corrupt then count_corrupt (rs_metrics st1)
                                                 else rs_metrics st1)\<rparr>))"

fun recover_segments ::
  "(bytes \<Rightarrow> u32) \<Rightarrow> recover_env \<Rightarrow> path \<Rightarrow> nat list \<Rightarrow> recover_state \<Rightarrow> io_error + recover_state" where
  "recover_segments crc32 env dir [] st = Inr st"
| "recover_segments crc32 env dir (seq # seqs) st =
     (case recover_segment crc32 env dir seq st of
        Inl e \<Rightarrow> Inl e
      | Inr st' \<Rightarrow> recover_segments crc32 env dir seqs st')"

definition open_active_for_append :: "recover_env \<Rightarrow> SegmentMeta \<Rightarrow> io_error + ActiveSegment" where
  "open_active_for_append env m =
     (if re_open_active env
      then Inr \<lparr>as_seq = sm_seq m, as_file = sm_path m, as_pos = sm_bytes m, as_offset = sm_bytes m\<rparr>
      else Inl OtherIo)"

definition recover ::
  "(bytes \<Rightarrow> u32) \<Rightarrow> recover_env \<Rightarrow> WalConfig \<Rightarrow> disk \<Rightarrow> wal_metrics \<Rightarrow> io_error + WalInner" where
  "recover crc32 env cfg d m =
     (if wc_dir cfg \<notin> set (d_dirs d) then Inr (empty_inner cfg d m)
      else if \<not> re_read_dir env then Inl OtherIo
      else
        let found = List.map_filter parse_segment_seq (read_dir (wc_dir cfg) d)
        in if found = [] then Inr (empty_inner cfg d m)
           else
             case recover_segments crc32 env (wc_dir cfg) (sort found)
                    \<lparr>rs_segments = [], rs_total_bytes = 0, rs_next_batch_seq = 0, rs_max_seq = 0,
                     rs_disk = d, rs_metrics = m\<rparr> of
               Inl e \<Rightarrow> Inl e
             | Inr st \<Rightarrow>
                 let next_seq = (rs_max_seq st + 1) mod 2 ^ 64;
                     act = (if rs_segments st = [] then Inr None
                            else case open_active_for_append env (last (rs_segments st)) of
                                   Inl e \<Rightarrow> Inl e | Inr a \<Rightarrow> Inr (Some a))
                 in case act of
                      Inl e \<Rightarrow> Inl e
                    | Inr a \<Rightarrow>
                        Inr (inner_from_recovered cfg (rs_segments st) a (rs_total_bytes st) next_seq
                               (rs_next_batch_seq st) (rs_disk st) (rs_metrics st)))"

section \<open>The walk salvages the whole frames\<close>

function salvage :: "(bytes \<Rightarrow> u32) \<Rightarrow> bytes \<Rightarrow> nat \<Rightarrow> DecodedFrame list" where
  "salvage crc32 c off =
     (case decode_frame crc32 c off of
        Frame f nxt \<Rightarrow> f # salvage crc32 c nxt
      | _ \<Rightarrow> [])"
  by pat_completeness auto
termination
proof (relation "measure (\<lambda>(crc32, c, off). length c - off)", goal_cases)
  case (2 crc32 c off f nxt)
  then have "read_frame_at crc32 ([], []) c off = Inr (Frame f nxt)"
    by (simp add: read_frame_at_decode)
  from read_frame_at_advances [OF this] show ?case by auto
qed simp

declare salvage.simps [simp del]

lemma salvage_step:
  assumes "decode_frame crc32 c off = Frame f nxt" and "off \<le> length c"
  shows "salvage crc32 c off = f # salvage crc32 c nxt" and "nxt = off + length (frame_bytes crc32 f)"
    and "nxt \<le> length c" and "take nxt c = take off c @ frame_bytes crc32 f" and "payload_ok (df_payload f)"
proof -
  note s = decode_frame_sound [OF assms(1)]
  show "salvage crc32 c off = f # salvage crc32 c nxt"
    by (subst salvage.simps) (simp add: assms)
  show nxt: "nxt = off + length (frame_bytes crc32 f)" and "payload_ok (df_payload f)"
    using s by simp_all
  from s(3) obtain post where post: "c = take off c @ frame_bytes crc32 f @ post" by blast
  have len: "length (take off c) = off" using assms(2) by simp
  show "take nxt c = take off c @ frame_bytes crc32 f"
    by (subst post) (simp add: nxt len assms(2))
  show "nxt \<le> length c"
    by (subst post) (simp add: nxt assms(2))
qed

lemma salvage_prefix:
  "off \<le> length c \<Longrightarrow>
     take (off + length (concat (map (frame_bytes crc32) (salvage crc32 c off)))) c
       = take off c @ concat (map (frame_bytes crc32) (salvage crc32 c off))
     \<and> (\<forall>f \<in> set (salvage crc32 c off). payload_ok (df_payload f))"
proof (induction crc32 c off rule: salvage.induct)
  case (1 crc32 c off)
  show ?case
  proof (cases "decode_frame crc32 c off")
    case (Frame f nxt)
    note s = salvage_step [OF Frame "1.prems"]
    from "1.IH" [OF Frame s(3)] s show ?thesis by (simp add: add.assoc)
  qed (subst salvage.simps; simp)+
qed

lemma salvage_stops:
  "off \<le> length c \<Longrightarrow> decode_frame crc32 c (off + length (concat (map (frame_bytes crc32) (salvage crc32 c off)))) \<noteq> Frame f nxt"
proof (induction crc32 c off rule: salvage.induct)
  case (1 crc32 c off)
  show ?case
  proof (cases "decode_frame crc32 c off")
    case (Frame g n)
    note s = salvage_step [OF Frame "1.prems"]
    from "1.IH" [OF Frame s(3)] s(1,2) show ?thesis by (simp add: add.assoc)
  qed (subst salvage.simps; simp)+
qed

lemma walk_frames_salvage:
  assumes "\<And>off. reads_ok (rd off)"
  shows "off \<le> length c \<Longrightarrow> \<exists>corrupt. walk_frames crc32 rd c off n b =
     Inr (off + length (concat (map (frame_bytes crc32) (salvage crc32 c off))),
          n + length (salvage crc32 c off),
          foldl (\<lambda>b f. max b (df_batch_seq f + 1)) b (salvage crc32 c off), corrupt)"
proof (induction crc32 c off arbitrary: n b rule: salvage.induct)
  case (1 crc32 c off)
  show ?case
  proof (cases "decode_frame crc32 c off")
    case (Frame f nxt)
    note s = salvage_step [OF Frame "1.prems"]
    from "1.IH" [OF Frame s(3), of "n + 1" "max b (df_batch_seq f + 1)"] s Frame show ?thesis
      by (subst walk_frames.simps) (simp add: read_frame_at_decode assms add.assoc)
  next
    case End
    then have "salvage crc32 c off = []" by (subst salvage.simps) simp
    with End show ?thesis by (subst walk_frames.simps) (auto simp: read_frame_at_decode assms)
  next
    case Corrupt
    then have "salvage crc32 c off = []" by (subst salvage.simps) simp
    with Corrupt show ?thesis by (subst walk_frames.simps) (auto simp: read_frame_at_decode assms)
  qed
qed

text \<open>The frames of a segment that lie completely within its first \<open>n\<close> bytes of frame data.\<close>

fun whole_frames :: "(bytes \<Rightarrow> u32) \<Rightarrow> nat \<Rightarrow> DecodedFrame list \<Rightarrow> DecodedFrame list" where
  "whole_frames crc32 n [] = []"
| "whole_frames crc32 n (f # fs) =
     (if length (frame_bytes crc32 f) \<le> n
      then f # whole_frames crc32 (n - length (frame_bytes crc32 f)) fs else [])"

lemma whole_frames_all:
  "length (concat (map (frame_bytes crc32) fs)) \<le> n \<Longrightarrow> whole_frames crc32 n fs = fs"
  by (induction fs arbitrary: n) auto

lemma whole_frames_prefix: "\<exists>j \<le> length fs. whole_frames crc32 n fs = take j fs"
proof (induction fs arbitrary: n)
  case (Cons f fs)
  obtain j where "j \<le> length fs" "whole_frames crc32 (n - length (frame_bytes crc32 f)) fs = take j fs"
    using Cons by blast
  then show ?case
    by (intro exI [of _ "if length (frame_bytes crc32 f) \<le> n then Suc j else 0"]) simp
qed simp

lemma salvage_truncated:
  assumes "\<forall>f \<in> set fs. payload_ok (df_payload f)"
  shows "salvage crc32 (pre @ take n (concat (map (frame_bytes crc32) fs))) (length pre) = whole_frames crc32 n fs"
  using assms
proof (induction fs arbitrary: pre n)
  case Nil
  then show ?case by (subst salvage.simps) (simp add: decode_frame_short)
next
  case (Cons f fs)
  let ?b = "frame_bytes crc32 f"
  show ?case
  proof (cases "length ?b \<le> n")
    case True
    let ?rest = "take (n - length ?b) (concat (map (frame_bytes crc32) fs))"
    have c: "pre @ take n (concat (map (frame_bytes crc32) (f # fs))) = pre @ ?b @ ?rest"
      using True by simp
    have "decode_frame crc32 (pre @ ?b @ ?rest) (length pre) = Frame f (length pre + length ?b)"
      using Cons.prems by (intro decode_frame_encoded) simp
    then have "salvage crc32 (pre @ ?b @ ?rest) (length pre)
        = f # salvage crc32 ((pre @ ?b) @ ?rest) (length (pre @ ?b))"
      by (subst salvage.simps) simp
    also have "salvage crc32 ((pre @ ?b) @ ?rest) (length (pre @ ?b)) = whole_frames crc32 (n - length ?b) fs"
      by (rule Cons.IH) (use Cons.prems in simp)
    finally show ?thesis unfolding c using True by simp
  next
    case False
    then have "take n (concat (map (frame_bytes crc32) (f # fs))) = take n ?b" by simp
    moreover have "decode_frame crc32 (pre @ take n ?b) (length pre) = End"
      using False Cons.prems by (intro decode_frame_torn) simp_all
    ultimately show ?thesis using False by (subst salvage.simps) simp
  qed
qed


section \<open>The rebuilt store\<close>

text \<open>A recovery in which the system calls it depends on succeed.\<close>

definition recover_ok :: "recover_env \<Rightarrow> bool" where
  "recover_ok env \<longleftrightarrow> re_read_dir env \<and> re_open_active env
     \<and> (\<forall>s. re_open env s \<and> re_header env s \<and> re_metadata env s \<and> re_set_len env s
            \<and> (\<forall>off. reads_ok (re_reads env s off)))"

text \<open>What a segment file yields: nothing if its header is bad, else its whole frames.\<close>

definition segment_yield :: "(bytes \<Rightarrow> u32) \<Rightarrow> bytes option \<Rightarrow> DecodedFrame list option" where
  "segment_yield crc32 co =
     (case co of
        None \<Rightarrow> None
      | Some c \<Rightarrow> if take 16 c = encode_segment_header then Some (salvage crc32 c 16) else None)"

text \<open>
  A segment file as the agent leaves it: it starts with the agent's header, or its header is
  rejected (the file was created and the write of its header failed or was lost).
\<close>

definition own_or_bad :: "bytes \<Rightarrow> bool" where
  "own_or_bad c \<longleftrightarrow> take 16 c = encode_segment_header
     \<or> length c < 16 \<or> validate_segment_header (take 16 c) \<noteq> Inr ()"

definition rec_inv :: "(bytes \<Rightarrow> u32) \<Rightarrow> path \<Rightarrow> recover_state \<Rightarrow> DecodedFrame list list \<Rightarrow> bool" where
  "rec_inv crc32 dir st fss \<longleftrightarrow>
     list_all2 (seg_ok crc32 dir (rs_disk st)) (rs_segments st) fss
     \<and> sorted_wrt (<) (map sm_seq (rs_segments st))
     \<and> (\<forall>m \<in> set (rs_segments st). sm_seq m \<le> rs_max_seq st)
     \<and> rs_total_bytes st = sum_list (map sm_bytes (rs_segments st))"

lemma validate_own_header: "validate_segment_header encode_segment_header = Inr ()"
  by (simp add: validate_segment_header_def encode_segment_header_def SEGMENT_MAGIC_def
      SEGMENT_HEADER_LEN_def FORMAT_VERSION_def Let_def)

lemma own_header_valid:
  assumes "own_or_bad c" and "re_header env seq"
  shows "header_valid env seq c \<longleftrightarrow> take 16 c = encode_segment_header"
proof
  assume "take 16 c = encode_segment_header"
  moreover from arg_cong [OF this, of length] have "16 \<le> length c" by simp
  ultimately show "header_valid env seq c"
    using assms(2) by (simp add: header_valid_def SEGMENT_HEADER_LEN_def validate_own_header)
next
  assume "header_valid env seq c"
  then show "take 16 c = encode_segment_header"
    using assms(1) by (auto simp: header_valid_def own_or_bad_def SEGMENT_HEADER_LEN_def)
qed

text \<open>What the recovery of one segment file does to the state of the scan.\<close>

definition segment_recovered ::
  "(bytes \<Rightarrow> u32) \<Rightarrow> path \<Rightarrow> nat \<Rightarrow> recover_state \<Rightarrow> recover_state \<Rightarrow> DecodedFrame list list \<Rightarrow> bool" where
  "segment_recovered crc32 dir seq st st' fss \<longleftrightarrow> rec_inv crc32 dir st' fss \<and> rs_max_seq st' = max (rs_max_seq st) seq
     \<and> (\<forall>m \<in> set (rs_segments st'). sm_seq m \<le> seq)
     \<and> (\<forall>s. s \<noteq> seq \<longrightarrow> file_content (rs_disk st') (segment_path dir s) = file_content (rs_disk st) (segment_path dir s))"

lemma rec_inv_other_file:
  assumes inv: "rec_inv crc32 dir st fss" and lt: "\<forall>m \<in> set (rs_segments st). sm_seq m < seq"
    and "\<And>s. s \<noteq> seq \<Longrightarrow> file_content d (segment_path dir s) = file_content (rs_disk st) (segment_path dir s)"
  shows "list_all2 (seg_ok crc32 dir d) (rs_segments st) fss"
proof (rule segs_ok_disk)
  show "list_all2 (seg_ok crc32 dir (rs_disk st)) (rs_segments st) fss"
    using inv by (simp add: rec_inv_def)
qed (use lt assms(3) in auto)

lemma recover_bad_segment:
  assumes inv: "rec_inv crc32 dir st fss" and lt: "\<forall>m \<in> set (rs_segments st). sm_seq m < seq"
    and env: "recover_ok env" and c: "file_content (rs_disk st) (segment_path dir seq) = Some c"
    and bad: "\<not> header_valid env seq c"
  shows "\<exists>st'. recover_segment crc32 env dir seq st = Inr st' \<and> segment_recovered crc32 dir seq st st' fss"
proof -
  let ?st' = "st\<lparr>rs_max_seq := max (rs_max_seq st) seq, rs_metrics := count_corrupt (rs_metrics st),
      rs_disk := (if re_remove env seq then remove_file (segment_path dir seq) (rs_disk st) else rs_disk st)\<rparr>"
  have eq: "recover_segment crc32 env dir seq st = Inr ?st'"
    using bad env c by (simp add: recover_segment_def Let_def recover_ok_def)
  have dsk: "file_content (rs_disk ?st') (segment_path dir s) = file_content (rs_disk st) (segment_path dir s)"
    if "s \<noteq> seq" for s using that by simp
  have "rec_inv crc32 dir ?st' fss"
    using inv rec_inv_other_file [OF inv lt, of "rs_disk ?st'"] dsk unfolding rec_inv_def by (auto simp: le_max_iff_disj)
  with eq dsk lt show ?thesis
    unfolding segment_recovered_def by (intro exI [of _ ?st'] conjI) auto
qed

lemma recover_own_segment:
  assumes inv: "rec_inv crc32 dir st fss" and lt: "\<forall>m \<in> set (rs_segments st). sm_seq m < seq"
    and env: "recover_ok env" and c: "file_content (rs_disk st) (segment_path dir seq) = Some c"
    and hd: "take 16 c = encode_segment_header" and hv: "header_valid env seq c"
  shows "\<exists>st'. recover_segment crc32 env dir seq st = Inr st' \<and> segment_recovered crc32 dir seq st st' (fss @ [salvage crc32 c 16])"
proof -
  have e: "re_open env seq" "re_metadata env seq" "re_set_len env seq" "\<And>off. reads_ok (re_reads env seq off)"
    using env by (auto simp: recover_ok_def)
  have len: "16 \<le> length c" using hv by (simp add: header_valid_def SEGMENT_HEADER_LEN_def)
  define fs where "fs = salvage crc32 c 16"
  define off where "off = length (seg_image crc32 fs)"
  have off: "off = 16 + length (concat (map (frame_bytes crc32) fs))" by (simp add: off_def seg_image_def)
  obtain nbs cor where walk: "walk_frames crc32 (re_reads env seq) c 16 0 (rs_next_batch_seq st)
      = Inr (off, length fs, nbs, cor)"
    using walk_frames_salvage [of "re_reads env seq" 16 c crc32 0 "rs_next_batch_seq st"] e(4) len
    unfolding off fs_def by auto
  have sp: "take off c = seg_image crc32 fs" "\<forall>f \<in> set fs. payload_ok (df_payload f)"
    using salvage_prefix [OF len, of crc32] hd unfolding off fs_def by (simp_all add: seg_image_def)
  with arg_cong [OF sp(1), of length] have le: "off \<le> length c" by (simp add: off_def)
  define d' where "d' = (if length c > off then truncate_file (segment_path dir seq) off (rs_disk st) else rs_disk st)"
  let ?m = "\<lparr>sm_seq = seq, sm_path = segment_path dir seq, sm_bytes = off, sm_frames = length fs\<rparr>"
  let ?st' = "st\<lparr>rs_max_seq := max (rs_max_seq st) seq, rs_segments := rs_segments st @ [?m],
      rs_total_bytes := rs_total_bytes st + off, rs_next_batch_seq := nbs, rs_disk := d',
      rs_metrics := (if cor then count_corrupt (rs_metrics st) else rs_metrics st)\<rparr>"
  have eq: "recover_segment crc32 env dir seq st = Inr ?st'"
    using hv e(1-3) c walk by (simp add: recover_segment_def Let_def SEGMENT_HEADER_LEN_def d'_def)
  have dsk: "file_content d' (segment_path dir s) = file_content (rs_disk st) (segment_path dir s)"
    if "s \<noteq> seq" for s using that by (simp add: d'_def)
  have "file_content d' (segment_path dir seq) = Some (take off c)"
    using c le by (simp add: d'_def)
  then have "seg_ok crc32 dir d' ?m fs"
    using sp by (simp add: seg_ok_def off_def)
  with rec_inv_other_file [OF inv lt, of d'] dsk
  have "list_all2 (seg_ok crc32 dir d') (rs_segments st @ [?m]) (fss @ [fs])" by (simp add: list_all2_snoc)
  then have "rec_inv crc32 dir ?st' (fss @ [fs])"
    using inv lt unfolding rec_inv_def by (auto simp: sorted_wrt_append le_max_iff_disj)
  with eq dsk lt show ?thesis
    unfolding segment_recovered_def fs_def by (intro exI [of _ ?st'] conjI) (auto simp: fs_def)
qed

lemma recover_segment_ok:
  assumes inv: "rec_inv crc32 dir st fss" and lt: "\<forall>m \<in> set (rs_segments st). sm_seq m < seq"
    and env: "recover_ok env" and c: "file_content (rs_disk st) (segment_path dir seq) = Some c"
    and own: "own_or_bad c"
  shows "\<exists>st'. recover_segment crc32 env dir seq st = Inr st'
     \<and> segment_recovered crc32 dir seq st st' (fss @ (case segment_yield crc32 (Some c) of None \<Rightarrow> [] | Some fs \<Rightarrow> [fs]))"
proof (cases "take 16 c = encode_segment_header")
  case False
  then have "\<not> header_valid env seq c" using env by (simp add: own_header_valid own recover_ok_def)
  from recover_bad_segment [OF inv lt env c this] False show ?thesis by (simp add: segment_yield_def)
next
  case True
  then have "header_valid env seq c" using env by (simp add: own_header_valid own recover_ok_def)
  from recover_own_segment [OF inv lt env c True this] True show ?thesis by (simp add: segment_yield_def)
qed

lemma recover_segments_ok:
  assumes "rec_inv crc32 dir st fss" and "sorted_wrt (<) seqs"
    and "\<forall>m \<in> set (rs_segments st). \<forall>s \<in> set seqs. sm_seq m < s" and "recover_ok env"
    and "\<forall>s \<in> set seqs. \<exists>c. file_content (rs_disk st) (segment_path dir s) = Some c \<and> own_or_bad c"
  shows "\<exists>st'. recover_segments crc32 env dir seqs st = Inr st'
     \<and> rec_inv crc32 dir st' (fss @ List.map_filter
           (\<lambda>s. segment_yield crc32 (file_content (rs_disk st) (segment_path dir s))) seqs)
     \<and> rs_max_seq st' = foldl max (rs_max_seq st) seqs"
  using assms
proof (induction seqs arbitrary: st fss)
  case (Cons seq seqs)
  let ?y = "\<lambda>d s. segment_yield crc32 (file_content d (segment_path dir s))"
  obtain c where c: "file_content (rs_disk st) (segment_path dir seq) = Some c" "own_or_bad c"
    using Cons.prems(5) by auto
  let ?new = "case segment_yield crc32 (Some c) of None \<Rightarrow> [] | Some fs \<Rightarrow> [fs]"
  obtain st1 where st1: "recover_segment crc32 env dir seq st = Inr st1" "rec_inv crc32 dir st1 (fss @ ?new)"
      "rs_max_seq st1 = max (rs_max_seq st) seq" "\<forall>m \<in> set (rs_segments st1). sm_seq m \<le> seq"
      "\<forall>s. s \<noteq> seq \<longrightarrow> file_content (rs_disk st1) (segment_path dir s) = file_content (rs_disk st) (segment_path dir s)"
    using recover_segment_ok [OF Cons.prems(1) _ Cons.prems(4) c] Cons.prems(3) by (auto simp: segment_recovered_def)
  have lt: "\<forall>s \<in> set seqs. seq < s" using Cons.prems(2) by simp
  then have same: "\<forall>s \<in> set seqs. file_content (rs_disk st1) (segment_path dir s) = file_content (rs_disk st) (segment_path dir s)"
    using st1(5) by auto
  obtain st' where st': "recover_segments crc32 env dir seqs st1 = Inr st'"
      "rec_inv crc32 dir st' ((fss @ ?new) @ List.map_filter (?y (rs_disk st1)) seqs)"
      "rs_max_seq st' = foldl max (rs_max_seq st1) seqs"
    using Cons.IH [OF st1(2) _ _ Cons.prems(4)] Cons.prems(2,5) st1(4) lt same by fastforce
  have "List.map_filter (?y (rs_disk st)) (seq # seqs) = ?new @ List.map_filter (?y (rs_disk st1)) seqs"
    using same c(1) by (auto simp: map_filter_def split: option.splits intro!: filter_cong map_cong)
  with st' st1(1,3) show ?case by auto
qed (simp add: map_filter_def)

definition canonical_dir :: "path \<Rightarrow> disk \<Rightarrow> bool" where
  "canonical_dir dir d \<longleftrightarrow>
     dir \<in> set (d_dirs d) \<and> distinct (map fst (d_files d))
     \<and> (\<forall>name \<in> set (read_dir dir d). \<forall>s. parse_segment_seq name = Some s \<longrightarrow>
           dir @ [name] = segment_path dir s \<and> s + 1 < 2 ^ 64)"

lemma segment_path_snoc: "segment_path dir s = dir @ [last (segment_path dir s)]"
  by (simp add: segment_path_def)

lemma read_dir_iff: "name \<in> set (read_dir dir d) \<longleftrightarrow> file_content d (dir @ [name]) \<noteq> None"
proof -
  have "name \<in> set (read_dir dir d) \<longleftrightarrow> dir @ [name] \<in> fst ` set (d_files d)"
    by (force simp: read_dir_def image_iff)
  then show ?thesis by (metis map_of_eq_None_iff)
qed

lemma found_distinct:
  assumes "canonical_dir dir d"
  shows "distinct (List.map_filter parse_segment_seq (read_dir dir d))"
proof -
  let ?names = "filter (\<lambda>n. parse_segment_seq n \<noteq> None) (read_dir dir d)"
  have "distinct (filter (\<lambda>p. p \<noteq> [] \<and> butlast p = dir) (map fst (d_files d)))"
    using assms by (simp add: canonical_dir_def)
  then have "distinct (read_dir dir d)"
    unfolding read_dir_def by (auto simp: distinct_map intro!: inj_onI) (metis append_butlast_last_id)
  moreover have "inj_on (the \<circ> parse_segment_seq) (set ?names)"
    using assms by (auto simp: canonical_dir_def intro!: inj_onI) (metis append1_eq_conv)
  ultimately show ?thesis by (simp add: map_filter_def distinct_map)
qed

lemma found_iff:
  assumes "canonical_dir dir d"
  shows "s \<in> set (List.map_filter parse_segment_seq (read_dir dir d))
     \<longleftrightarrow> s < 2 ^ 64 \<and> file_content d (segment_path dir s) \<noteq> None"
proof
  assume "s \<in> set (List.map_filter parse_segment_seq (read_dir dir d))"
  then obtain name where n: "name \<in> set (read_dir dir d)" "parse_segment_seq name = Some s"
    by (force simp: map_filter_def)
  with assms have "dir @ [name] = segment_path dir s" "s + 1 < 2 ^ 64" by (auto simp: canonical_dir_def)
  with n(1) show "s < 2 ^ 64 \<and> file_content d (segment_path dir s) \<noteq> None"
    by (simp add: read_dir_iff)
next
  assume s: "s < 2 ^ 64 \<and> file_content d (segment_path dir s) \<noteq> None"
  then have "last (segment_path dir s) \<in> set (read_dir dir d)"
    by (simp add: read_dir_iff segment_path_snoc [symmetric])
  with parse_segment_path [of s dir] s show "s \<in> set (List.map_filter parse_segment_seq (read_dir dir d))"
    by (force simp: map_filter_def)
qed

text \<open>The frames recovery finds, segment by segment in the order of their sequence numbers.\<close>

definition salvaged :: "(bytes \<Rightarrow> u32) \<Rightarrow> path \<Rightarrow> disk \<Rightarrow> DecodedFrame list list" where
  "salvaged crc32 dir d = List.map_filter
     (\<lambda>s. segment_yield crc32 (file_content d (segment_path dir s)))
     (sort (List.map_filter parse_segment_seq (read_dir dir d)))"

lemma rec_inv_wal_rep:
  assumes inv: "rec_inv crc32 (wc_dir cfg) st fss" and nx: "rs_max_seq st < nx"
    and act: "a = (if rs_segments st = [] then None else Some (let m = last (rs_segments st) in
        \<lparr>as_seq = sm_seq m, as_file = sm_path m, as_pos = sm_bytes m, as_offset = sm_bytes m\<rparr>))"
  shows "wal_rep crc32 (inner_from_recovered cfg (rs_segments st) a (rs_total_bytes st) nx nb (rs_disk st) mt) fss 0"
  (is "wal_rep crc32 ?w fss 0")
proof -
  have f: "wi_cfg ?w = cfg" "wi_segments ?w = rs_segments st" "wi_active ?w = a"
      "wi_total_bytes ?w = rs_total_bytes st" "wi_next_seq ?w = nx" "wi_disk ?w = rs_disk st"
      "wi_pending_advance ?w = None" "wi_read_offset ?w = 16"
      "wi_read_seq ?w = (if rs_segments st = [] then nx else sm_seq (hd (rs_segments st)))"
    by (auto simp: inner_from_recovered_def Let_def SEGMENT_HEADER_LEN_def split: list.splits)
  have "segs_rep crc32 ?w fss" using inv nx unfolding segs_rep_def f rec_inv_def by auto
  moreover have "active_rep ?w" unfolding active_rep_def f by (auto simp: act Let_def)
  moreover have "cursor_rep crc32 ?w fss 0" unfolding cursor_rep_def f by (auto simp: SEGMENT_HEADER_LEN_def)
  ultimately show ?thesis by (simp add: wal_rep_def)
qed

lemma foldl_max_in: "foldl max (a :: nat) xs \<in> insert a (set xs)"
proof (induction xs arbitrary: a)
  case (Cons x xs)
  from Cons [of "max a x"] show ?case by (auto simp: max_def split: if_splits)
qed simp

lemma recover_rebuilds:
  assumes env: "recover_ok env" and dir: "canonical_dir (wc_dir cfg) d"
    and own: "\<And>s c. file_content d (segment_path (wc_dir cfg) s) = Some c \<Longrightarrow> own_or_bad c"
  shows "\<exists>w. recover crc32 env cfg d m = Inr w \<and> wal_rep crc32 w (salvaged crc32 (wc_dir cfg) d) 0"
proof -
  let ?dir = "wc_dir cfg"
  let ?found = "List.map_filter parse_segment_seq (read_dir ?dir d)"
  have rd: "?dir \<in> set (d_dirs d)" "re_read_dir env"
    using env dir by (simp_all add: recover_ok_def canonical_dir_def)
  show ?thesis
  proof (cases "?found = []")
    case True
    then have "salvaged crc32 ?dir d = []" by (simp add: salvaged_def map_filter_def)
    with True rd show ?thesis by (simp add: recover_def wal_rep_empty)
  next
    case False
    let ?st = "\<lparr>rs_segments = [], rs_total_bytes = 0, rs_next_batch_seq = 0, rs_max_seq = 0,
                     rs_disk = d, rs_metrics = m\<rparr>"
    have "sorted_wrt (<) (sort ?found)"
      using found_distinct [OF dir] by (simp add: strict_sorted_iff)
    moreover have "\<forall>s \<in> set (sort ?found). \<exists>c. file_content d (segment_path ?dir s) = Some c \<and> own_or_bad c"
      using found_iff [OF dir] own by (fastforce simp: set_sort)
    moreover have "rec_inv crc32 ?dir ?st []" by (simp add: rec_inv_def)
    ultimately obtain st where st: "recover_segments crc32 env ?dir (sort ?found) ?st = Inr st"
        "rec_inv crc32 ?dir st (salvaged crc32 ?dir d)" "rs_max_seq st = foldl max 0 (sort ?found)"
      using recover_segments_ok [of crc32 ?dir ?st "[]" "sort ?found" env] env by (auto simp: salvaged_def)
    have "rs_max_seq st = 0 \<or> rs_max_seq st \<in> set ?found"
      using foldl_max_in [of 0 "sort ?found"] st(3) by auto
    moreover have "s + 1 < 2 ^ 64" if "s \<in> set ?found" for s
      using that dir by (auto simp: canonical_dir_def map_filter_def)
    ultimately have nx: "(rs_max_seq st + 1) mod 2 ^ 64 = rs_max_seq st + 1" by fastforce
    define a where "a = (if rs_segments st = [] then None else Some (let m = last (rs_segments st) in
        \<lparr>as_seq = sm_seq m, as_file = sm_path m, as_pos = sm_bytes m, as_offset = sm_bytes m\<rparr>))"
    let ?w = "inner_from_recovered cfg (rs_segments st) a (rs_total_bytes st) (rs_max_seq st + 1)
        (rs_next_batch_seq st) (rs_disk st) (rs_metrics st)"
    have "recover crc32 env cfg d m = Inr ?w"
      using rd False st(1) nx env
      by (simp add: recover_def Let_def a_def open_active_for_append_def recover_ok_def)
    moreover have "wal_rep crc32 ?w (salvaged crc32 ?dir d) 0"
      by (rule rec_inv_wal_rep [OF st(2) _ a_def]) simp
    ultimately show ?thesis by blast
  qed
qed

section \<open>Crashes\<close>

text \<open>
  What a crash leaves of the file of a segment with the frames \<open>fs\<close> of which \<open>n\<close> bytes are intact: the header,
  these bytes and any further bytes (the rest of a torn frame, bytes that were damaged, or blocks of
  zeros of a file that grew before its data was written), as long as no frame reads where the intact ones end; the checksum
  of \<^verbatim>\<open>read_frame_at\<close> is there to make that so.  Or, with no byte intact, the header itself is
  damaged or the file is gone.
\<close>

definition survives :: "(bytes \<Rightarrow> u32) \<Rightarrow> nat \<Rightarrow> DecodedFrame list \<Rightarrow> bytes option \<Rightarrow> bool" where
  "survives crc32 n fs co \<longleftrightarrow>
     (\<exists>junk c. co = Some c \<and> c = encode_segment_header @ take n (concat (map (frame_bytes crc32) fs)) @ junk
        \<and> (\<forall>f nxt. decode_frame crc32 c (16 + length (concat (map (frame_bytes crc32) (whole_frames crc32 n fs)))) \<noteq> Frame f nxt))
     \<or> n = 0 \<and> (\<forall>c. co = Some c \<longrightarrow> length c < 16 \<or> validate_segment_header (take 16 c) \<noteq> Inr ())"

text \<open>
  The disk a crash leaves behind a running log \<open>w\<close> with the frames \<open>fss\<close>, of which the first
  \<open>cutoff\<close> bytes of each segment are intact; any other segment file has a rejected header.
\<close>

definition crash_disk ::
  "(bytes \<Rightarrow> u32) \<Rightarrow> WalInner \<Rightarrow> DecodedFrame list list \<Rightarrow> (nat \<Rightarrow> nat) \<Rightarrow> disk \<Rightarrow> bool" where
  "crash_disk crc32 w fss cutoff d \<longleftrightarrow>
     canonical_dir (wc_dir (wi_cfg w)) d
     \<and> (\<forall>(m, fs) \<in> set (zip (wi_segments w) fss). sm_seq m < 2 ^ 64 \<and>
          survives crc32 (cutoff (sm_seq m)) fs (file_content d (sm_path m)))
     \<and> (\<forall>s c. file_content d (segment_path (wc_dir (wi_cfg w)) s) = Some c
          \<and> (\<forall>m \<in> set (wi_segments w). sm_seq m \<noteq> s)
          \<longrightarrow> length c < 16 \<or> validate_segment_header (take 16 c) \<noteq> Inr ())"

lemma map_filter_filter:
  "List.map_filter f xs = map (the \<circ> f) (filter (\<lambda>x. f x \<noteq> None) xs)"
  by (simp add: map_filter_def)

lemma segment_yield_bad:
  "length c < 16 \<or> validate_segment_header (take 16 c) \<noteq> Inr () \<Longrightarrow> segment_yield crc32 (Some c) = None"
  by (auto simp: segment_yield_def validate_own_header dest: arg_cong [where f = length])

lemma own_or_bad_own: "own_or_bad (encode_segment_header @ bs)"
  by (simp add: own_or_bad_def)

lemma whole_frames_zero: "whole_frames crc32 0 fs = []"
  by (cases fs) (simp_all add: length_frame_bytes frame_len_on_disk_def FRAME_HEADER_LEN_def)

lemma whole_frames_bytes:
  "\<exists>r. take n (concat (map (frame_bytes crc32) fs)) = concat (map (frame_bytes crc32) (whole_frames crc32 n fs)) @ r"
proof (induction fs arbitrary: n)
  case (Cons f fs)
  obtain r where "take (n - length (frame_bytes crc32 f)) (concat (map (frame_bytes crc32) fs))
      = concat (map (frame_bytes crc32) (whole_frames crc32 (n - length (frame_bytes crc32 f)) fs)) @ r"
    using Cons.IH by blast
  then show ?case by auto
qed simp

lemma whole_frames_subset: "set (whole_frames crc32 n fs) \<subseteq> set fs"
  using whole_frames_prefix [of fs crc32 n] set_take_subset by metis

text \<open>The walk reads frame after frame and stops where none reads.\<close>

lemma salvage_frames:
  assumes "\<forall>f \<in> set fs. payload_ok (df_payload f)"
    and "\<forall>f nxt. decode_frame crc32 (pre @ concat (map (frame_bytes crc32) fs) @ tail)
           (length pre + length (concat (map (frame_bytes crc32) fs))) \<noteq> Frame f nxt"
  shows "salvage crc32 (pre @ concat (map (frame_bytes crc32) fs) @ tail) (length pre) = fs"
  using assms
proof (induction fs arbitrary: pre)
  case Nil
  then show ?case by (subst salvage.simps) (cases "decode_frame crc32 (pre @ tail) (length pre)"; simp)
next
  case (Cons f fs)
  let ?b = "frame_bytes crc32 f" and ?rest = "concat (map (frame_bytes crc32) fs) @ tail"
  have "decode_frame crc32 (pre @ ?b @ ?rest) (length pre) = Frame f (length pre + length ?b)"
    using Cons.prems(1) by (intro decode_frame_encoded) simp
  then have "salvage crc32 (pre @ ?b @ ?rest) (length pre)
      = f # salvage crc32 ((pre @ ?b) @ ?rest) (length (pre @ ?b))"
    by (subst salvage.simps) simp
  also have "salvage crc32 ((pre @ ?b) @ ?rest) (length (pre @ ?b)) = fs"
    using Cons.prems by (intro Cons.IH) (simp_all add: add.assoc)
  finally show ?case by simp
qed

lemma survives_yield:
  assumes "survives crc32 n fs co" and "\<forall>f \<in> set fs. payload_ok (df_payload f)"
  shows "(case segment_yield crc32 co of None \<Rightarrow> [] | Some gs \<Rightarrow> gs) = whole_frames crc32 n fs"
    and "co = Some c \<Longrightarrow> own_or_bad c"
proof -
  let ?ws = "whole_frames crc32 n fs"
  consider (kept) junk where "co = Some (encode_segment_header @ take n (concat (map (frame_bytes crc32) fs)) @ junk)"
      "\<forall>f nxt. decode_frame crc32 (encode_segment_header @ take n (concat (map (frame_bytes crc32) fs)) @ junk)
         (16 + length (concat (map (frame_bytes crc32) ?ws))) \<noteq> Frame f nxt"
    | (lost) "n = 0" "\<forall>c. co = Some c \<longrightarrow> length c < 16 \<or> validate_segment_header (take 16 c) \<noteq> Inr ()"
    using assms(1) unfolding survives_def by blast
  note two = this
  show "(case segment_yield crc32 co of None \<Rightarrow> [] | Some gs \<Rightarrow> gs) = ?ws"
    using two
  proof cases
    case kept
    obtain r where r: "take n (concat (map (frame_bytes crc32) fs)) = concat (map (frame_bytes crc32) ?ws) @ r"
      using whole_frames_bytes by blast
    have "salvage crc32 (encode_segment_header @ concat (map (frame_bytes crc32) ?ws) @ r @ junk) (length encode_segment_header) = ?ws"
      using kept(2) assms(2) whole_frames_subset [of crc32 n fs] unfolding r
      by (intro salvage_frames) auto
    then show ?thesis unfolding kept(1) r by (simp add: segment_yield_def)
  next
    case lost
    then have "segment_yield crc32 co = None" by (cases co) (auto simp: segment_yield_bad, simp add: segment_yield_def)
    with lost(1) show ?thesis by (simp add: whole_frames_zero)
  qed
  show "own_or_bad c" if "co = Some c"
    using two that by cases (auto simp: own_or_bad_def)
qed

lemma survives_prefix:
  assumes "\<forall>f \<in> set fs. payload_ok (df_payload f)"
  shows "survives crc32 n fs (Some (encode_segment_header @ take n (concat (map (frame_bytes crc32) fs))))"
proof -
  let ?c = "encode_segment_header @ take n (concat (map (frame_bytes crc32) fs))"
  have s: "salvage crc32 ?c 16 = whole_frames crc32 n fs" using salvage_truncated [OF assms, of crc32 encode_segment_header n] by simp
  have "decode_frame crc32 ?c (16 + length (concat (map (frame_bytes crc32) (whole_frames crc32 n fs)))) \<noteq> Frame f nxt" for f nxt
    using salvage_stops [of 16 ?c crc32] unfolding s by simp
  then show ?thesis unfolding survives_def by (intro disjI1 exI [of _ "[]"] exI [of _ ?c]) simp
qed

lemma crash_segment:
  assumes rep: "wal_rep crc32 w fss k" and crash: "crash_disk crc32 w fss cutoff d"
    and m: "(m, fs) \<in> set (zip (wi_segments w) fss)"
  shows "sm_seq m < 2 ^ 64"
    and "file_content d (segment_path (wc_dir (wi_cfg w)) (sm_seq m)) = Some c \<Longrightarrow> own_or_bad c"
    and "(case segment_yield crc32 (file_content d (segment_path (wc_dir (wi_cfg w)) (sm_seq m))) of None \<Rightarrow> [] | Some gs \<Rightarrow> gs)
       = whole_frames crc32 (cutoff (sm_seq m)) fs"
proof -
  have "seg_ok crc32 (wc_dir (wi_cfg w)) (wi_disk w) m fs"
    using rep m by (auto simp: wal_rep_def segs_rep_def list_all2_iff)
  then have p: "sm_path m = segment_path (wc_dir (wi_cfg w)) (sm_seq m)" "\<forall>f \<in> set fs. payload_ok (df_payload f)"
    by (auto simp: seg_ok_def)
  have s: "sm_seq m < 2 ^ 64" "survives crc32 (cutoff (sm_seq m)) fs (file_content d (segment_path (wc_dir (wi_cfg w)) (sm_seq m)))"
    using crash m unfolding crash_disk_def p(1) [symmetric] by auto
  from s(1) survives_yield [OF s(2) p(2)]
  show "sm_seq m < 2 ^ 64"
    and "file_content d (segment_path (wc_dir (wi_cfg w)) (sm_seq m)) = Some c \<Longrightarrow> own_or_bad c"
    and "(case segment_yield crc32 (file_content d (segment_path (wc_dir (wi_cfg w)) (sm_seq m))) of None \<Rightarrow> [] | Some gs \<Rightarrow> gs)
       = whole_frames crc32 (cutoff (sm_seq m)) fs"
    by blast+
qed

lemma crash_other_file:
  assumes "crash_disk crc32 w fss cutoff d" and "file_content d (segment_path (wc_dir (wi_cfg w)) s) = Some c"
    and "s \<notin> sm_seq ` set (wi_segments w)"
  shows "length c < 16 \<or> validate_segment_header (take 16 c) \<noteq> Inr ()"
proof -
  have "\<forall>m \<in> set (wi_segments w). sm_seq m \<noteq> s" using assms(3) by auto
  with assms(1,2) show ?thesis unfolding crash_disk_def by blast
qed

lemma segment_in_zip:
  assumes "wal_rep crc32 w fss k" and "s \<in> sm_seq ` set (wi_segments w)"
  obtains m fs where "(m, fs) \<in> set (zip (wi_segments w) fss)" and "sm_seq m = s"
  using assms wal_rep_lengths [OF assms(1)] by (metis image_iff in_set_impl_in_set_zip1)

lemma crash_own_or_bad:
  assumes rep: "wal_rep crc32 w fss k" and crash: "crash_disk crc32 w fss cutoff d"
    and c: "file_content d (segment_path (wc_dir (wi_cfg w)) s) = Some c"
  shows "own_or_bad c"
proof (cases "s \<in> sm_seq ` set (wi_segments w)")
  case True
  then obtain m fs where "(m, fs) \<in> set (zip (wi_segments w) fss)" "sm_seq m = s"
    using segment_in_zip [OF rep] by blast
  with crash_segment(2) [OF rep crash] c show ?thesis by blast
next
  case False
  with crash_other_file [OF crash c] show ?thesis by (auto simp: own_or_bad_def)
qed

text \<open>The files that yield frames are, in order, those of the segments whose header survived.\<close>

lemma crash_found_segments:
  assumes rep: "wal_rep crc32 w fss k" and crash: "crash_disk crc32 w fss cutoff d"
  defines "y \<equiv> \<lambda>s. segment_yield crc32 (file_content d (segment_path (wc_dir (wi_cfg w)) s))"
  shows "filter (\<lambda>s. y s \<noteq> None) (sort (List.map_filter parse_segment_seq (read_dir (wc_dir (wi_cfg w)) d)))
       = filter (\<lambda>s. y s \<noteq> None) (map sm_seq (wi_segments w))"
proof (rule sorted_distinct_set_unique)
  let ?found = "List.map_filter parse_segment_seq (read_dir (wc_dir (wi_cfg w)) d)"
  have canon: "canonical_dir (wc_dir (wi_cfg w)) d" using crash by (simp add: crash_disk_def)
  have segs: "sorted (map sm_seq (wi_segments w))" "distinct (map sm_seq (wi_segments w))"
    using rep by (simp_all add: wal_rep_def segs_rep_def strict_sorted_iff)
  show "sorted (filter (\<lambda>s. y s \<noteq> None) (sort ?found))" "distinct (filter (\<lambda>s. y s \<noteq> None) (sort ?found))"
      "sorted (filter (\<lambda>s. y s \<noteq> None) (map sm_seq (wi_segments w)))" "distinct (filter (\<lambda>s. y s \<noteq> None) (map sm_seq (wi_segments w)))"
    using found_distinct [OF canon] segs by (simp_all only: sorted_wrt_filter distinct_filter distinct_sort sorted_sort)
  have "s \<in> set ?found \<longleftrightarrow> s \<in> sm_seq ` set (wi_segments w)" if y: "y s \<noteq> None" for s
  proof -
    obtain c where c: "file_content d (segment_path (wc_dir (wi_cfg w)) s) = Some c"
      using y by (auto simp: y_def segment_yield_def split: option.splits)
    have "s \<in> sm_seq ` set (wi_segments w)"
    proof (rule ccontr)
      assume "s \<notin> sm_seq ` set (wi_segments w)"
      from segment_yield_bad [OF crash_other_file [OF crash c this]] y c show False by (simp add: y_def)
    qed
    moreover from this obtain m fs where "(m, fs) \<in> set (zip (wi_segments w) fss)" "sm_seq m = s"
      using segment_in_zip [OF rep] by blast
    with crash_segment(1) [OF rep crash] have "s < 2 ^ 64" by blast
    ultimately show ?thesis using found_iff [OF canon, of s] c by simp
  qed
  then show "set (filter (\<lambda>s. y s \<noteq> None) (sort ?found)) = set (filter (\<lambda>s. y s \<noteq> None) (map sm_seq (wi_segments w)))"
    by auto
qed

lemma concat_yields:
  "concat (map (the \<circ> y) (filter (\<lambda>s. y s \<noteq> None) ss)) = concat (map (\<lambda>s. case y s of None \<Rightarrow> [] | Some gs \<Rightarrow> gs) ss)"
  by (induction ss) auto

lemma crash_salvaged:
  assumes rep: "wal_rep crc32 w fss k" and crash: "crash_disk crc32 w fss cutoff d"
  shows "concat (salvaged crc32 (wc_dir (wi_cfg w)) d)
       = concat (map2 (\<lambda>m fs. whole_frames crc32 (cutoff (sm_seq m)) fs) (wi_segments w) fss)"
proof -
  let ?y = "\<lambda>s. segment_yield crc32 (file_content d (segment_path (wc_dir (wi_cfg w)) s))"
  let ?g = "\<lambda>m. case ?y (sm_seq m) of None \<Rightarrow> [] | Some gs \<Rightarrow> gs"
  have segs: "wi_segments w = map fst (zip (wi_segments w) fss)"
    using wal_rep_lengths [OF rep] by simp
  have "concat (salvaged crc32 (wc_dir (wi_cfg w)) d) = concat (map ?g (wi_segments w))"
    unfolding salvaged_def map_filter_filter [of ?y] crash_found_segments [OF rep crash] concat_yields by (simp add: comp_def)
  also have "\<dots> = concat (map (\<lambda>(m, fs). ?g m) (zip (wi_segments w) fss))"
    by (subst segs) (simp add: comp_def case_prod_unfold)
  also have "\<dots> = concat (map2 (\<lambda>m fs. whole_frames crc32 (cutoff (sm_seq m)) fs) (wi_segments w) fss)"
    using crash_segment(3) [OF rep crash] by (intro arg_cong [where f = concat] map_cong [OF refl]) auto
  finally show ?thesis .
qed

lemma recover_after_crash:
  assumes "wal_rep crc32 w fss k" and "crash_disk crc32 w fss cutoff d" and "recover_ok env"
  shows "\<exists>w'. recover crc32 env (wi_cfg w) d m = Inr w'
     \<and> wal_holds crc32 w'
         (concat (map2 (\<lambda>sm fs. whole_frames crc32 (cutoff (sm_seq sm)) fs) (wi_segments w) fss))
     \<and> ((\<forall>(sm, fs) \<in> set (zip (wi_segments w) fss).
            length (concat (map (frame_bytes crc32) fs)) \<le> cutoff (sm_seq sm))
        \<longrightarrow> wal_holds crc32 w' (concat fss))"
proof -
  let ?fss = "map2 (\<lambda>sm fs. whole_frames crc32 (cutoff (sm_seq sm)) fs) (wi_segments w) fss"
  have canon: "canonical_dir (wc_dir (wi_cfg w)) d" using assms(2) by (simp add: crash_disk_def)
  obtain w' where w': "recover crc32 env (wi_cfg w) d m = Inr w'" "wal_rep crc32 w' (salvaged crc32 (wc_dir (wi_cfg w)) d) 0"
    using recover_rebuilds [OF assms(3) canon, of crc32 m] crash_own_or_bad [OF assms(1,2)] by auto
  from w'(2) have "wal_holds crc32 w' (concat (salvaged crc32 (wc_dir (wi_cfg w)) d))"
    unfolding wal_holds_def backlog_def by (auto simp del: drop0 intro!: exI) simp
  then have holds: "wal_holds crc32 w' (concat ?fss)" unfolding crash_salvaged [OF assms(1,2)] .
  have "?fss = fss" if "\<forall>(sm, fs) \<in> set (zip (wi_segments w) fss).
      length (concat (map (frame_bytes crc32) fs)) \<le> cutoff (sm_seq sm)"
  proof -
    have "?fss = map snd (zip (wi_segments w) fss)"
      using that by (intro map_cong refl) (auto intro!: whole_frames_all)
    then show ?thesis using wal_rep_lengths [OF assms(1)] by simp
  qed
  with w'(1) holds show ?thesis by auto
qed

text \<open>
  A log of two frames in one segment, and the disk a crash leaves of it when only the first 30
  bytes of the frames have reached the disk: the second frame is torn.
\<close>

definition torn_frames :: "DecodedFrame list" where
  "torn_frames = [\<lparr>df_batch_seq = 0, df_payload = [1, 2]\<rparr>, \<lparr>df_batch_seq = 1, df_payload = [3]\<rparr>]"

definition torn_meta :: SegmentMeta where
  "torn_meta = \<lparr>sm_seq = 0, sm_path = segment_path [''wal''] 0, sm_bytes = length (seg_image (\<lambda>_. 7) torn_frames), sm_frames = 2\<rparr>"

definition torn_scan :: recover_state where
  "torn_scan = \<lparr>rs_segments = [torn_meta], rs_total_bytes = sm_bytes torn_meta, rs_next_batch_seq = 2, rs_max_seq = 0,
     rs_disk = \<lparr>d_dirs = [[''wal'']], d_files = [(segment_path [''wal''] 0, seg_image (\<lambda>_. 7) torn_frames)]\<rparr>,
     rs_metrics = no_metrics\<rparr>"

definition torn_store :: "WalConfig \<Rightarrow> WalInner" where
  "torn_store cfg = inner_from_recovered cfg (rs_segments torn_scan)
     (Some \<lparr>as_seq = 0, as_file = segment_path [''wal''] 0, as_pos = sm_bytes torn_meta, as_offset = sm_bytes torn_meta\<rparr>)
     (rs_total_bytes torn_scan) 1 2 (rs_disk torn_scan) no_metrics"

definition torn_disk :: disk where
  "torn_disk = \<lparr>d_dirs = [[''wal'']], d_files = [(segment_path [''wal''] 0,
     encode_segment_header @ take 30 (concat (map (frame_bytes (\<lambda>_. 7)) torn_frames)))]\<rparr>"

lemma torn_store_cfg: "wi_cfg (torn_store cfg) = cfg"
  by (simp add: torn_store_def torn_scan_def inner_from_recovered_def)

lemma torn_store_rep:
  assumes "wc_dir cfg = [''wal'']"
  shows "wal_rep (\<lambda>_. 7) (torn_store cfg) [torn_frames] 0"
proof -
  have "rec_inv (\<lambda>_. 7) (wc_dir cfg) torn_scan [torn_frames]"
    by (simp add: rec_inv_def torn_scan_def torn_meta_def torn_frames_def seg_ok_def payload_ok_def assms)
  from rec_inv_wal_rep [OF this] show ?thesis
    unfolding torn_store_def by (simp add: torn_scan_def torn_meta_def)
qed

lemma torn_frames_ok: "\<forall>f \<in> set torn_frames. payload_ok (df_payload f)"
  by (simp add: torn_frames_def payload_ok_def)

lemma torn_disk_crash:
  assumes "wc_dir cfg = [''wal'']"
  shows "crash_disk (\<lambda>_. 7) (torn_store cfg) [torn_frames] (\<lambda>_. 30) torn_disk"
proof -
  have rd: "read_dir [''wal''] torn_disk = [last (segment_path [''wal''] 0)]"
    by (simp add: read_dir_def segment_path_def torn_disk_def)
  have "canonical_dir [''wal''] torn_disk"
    unfolding canonical_dir_def rd using parse_segment_path [of 0] segment_path_snoc [of "[''wal'']" 0]
    by (simp add: torn_disk_def)
  then show ?thesis
    unfolding crash_disk_def
    by (simp add: torn_store_def inner_from_recovered_def torn_scan_def torn_meta_def torn_disk_def assms
        survives_prefix torn_frames_ok)
qed

lemma torn_store_frames:
  "concat (map2 (\<lambda>sm. whole_frames (\<lambda>_. 7) ((\<lambda>_. 30) (sm_seq sm))) (wi_segments (torn_store cfg)) [torn_frames])
     = [\<lparr>df_batch_seq = 0, df_payload = [1, 2]\<rparr>]"
  by (simp add: torn_store_def inner_from_recovered_def torn_scan_def torn_frames_def length_frame_bytes
      frame_len_on_disk_def FRAME_HEADER_LEN_def)

lemma recover_env_ok_ok: "recover_ok recover_env_ok"
  by (simp add: recover_ok_def recover_env_ok_def)

text \<open>
  Another crash of the same log: the file kept its length, but of the second frame only zeros
  reached the disk.
\<close>

definition damaged_disk :: disk where
  "damaged_disk = \<lparr>d_dirs = [[''wal'']], d_files = [(segment_path [''wal''] 0,
     encode_segment_header @ take 18 (concat (map (frame_bytes (\<lambda>_. 7)) torn_frames)) @ replicate 17 0)]\<rparr>"

lemma zeros_are_no_frame: "decode_frame crc32 (pre @ replicate 17 0) (length pre) = Corrupt"
  by (simp add: decode_frame_def FRAME_HEADER_LEN_def u32_from_le_bytes_def numeral_eq_Suc Let_def)

lemma torn_whole_frames: "18 \<le> n \<Longrightarrow> n < 35 \<Longrightarrow> whole_frames (\<lambda>_. 7) n torn_frames = [\<lparr>df_batch_seq = 0, df_payload = [1, 2]\<rparr>]"
  by (simp add: torn_frames_def length_frame_bytes frame_len_on_disk_def FRAME_HEADER_LEN_def)

lemma damaged_disk_crash:
  assumes "wc_dir cfg = [''wal'']"
  shows "crash_disk (\<lambda>_. 7) (torn_store cfg) [torn_frames] (\<lambda>_. 18) damaged_disk"
proof -
  have rd: "read_dir [''wal''] damaged_disk = [last (segment_path [''wal''] 0)]"
    by (simp add: read_dir_def segment_path_def damaged_disk_def)
  have canon: "canonical_dir [''wal''] damaged_disk"
    unfolding canonical_dir_def rd using parse_segment_path [of 0] segment_path_snoc [of "[''wal'']" 0]
    by (simp add: damaged_disk_def)
  let ?fb = "concat (map (frame_bytes (\<lambda>_. 7)) torn_frames)"
  have len: "length (take 18 ?fb) = 18" "length (concat (map (frame_bytes (\<lambda>_. 7)) (whole_frames (\<lambda>_. 7) 18 torn_frames))) = 18"
    by (simp_all add: torn_whole_frames) (simp_all add: torn_frames_def length_frame_bytes frame_len_on_disk_def FRAME_HEADER_LEN_def)
  have "decode_frame (\<lambda>_. 7) ((encode_segment_header @ take 18 ?fb) @ replicate 17 0) (length (encode_segment_header @ take 18 ?fb)) = Corrupt"
    by (rule zeros_are_no_frame)
  then have "\<forall>f nxt. decode_frame (\<lambda>_. 7) (encode_segment_header @ take 18 ?fb @ replicate 17 0) (16 + 18) \<noteq> Frame f nxt"
    using len(1) by simp
  then have "survives (\<lambda>_. 7) 18 torn_frames (Some (encode_segment_header @ take 18 ?fb @ replicate 17 0))"
    unfolding survives_def len(2) by blast
  with canon show ?thesis
    unfolding crash_disk_def
    by (simp add: torn_store_def inner_from_recovered_def torn_scan_def torn_meta_def damaged_disk_def assms)
qed

text \<open>
  C7: Crash recovery.  Let the agent die at any moment with a log holding the frames \<open>fss\<close>
  (segment by segment), leaving of each segment file an intact part of any length and after it any
  bytes, cut off or damaged, in which no frame reads; or no usable header at all.  Then recovery at the
  next start succeeds, and the rebuilt log holds, in order, exactly the frames that lie completely in
  the intact parts: a torn or damaged tail is cut off and nothing else is lost; in particular everything
  is replayed if all bytes of the frames are intact.
\<close>

theorem crash_recovery_keeps_whole_frames:
  assumes "wal_rep crc32 w fss k" and "crash_disk crc32 w fss cutoff d" and "recover_ok env"
  shows "\<exists>w'. recover crc32 env (wi_cfg w) d m = Inr w'
     \<and> wal_holds crc32 w'
         (concat (map2 (\<lambda>sm fs. whole_frames crc32 (cutoff (sm_seq sm)) fs) (wi_segments w) fss))
     \<and> ((\<forall>(sm, fs) \<in> set (zip (wi_segments w) fss).
            length (concat (map (frame_bytes crc32) fs)) \<le> cutoff (sm_seq sm))
        \<longrightarrow> wal_holds crc32 w' (concat fss))"
  by (rule recover_after_crash [OF assms])

theorem crash_recovery_keeps_whole_frames_witness:
  "\<exists>w'. recover (\<lambda>_. 7) recover_env_ok sample_cfg damaged_disk no_metrics = Inr w'
     \<and> wal_holds (\<lambda>_. 7) w' [\<lparr>df_batch_seq = 0, df_payload = [1, 2]\<rparr>]"
proof -
  have dir: "wc_dir sample_cfg = [''wal'']" by (simp add: sample_cfg_def)
  have "concat (map2 (\<lambda>sm. whole_frames (\<lambda>_. 7) ((\<lambda>_. 18) (sm_seq sm))) (wi_segments (torn_store sample_cfg)) [torn_frames])
     = [\<lparr>df_batch_seq = 0, df_payload = [1, 2]\<rparr>]"
    by (simp add: torn_store_def inner_from_recovered_def torn_scan_def torn_whole_frames)
  with crash_recovery_keeps_whole_frames [OF torn_store_rep [OF dir] damaged_disk_crash [OF dir] recover_env_ok_ok, of no_metrics]
  show ?thesis unfolding torn_store_cfg by auto
qed

end
