(* ===== verification/Circuit.thy ===== *)
theory Circuit
  imports Statix_Prelude
begin

text \<open>
  The gateway-health circuit breaker of \<^verbatim>\<open>statix/src/wal/mod.rs\<close>: two atomic bytes, the state
  and the number of consecutive retryable failures, driven by the outcomes of the ingest POSTs
  and by the drainer.  The counter is kept at its width: \<^verbatim>\<open>fetch_add\<close> on an \<^verbatim>\<open>AtomicU8\<close> wraps.
\<close>

datatype CircuitState = Closed | HalfOpen | Open

fun circuit_code :: "CircuitState \<Rightarrow> u8" where
  "circuit_code Closed = 0" | "circuit_code HalfOpen = 1" | "circuit_code Open = 2"

record circuit =
  cb_circuit :: u8
  cb_failures :: u8

definition circuit_init :: circuit where
  "circuit_init = \<lparr>cb_circuit = circuit_code Closed, cb_failures = 0\<rparr>"

definition OPEN_THRESHOLD :: u32 where
  "OPEN_THRESHOLD = 3"

definition circuit_state :: "circuit \<Rightarrow> CircuitState" where
  "circuit_state c =
     (if cb_circuit c = 0 then Closed else if cb_circuit c = 1 then HalfOpen else Open)"

definition set_circuit :: "CircuitState \<Rightarrow> circuit \<Rightarrow> circuit" where
  "set_circuit st c = c\<lparr>cb_circuit := circuit_code st\<rparr>"

definition record_post_success :: "circuit \<Rightarrow> circuit" where
  "record_post_success c =
     (let c1 = c\<lparr>cb_failures := 0\<rparr>
      in if circuit_state c1 \<noteq> Closed then set_circuit Closed c1 else c1)"

definition record_post_failure :: "circuit \<Rightarrow> circuit" where
  "record_post_failure c =
     (let prev = cb_failures c;
          c1 = c\<lparr>cb_failures := prev + 1\<rparr>
      in if OPEN_THRESHOLD \<le> ucast (sat_add prev 1) \<and> circuit_state c1 \<noteq> Open
         then set_circuit Open c1 else c1)"

definition try_half_open :: "circuit \<Rightarrow> circuit" where
  "try_half_open c = (if circuit_state c = Open then set_circuit HalfOpen c else c)"

section \<open>Histories\<close>

datatype circuit_event = PostOk | PostFailed | Probe

fun circuit_apply :: "circuit_event \<Rightarrow> circuit \<Rightarrow> circuit" where
  "circuit_apply PostOk = record_post_success"
| "circuit_apply PostFailed = record_post_failure"
| "circuit_apply Probe = try_half_open"

definition circuit_run :: "circuit_event list \<Rightarrow> circuit" where
  "circuit_run es = fold circuit_apply es circuit_init"

text \<open>The length of the current run of failures: those since the last success.\<close>

fun failure_run :: "circuit_event list \<Rightarrow> nat" where
  "failure_run [] = 0"
| "failure_run (PostOk # es) = failure_run es"
| "failure_run (PostFailed # es) = (if PostOk \<in> set es then failure_run es else Suc (failure_run es))"
| "failure_run (Probe # es) = failure_run es"

lemma failure_run_snoc:
  "failure_run (es @ [e]) =
     (case e of PostOk \<Rightarrow> 0 | PostFailed \<Rightarrow> Suc (failure_run es) | Probe \<Rightarrow> failure_run es)"
proof (induction es rule: failure_run.induct)
  case (3 es)
  then show ?case by (cases e) auto
qed (cases e; simp)+

lemma set_circuit_simps [simp]:
  "circuit_state (set_circuit st c) = st" "cb_failures (set_circuit st c) = cb_failures c"
  by (cases st; simp add: circuit_state_def set_circuit_def)+

lemma circuit_state_failures [simp]: "circuit_state (c\<lparr>cb_failures := n\<rparr>) = circuit_state c"
  by (simp add: circuit_state_def)

lemma threshold_iff: "OPEN_THRESHOLD \<le> ucast (sat_add (prev :: u8) 1) \<longleftrightarrow> 2 \<le> unat prev"
proof -
  have "unat (ucast x :: u32) = unat x" for x :: u8
    using unsigned_less [of x, where 'a = nat]
    by (simp add: unsigned_ucast_eq take_bit_nat_eq_self)
  then show ?thesis
    by (simp add: OPEN_THRESHOLD_def word_le_nat_alt sat_simps)
qed

lemma circuit_run_snoc: "circuit_run (es @ [e]) = circuit_apply e (circuit_run es)"
  by (simp add: circuit_run_def)

lemma circuit_run_failures: "unat (cb_failures (circuit_run es)) = failure_run es mod 256"
proof (induction es rule: rev_induct)
  case (snoc e es)
  show ?case
  proof (cases e)
    case PostFailed
    have "cb_failures (circuit_run (es @ [e])) = cb_failures (circuit_run es) + 1"
      using PostFailed by (simp add: circuit_run_snoc record_post_failure_def Let_def)
    then have "unat (cb_failures (circuit_run (es @ [e]))) = (failure_run es mod 256 + 1) mod 256"
      using snoc by (simp add: unat_word_ariths)
    then show ?thesis using PostFailed by (simp add: failure_run_snoc mod_Suc_eq)
  qed (use snoc in \<open>simp_all add: circuit_run_snoc failure_run_snoc record_post_success_def
        try_half_open_def Let_def\<close>)
qed (simp add: circuit_run_def circuit_init_def)

lemma circuit_failed:
  "circuit_state (circuit_run (es @ [PostFailed])) = (if 2 \<le> failure_run es mod 256 then Open else circuit_state (circuit_run es))"
  by (auto simp: circuit_run_snoc record_post_failure_def Let_def threshold_iff circuit_run_failures)

lemma circuit_probed:
  "circuit_state (circuit_run (es @ [Probe])) = (if circuit_state (circuit_run es) = Open then HalfOpen else circuit_state (circuit_run es))"
  by (simp add: circuit_run_snoc try_half_open_def)

lemma circuit_closed_iff: "circuit_state (circuit_run es) = Closed \<longleftrightarrow> failure_run es < 3"
proof (induction es rule: rev_induct)
  case (snoc e es)
  then show ?case
  proof (cases e)
    case PostFailed
    then show ?thesis using snoc by (auto simp: circuit_failed failure_run_snoc split: if_splits)
  next
    case Probe
    then show ?thesis using snoc by (auto simp: circuit_probed failure_run_snoc)
  qed (simp add: circuit_run_snoc failure_run_snoc record_post_success_def Let_def)
qed (simp add: circuit_run_def circuit_init_def circuit_state_def)

lemma circuit_stays_open:
  "circuit_state (circuit_run es) = Open \<Longrightarrow> circuit_state (circuit_run (es @ replicate n PostFailed)) = Open"
proof (induction n)
  case (Suc n)
  then show ?case
    using circuit_failed [of "es @ replicate n PostFailed"]
    by (simp add: replicate_append_same [symmetric] del: replicate_append_same)
qed simp

section \<open>Properties\<close>

text \<open>
  C27: When the circuit trips and recovers.  After any history of POST outcomes and drainer
  probes, the circuit is Closed exactly if there were fewer than three failures since the last
  success, so it trips at the third and not before; a success closes it.  A failure opens it if it
  is the third or a later one of its run, modulo the wrap-around of the 8-bit counter, and otherwise leaves it as
  it was; once Open it stays so through any number of failures, until a probe, which only then makes it
  HalfOpen.
\<close>

theorem circuit_trips_and_recovers:
  "circuit_state (circuit_run (es @ [PostOk])) = Closed
   \<and> (circuit_state (circuit_run es) = Closed \<longleftrightarrow> failure_run es < 3)
   \<and> circuit_state (circuit_run (es @ [PostFailed]))
       = (if 2 \<le> failure_run es mod 256 then Open else circuit_state (circuit_run es))
   \<and> circuit_state (circuit_run (es @ [Probe]))
       = (if circuit_state (circuit_run es) = Open then HalfOpen else circuit_state (circuit_run es))
   \<and> (circuit_state (circuit_run es) = Open \<longrightarrow> circuit_state (circuit_run (es @ replicate n PostFailed)) = Open)"
proof -
  have "circuit_state (circuit_run (es @ [PostOk])) = Closed"
    by (simp add: circuit_run_snoc record_post_success_def Let_def)
  then show ?thesis using circuit_closed_iff circuit_failed circuit_probed circuit_stays_open by blast
qed

theorem circuit_trips_and_recovers_witness:
  "circuit_state (circuit_run [PostFailed, PostFailed]) = Closed
   \<and> circuit_state (circuit_run [PostFailed, PostFailed, PostFailed]) = Open
   \<and> circuit_state (circuit_run ([PostFailed, PostFailed, PostFailed] @ replicate 300 PostFailed)) = Open"
proof -
  have "circuit_state (circuit_run [PostFailed, PostFailed]) = Closed" "circuit_state (circuit_run [PostFailed, PostFailed, PostFailed]) = Open"
    using circuit_trips_and_recovers [of "[PostFailed, PostFailed]" 0] by simp_all
  moreover from this(2) have "circuit_state (circuit_run ([PostFailed, PostFailed, PostFailed] @ replicate 300 PostFailed)) = Open"
    using circuit_trips_and_recovers [of "[PostFailed, PostFailed, PostFailed]" 300] by blast
  ultimately show ?thesis by blast
qed

text \<open>
  The counter wraps.  After 256 consecutive failures and a probe, the next two failures
  leave the circuit HalfOpen: the trial's failure does not re-open it.
\<close>

theorem circuit_counter_wraps:
  "circuit_state (circuit_run (replicate 256 PostFailed @ [Probe, PostFailed])) = HalfOpen
   \<and> circuit_state (circuit_run (replicate 256 PostFailed @ [Probe, PostFailed, PostFailed])) = HalfOpen
   \<and> circuit_state (circuit_run (replicate 256 PostFailed @ [Probe, PostFailed, PostFailed, PostFailed])) = Open"
proof -
  have fr: "failure_run (replicate n PostFailed) = n" for n by (induction n) simp_all
  let ?c = "circuit_run (replicate 256 PostFailed)"
  have f: "unat (cb_failures ?c) = 0" by (simp add: circuit_run_failures fr)
  have "replicate 256 PostFailed = replicate 255 PostFailed @ [PostFailed]"
    by (simp add: replicate_append_same [symmetric] numeral_eq_Suc)
  then have o: "circuit_state ?c = Open"
    by (simp only: circuit_run_snoc)
       (simp add: record_post_failure_def Let_def threshold_iff circuit_run_failures fr)
  have "cb_failures ?c = 0" using f by (simp add: unat_eq_0)
  with o show ?thesis
    by (simp add: circuit_run_def try_half_open_def record_post_failure_def Let_def threshold_iff)
qed

end
