(* ===== verification/Channel.thy ===== *)
theory Channel
  imports Statix_Prelude
begin

text \<open>
  The bounded multi-producer channel both programs are built around (\<^verbatim>\<open>tokio::sync::mpsc\<close>): a
  FIFO buffer with a fixed capacity, which the senders use without blocking and which may be
  closed.  The agent's retry queue, the log's append queue and the gateway's row queue are
  instances.
\<close>

record 'a chan =
  ch_cap :: nat
  ch_closed :: bool
  ch_buf :: "'a list"

datatype 'a TrySendError = SendFull 'a | SendClosed 'a

definition channel :: "nat \<Rightarrow> 'a chan" where
  "channel cap = \<lparr>ch_cap = cap, ch_closed = False, ch_buf = []\<rparr>"

definition try_send :: "'a \<Rightarrow> 'a chan \<Rightarrow> 'a TrySendError + 'a chan" where
  "try_send x c =
     (if ch_closed c then Inl (SendClosed x)
      else if ch_cap c \<le> length (ch_buf c) then Inl (SendFull x)
      else Inr (c\<lparr>ch_buf := ch_buf c @ [x]\<rparr>))"

definition try_recv :: "'a chan \<Rightarrow> ('a \<times> 'a chan) option" where
  "try_recv c = (case ch_buf c of [] \<Rightarrow> None | x # xs \<Rightarrow> Some (x, c\<lparr>ch_buf := xs\<rparr>))"

definition capacity :: "'a chan \<Rightarrow> nat" where
  "capacity c = ch_cap c - length (ch_buf c)"

definition chan_ok :: "'a chan \<Rightarrow> bool" where
  "chan_ok c \<longleftrightarrow> length (ch_buf c) \<le> ch_cap c"

lemma channel_ok [simp]: "chan_ok (channel cap)"
  by (simp add: chan_ok_def channel_def)

lemma try_send_Inr:
  "try_send x c = Inr c' \<longleftrightarrow>
     \<not> ch_closed c \<and> length (ch_buf c) < ch_cap c \<and> c' = c\<lparr>ch_buf := ch_buf c @ [x]\<rparr>"
  by (auto simp: try_send_def)

lemma try_send_Full: "try_send x c = Inl (SendFull y) \<Longrightarrow> y = x \<and> ch_cap c \<le> length (ch_buf c) \<and> \<not> ch_closed c"
  by (auto simp: try_send_def split: if_splits)

lemma try_send_Closed: "try_send x c = Inl (SendClosed y) \<Longrightarrow> y = x \<and> ch_closed c"
  by (auto simp: try_send_def split: if_splits)

lemma try_recv_SomeD:
  "try_recv c = Some (x, c') \<Longrightarrow> ch_buf c = x # ch_buf c' \<and> ch_cap c' = ch_cap c \<and> ch_closed c' = ch_closed c"
  by (auto simp: try_recv_def split: list.splits)

lemma try_recv_None: "try_recv c = None \<longleftrightarrow> ch_buf c = []"
  by (simp add: try_recv_def split: list.splits)

lemma chan_ok_send: "try_send x c = Inr c' \<Longrightarrow> chan_ok c'"
  by (auto simp: try_send_Inr chan_ok_def)

lemma chan_ok_recv: "try_recv c = Some (x, c') \<Longrightarrow> chan_ok c \<Longrightarrow> chan_ok c'"
  by (auto simp: try_recv_def chan_ok_def split: list.splits)

lemmas chan_simps = try_send_Inr try_recv_None chan_ok_def capacity_def

end
