(* ===== verification/Wal_Runtime.thy ===== *)
theory Wal_Runtime
  imports Wal_Recovery Circuit Channel
begin

text \<open>
  The threads around the store: the cloneable handle \<^verbatim>\<open>Wal\<close> of \<^verbatim>\<open>wal/mod.rs\<close>, the writer thread of
  \<^verbatim>\<open>wal/writer.rs\<close> with its group commit, and the drainer task of \<^verbatim>\<open>wal/drainer.rs\<close>.  Each is a
  program counter and the steps it takes between two points where another thread can run; the
  writer holds the store's lock from its first append to its final sync.
\<close>

section \<open>The handle\<close>

definition APPEND_CHANNEL_CAPACITY :: nat where
  "APPEND_CHANNEL_CAPACITY = 256"

record wal_handle =
  wh_enabled :: bool
  wh_append :: "bytes chan"

definition try_append :: "bytes \<Rightarrow> wal_handle \<Rightarrow> bytes + wal_handle" where
  "try_append pl h =
     (if \<not> wh_enabled h then Inl pl
      else case try_send pl (wh_append h) of
             Inr c \<Rightarrow> Inr (h\<lparr>wh_append := c\<rparr>)
           | Inl (SendFull p) \<Rightarrow> Inl p
           | Inl (SendClosed p) \<Rightarrow> Inl p)"

definition Wal_open ::
  "(bytes \<Rightarrow> u32) \<Rightarrow> recover_env \<Rightarrow> WalConfig \<Rightarrow> disk \<Rightarrow> wal_metrics \<Rightarrow> io_error + (wal_handle \<times> WalInner)" where
  "Wal_open crc32 env cfg d m =
     (case recover crc32 env cfg d m of
        Inl e \<Rightarrow> Inl e
      | Inr w \<Rightarrow> Inr (\<lparr>wh_enabled = wc_enabled cfg, wh_append = channel APPEND_CHANNEL_CAPACITY\<rparr>, w))"

section \<open>The writer thread\<close>

text \<open>Waiting for a payload, or draining the channel with the lock held and \<open>n\<close> frames unsynced.\<close>

datatype writer_pc = WRecv | WDrain nat

definition writer_sync :: "bool \<Rightarrow> WalInner \<Rightarrow> WalInner" where
  "writer_sync fdatasync_ok w =
     (if wi_active w \<noteq> None \<and> \<not> fdatasync_ok
      then w\<lparr>wi_metrics := (wi_metrics w)\<lparr>m_write_errors := m_write_errors (wi_metrics w) + 1\<rparr>\<rparr>
      else w)"

text \<open>
  One iteration: \<open>elapsed\<close> says whether the sync interval has passed, \<open>sync_ok\<close> whether an
  \<^verbatim>\<open>fdatasync\<close> of this step succeeds.  \<open>None\<close> means that the thread is blocked.
\<close>

definition writer_step ::
  "(bytes \<Rightarrow> u32) \<Rightarrow> io_env \<Rightarrow> bool \<Rightarrow> bool \<Rightarrow> writer_pc \<Rightarrow> wal_handle \<Rightarrow> WalInner
   \<Rightarrow> (writer_pc \<times> wal_handle \<times> WalInner) option" where
  "writer_step crc32 env elapsed sync_ok pc h w =
     (case (pc, try_recv (wh_append h)) of
        (WRecv, None) \<Rightarrow> None
      | (WRecv, Some (pl, c)) \<Rightarrow>
          Some (WDrain 1, h\<lparr>wh_append := c\<rparr>, append_one crc32 env pl w)
      | (WDrain n, Some (pl, c)) \<Rightarrow>
          (let w1 = append_one crc32 env pl w; n1 = n + 1
           in if wc_fsync_frames (wi_cfg w1) \<le> n1 \<or> elapsed
              then Some (WDrain 0, h\<lparr>wh_append := c\<rparr>, writer_sync sync_ok w1)
              else Some (WDrain n1, h\<lparr>wh_append := c\<rparr>, w1))
      | (WDrain n, None) \<Rightarrow>
          Some (WRecv, h, if n > 0 then writer_sync sync_ok w else w))"

section \<open>The drainer task\<close>

text \<open>
  The flag of a replay says whether it is part of the drain loop (circuit Closed) or a trial
  (circuit HalfOpen).
\<close>

datatype drainer_pc =
    DSleep
  | DSpread
  | DCheck bool
  | DLoop
  | DPeek bool
  | DSend bool bytes
  | DCommit bool bytes

text \<open>
  One step of \<^verbatim>\<open>spawn_drainer\<close> and \<^verbatim>\<open>replay_one\<close>: the circuit, the retry queue and the store are
  read and written where the code does.
\<close>

definition drainer_step ::
  "(bytes \<Rightarrow> u32) \<Rightarrow> io_env \<Rightarrow> drainer_pc \<Rightarrow> circuit \<Rightarrow> bytes chan \<Rightarrow> WalInner
   \<Rightarrow> drainer_pc \<times> circuit \<times> bytes chan \<times> WalInner" where
  "drainer_step crc32 env pc cb rq w =
     (case pc of
        DSleep \<Rightarrow>
          (case circuit_state cb of
             Open \<Rightarrow> (DSpread, cb, rq, w)
           | HalfOpen \<Rightarrow> (DCheck False, cb, rq, w)
           | Closed \<Rightarrow> (DCheck True, cb, rq, w))
      | DSpread \<Rightarrow> (DSleep, try_half_open cb, rq, w)
      | DCheck loop \<Rightarrow>
          (if has_backlog w then (if loop then DLoop else DPeek False, cb, rq, w)
           else (DSleep, cb, rq, w))
      | DLoop \<Rightarrow>
          (if capacity rq = 0 \<or> circuit_state cb \<noteq> Closed then (DSleep, cb, rq, w)
           else (DPeek True, cb, rq, w))
      | DPeek loop \<Rightarrow>
          (case peek_next crc32 env w of
             (Inr (Some f), w1) \<Rightarrow> (DSend loop (df_payload f), cb, rq, w1)
           | (_, w1) \<Rightarrow> (DSleep, cb, rq, w1))
      | DSend loop pl \<Rightarrow>
          (case try_send pl rq of
             Inr rq1 \<Rightarrow> (DCommit loop pl, cb, rq1, w)
           | Inl _ \<Rightarrow> (DSleep, cb, rq, w))
      | DCommit loop pl \<Rightarrow> (if loop then DLoop else DSleep, cb, rq, commit_pending w))"

text \<open>The steps that take the store's lock.\<close>

fun drainer_locks :: "drainer_pc \<Rightarrow> bool" where
  "drainer_locks (DCheck _) = True"
| "drainer_locks (DPeek _) = True"
| "drainer_locks (DCommit _ _) = True"
| "drainer_locks _ = False"

lemma try_append_Inr:
  "try_append pl h = Inr h' \<longleftrightarrow> wh_enabled h \<and> (\<exists>c. try_send pl (wh_append h) = Inr c \<and> h' = h\<lparr>wh_append := c\<rparr>)"
  by (auto simp: try_append_def split: sum.splits TrySendError.splits)

lemma try_append_Inl: "try_append pl h = Inl p \<Longrightarrow> p = pl"
  by (auto simp: try_append_def try_send_def split: sum.splits TrySendError.splits if_splits)

lemma writer_sync_fields [simp]:
  "wi_cfg (writer_sync ok w) = wi_cfg w" "wi_pending_advance (writer_sync ok w) = wi_pending_advance w"
  by (simp_all add: writer_sync_def)

lemma writer_sync_holds: "wal_holds crc32 (writer_sync ok w) q \<longleftrightarrow> wal_holds crc32 w q"
  by (simp add: writer_sync_def wal_holds_def)

lemma writer_sync_lost: "wal_lost w \<le> wal_lost (writer_sync ok w)"
  by (simp add: writer_sync_def wal_lost_def)

end
