(* ===== verification/Output.thy ===== *)
theory Output
  imports Wal_Runtime Env "HOL-Library.Multiset"
begin

text \<open>
  The agent's output stage, \<^verbatim>\<open>statix/src/output.rs\<close>: the hot-path enqueue of a serialised batch
  with its fallbacks (retry queue, disk spill, drop-oldest), the retry worker with its backoff,
  the classification of POST outcomes and the emission of a window.  The HTTP client and the
  JSON serialiser are not part of the program: a response is an input, the serialiser is a
  parameter.
\<close>

section \<open>Configuration\<close>

definition SCHEMA_VERSION :: nat where
  "SCHEMA_VERSION = 4"

definition RETRY_QUEUE_CAPACITY :: nat where
  "RETRY_QUEUE_CAPACITY = 60"

definition read_node_name_for_retry_worker :: "environ \<Rightarrow> string option \<Rightarrow> string" where
  "read_node_name_for_retry_worker env hostname_file =
     (case var env ''STATIX_NODE_NAME'' of
        Some n \<Rightarrow> n
      | None \<Rightarrow>
          (case env ''NODE_NAME'' of
             Some n \<Rightarrow> n
           | None \<Rightarrow> (case hostname_file of Some s \<Rightarrow> trim s | None \<Rightarrow> ''localhost'')))"

definition read_http_timeout_secs :: "environ \<Rightarrow> nat" where
  "read_http_timeout_secs env = read_env_u64 env ''STATIX_HTTP_TIMEOUT_SECS'' 5"

definition read_http_pool_idle_secs :: "environ \<Rightarrow> nat" where
  "read_http_pool_idle_secs env = read_env_u64 env ''STATIX_HTTP_POOL_IDLE_SECS'' 55"

definition is_http_ingest :: "environ \<Rightarrow> bool" where
  "is_http_ingest env = (var env ''STATIX_INGEST_URL'' \<noteq> None)"

section \<open>POST outcomes\<close>

datatype PostOutcome = Success | Retryable string | NonRetryable nat

definition is_retryable_status :: "nat \<Rightarrow> bool" where
  "is_retryable_status status \<longleftrightarrow> status = 429 \<or> 500 \<le> status \<and> status \<le> 599"

text \<open>The response is a transport error or a status code; \<open>display\<close> is the text the HTTP library prints for a code.\<close>

definition post_ingest :: "(nat \<Rightarrow> string) \<Rightarrow> bool \<Rightarrow> string + nat \<Rightarrow> PostOutcome" where
  "post_ingest display client_initialised response =
     (if \<not> client_initialised then Retryable ''HTTP client not initialized''
      else case response of
             Inl e \<Rightarrow> Retryable e
           | Inr status \<Rightarrow>
               if 200 \<le> status \<and> status \<le> 299 then Success
               else if is_retryable_status status then Retryable (''HTTP '' @ display status)
               else NonRetryable status)"

section \<open>Retry worker\<close>

text \<open>The body being posted, if any, and the backoff in seconds.\<close>

record retry_worker =
  rw_body :: "bytes option"
  rw_backoff :: u64
  rw_initial :: u64
  rw_max :: u64

definition init_retry_worker :: "environ \<Rightarrow> retry_worker" where
  "init_retry_worker env =
     (let initial_backoff = word_of_nat (read_env_u64 env ''STATIX_BACKOFF_INITIAL_SECS'' 1);
          max_backoff = max (word_of_nat (read_env_u64 env ''STATIX_BACKOFF_MAX_SECS'' 30)) initial_backoff
      in \<lparr>rw_body = None, rw_backoff = initial_backoff, rw_initial = initial_backoff, rw_max = max_backoff\<rparr>)"

text \<open>The worker takes the next body off the queue; \<open>None\<close> means that it waits.\<close>

definition worker_recv :: "retry_worker \<Rightarrow> bytes chan \<Rightarrow> (retry_worker \<times> bytes chan) option" where
  "worker_recv rw rq =
     (if rw_body rw \<noteq> None then None
      else case try_recv rq of
             None \<Rightarrow> None
           | Some (b, rq1) \<Rightarrow> Some (rw\<lparr>rw_body := Some b\<rparr>, rq1))"

definition worker_outcome :: "PostOutcome \<Rightarrow> retry_worker \<Rightarrow> circuit \<Rightarrow> retry_worker \<times> circuit" where
  "worker_outcome out rw cb =
     (case out of
        Success \<Rightarrow> (rw\<lparr>rw_body := None, rw_backoff := rw_initial rw\<rparr>, record_post_success cb)
      | Retryable _ \<Rightarrow> (rw\<lparr>rw_backoff := min (rw_backoff rw * 2) (rw_max rw)\<rparr>, record_post_failure cb)
      | NonRetryable _ \<Rightarrow> (rw\<lparr>rw_body := None, rw_backoff := rw_initial rw\<rparr>, record_post_success cb))"

section \<open>Enqueueing a batch\<close>

text \<open>
  The static cells (\<^verbatim>\<open>RETRY_TX\<close>, \<^verbatim>\<open>RETRY_RX\<close>, \<^verbatim>\<open>WAL\<close>) are arguments; \<open>locked\<close> says that the retry
  worker holds the receiver's lock.  The last result lists the batches dropped by the call.  The call is one
  step: only the main loop enqueues, and a worker that takes a batch in between can only make room.
\<close>

definition enqueue_batch_json ::
  "bool \<Rightarrow> bool \<Rightarrow> bytes \<Rightarrow> bytes chan option \<Rightarrow> wal_handle option
   \<Rightarrow> bytes chan option \<times> wal_handle option \<times> bytes list" where
  "enqueue_batch_json rx_set locked json tx wal =
     (case tx of
        None \<Rightarrow> (tx, wal, [json])
      | Some rq \<Rightarrow>
          (case try_send json rq of
             Inr rq1 \<Rightarrow> (Some rq1, wal, [])
           | Inl (SendClosed json) \<Rightarrow> (tx, wal, [json])
           | Inl (SendFull json) \<Rightarrow>
               (case (case wal of None \<Rightarrow> Inl json | Some h \<Rightarrow> try_append json h) of
                  Inr h1 \<Rightarrow> (tx, Some h1, [])
                | Inl json \<Rightarrow>
                    if \<not> rx_set then (tx, wal, [json])
                    else if locked then (tx, wal, [json])
                    else
                      let (rq1, old) = (case try_recv rq of None \<Rightarrow> (rq, []) | Some (b, r) \<Rightarrow> (r, [b]))
                      in case try_send json rq1 of
                           Inr rq2 \<Rightarrow> (Some rq2, wal, old)
                         | Inl _ \<Rightarrow> (Some rq1, wal, old @ [json]))))"

section \<open>Properties\<close>

text \<open>Both queues are full: the batch is dropped, or takes the place of the oldest one.\<close>

lemma enqueue_full:
  assumes "try_send json rq = Inl (SendFull json)" and "(case wal of None \<Rightarrow> Inl json | Some h \<Rightarrow> try_append json h) = Inl json"
    and "enqueue_batch_json rx_set locked json (Some rq) wal = (Some rq', wal', dropped)"
  shows "wal' = wal \<and> mset (ch_buf rq') + mset dropped = add_mset json (mset (ch_buf rq))"
proof -
  note eqs = assms(3) [unfolded enqueue_batch_json_def option.case assms(1,2) sum.case TrySendError.case]
  show ?thesis
  proof (cases "rx_set \<and> \<not> locked")
    case False
    with eqs show ?thesis by (auto split: if_splits)
  next
    case True
    show ?thesis
    proof (cases "try_recv rq")
      case None
      with True eqs assms(1) show ?thesis by simp
    next
      case (Some br)
      obtain b r where br: "br = (b, r)" by (cases br)
      with Some have "ch_buf rq = b # ch_buf r" by (simp add: try_recv_SomeD)
      with True eqs Some br show ?thesis
        by (cases "try_send json r") (auto simp: try_send_Inr)
    qed
  qed
qed

lemma enqueue_conserves:
  assumes "enqueue_batch_json rx_set locked json (Some rq) wal = (Some rq', wal', dropped)"
  shows "mset (ch_buf rq') + mset (case wal' of None \<Rightarrow> [] | Some h \<Rightarrow> ch_buf (wh_append h)) + mset dropped
     = add_mset json (mset (ch_buf rq) + mset (case wal of None \<Rightarrow> [] | Some h \<Rightarrow> ch_buf (wh_append h)))"
proof -
  let ?t = "case wal of None \<Rightarrow> Inl json | Some h \<Rightarrow> try_append json h"
  consider rq1 where "try_send json rq = Inr rq1" | j where "try_send json rq = Inl (SendClosed j)"
    | (spill) h1 where "try_send json rq = Inl (SendFull json)" "?t = Inr h1"
    | (full) "try_send json rq = Inl (SendFull json)" "?t = Inl json"
  proof (cases "try_send json rq")
    case (Inl e)
    moreover have "?t = Inl k \<Longrightarrow> k = json" for k by (auto split: option.splits dest: try_append_Inl)
    moreover have "e = SendFull j \<Longrightarrow> j = json" for j using Inl try_send_Full by fastforce
    ultimately show thesis using that by (cases e; cases ?t) auto
  qed
  then show ?thesis
  proof cases
    case 1
    with assms show ?thesis by (auto simp: enqueue_batch_json_def try_send_Inr)
  next
    case 2
    with assms try_send_Closed show ?thesis by (fastforce simp: enqueue_batch_json_def)
  next
    case (spill h1)
    then obtain h c where "wal = Some h" "try_send json (wh_append h) = Inr c" "h1 = h\<lparr>wh_append := c\<rparr>"
      by (auto simp: try_append_Inr split: option.splits)
    with spill assms show ?thesis by (auto simp: enqueue_batch_json_def try_send_Inr)
  next
    case full
    from enqueue_full [OF full assms] show ?thesis by (auto simp: ac_simps)
  qed
qed



text \<open>
  The backoff stays within its bounds.  Starting from the configured backoff, after any
  sequence of POST outcomes the worker's backoff lies between the initial and the maximal one,
  provided doubling the maximum does not overflow 64 bits.
\<close>

theorem backoff_bounded:
  assumes "rw = fst (fold (\<lambda>out (rw, cb). worker_outcome out rw cb) outs (init_retry_worker env, cb))"
    and "unat (rw_max (init_retry_worker env)) < 2 ^ 63"
  shows "rw_initial (init_retry_worker env) \<le> rw_backoff rw \<and> rw_backoff rw \<le> rw_max (init_retry_worker env)"
proof -
  let ?i = "rw_initial (init_retry_worker env)" and ?m = "rw_max (init_retry_worker env)"
  let ?run = "fold (\<lambda>out (rw, cb). worker_outcome out rw cb) outs (init_retry_worker env, cb)"
  have im: "?i \<le> ?m" by (simp add: init_retry_worker_def Let_def)
  have dbl: "?i \<le> min (b * 2) ?m" if "?i \<le> b" "b \<le> ?m" for b
  proof -
    have "unat b < 2 ^ 63" using that(2) assms(2) by (simp add: word_le_nat_alt)
    then have "unat (b * 2) = unat b * 2" by (simp add: unat_word_ariths)
    then have "b \<le> b * 2" by (simp add: word_le_nat_alt)
    with that im show ?thesis by simp
  qed
  have "rw_initial (fst ?run) = ?i \<and> rw_max (fst ?run) = ?m
      \<and> ?i \<le> rw_backoff (fst ?run) \<and> rw_backoff (fst ?run) \<le> ?m"
  proof (induction outs rule: rev_induct)
    case Nil
    then show ?case using im by (simp add: init_retry_worker_def Let_def)
  next
    case (snoc out outs)
    then show ?case using im dbl
      by (cases out) (auto simp: worker_outcome_def split_beta)
  qed
  with assms(1) show ?thesis by simp
qed

theorem backoff_bounded_witness:
  "rw_backoff (fst (fold (\<lambda>out (rw, cb). worker_outcome out rw cb)
      [Retryable ''HTTP 503'', Retryable ''HTTP 503'', Success] (init_retry_worker (\<lambda>_. None), circuit_init))) \<le> 30"
proof -
  have m: "rw_max (init_retry_worker (\<lambda>_. None)) = 30"
    by (simp add: init_retry_worker_def read_env_u64_def read_env_positive_def var_def var_with_legacy_def Let_def)
  have "unat (rw_max (init_retry_worker (\<lambda>_. None))) < 2 ^ 63" unfolding m by simp
  from backoff_bounded [OF refl this, THEN conjunct2, unfolded m] show ?thesis .
qed

end
