(* ===== verification/Pipeline.thy ===== *)
theory Pipeline
  imports Output
begin

text \<open>
  The delivery pipeline of the agent: the hot path that emits batches, the log's writer thread,
  the drainer and the retry worker, interleaved step by step over the shared retry queue,
  append queue, store and circuit.  The state also records, for the statements, the batches
  emitted, delivered, rejected by the gateway and dropped from the queues.
\<close>

section \<open>State and steps\<close>

record agent =
  ag_retry :: "bytes chan"
  ag_handle :: "wal_handle option"
  ag_store :: WalInner
  ag_writer :: writer_pc
  ag_drainer :: drainer_pc
  ag_worker :: retry_worker
  ag_circuit :: circuit
  ag_emitted :: "bytes list"
  ag_delivered :: "bytes list"
  ag_rejected :: "bytes list"
  ag_dropped :: "bytes list"

text \<open>
  The worker holds the receiver's lock only while it waits for a body; emitted payloads are
  ones the log can store, and the truncation that repairs a failed append succeeds.
\<close>

inductive agent_step :: "(bytes \<Rightarrow> u32) \<Rightarrow> agent \<Rightarrow> agent \<Rightarrow> bool" for crc32 where
  emit: "payload_ok json \<Longrightarrow> locked \<longrightarrow> rw_body (ag_worker a) = None \<Longrightarrow>
     enqueue_batch_json True locked json (Some (ag_retry a)) (ag_handle a) = (Some rq, h, dr) \<Longrightarrow>
     agent_step crc32 a (a\<lparr>ag_retry := rq, ag_handle := h, ag_emitted := ag_emitted a @ [json],
                           ag_dropped := ag_dropped a @ dr\<rparr>)"
| writer: "ag_handle a = Some h \<Longrightarrow> io_set_len env \<Longrightarrow> io_seek env \<Longrightarrow>
     writer_step crc32 env elapsed sync_ok (ag_writer a) h (ag_store a) = Some (pc, h', w) \<Longrightarrow>
     agent_step crc32 a (a\<lparr>ag_writer := pc, ag_handle := Some h', ag_store := w\<rparr>)"
| drainer: "ag_handle a = Some h \<Longrightarrow> drainer_locks (ag_drainer a) \<longrightarrow> ag_writer a = WRecv \<Longrightarrow>
     drainer_step crc32 env (ag_drainer a) (ag_circuit a) (ag_retry a) (ag_store a) = (pc, cb, rq, w) \<Longrightarrow>
     agent_step crc32 a (a\<lparr>ag_drainer := pc, ag_circuit := cb, ag_retry := rq, ag_store := w\<rparr>)"
| take_body: "worker_recv (ag_worker a) (ag_retry a) = Some (rw, rq) \<Longrightarrow>
     agent_step crc32 a (a\<lparr>ag_worker := rw, ag_retry := rq\<rparr>)"
| post: "rw_body (ag_worker a) = Some b \<Longrightarrow> out = post_ingest display True response \<Longrightarrow>
     worker_outcome out (ag_worker a) (ag_circuit a) = (rw, cb) \<Longrightarrow>
     agent_step crc32 a
       (a\<lparr>ag_worker := rw, ag_circuit := cb,
          ag_delivered := (if out = Success then ag_delivered a @ [b] else ag_delivered a),
          ag_rejected := (case out of NonRetryable _ \<Rightarrow> ag_rejected a @ [b] | _ \<Rightarrow> ag_rejected a)\<rparr>)"

text \<open>
  An agent at its start: empty queues, idle tasks, and the log as recovery left it; the frames
  left over from the previous run count as emitted.
\<close>

definition agent_start :: "(bytes \<Rightarrow> u32) \<Rightarrow> agent \<Rightarrow> bool" where
  "agent_start crc32 a \<longleftrightarrow>
     ag_retry a = channel RETRY_QUEUE_CAPACITY
     \<and> (\<forall>h. ag_handle a = Some h \<longrightarrow> wh_append h = channel APPEND_CHANNEL_CAPACITY)
     \<and> (\<exists>q. wal_holds crc32 (ag_store a) q \<and> ag_emitted a = map df_payload q)
     \<and> wi_pending_advance (ag_store a) = None
     \<and> ag_writer a = WRecv \<and> ag_drainer a = DSleep \<and> rw_body (ag_worker a) = None
     \<and> ag_delivered a = [] \<and> ag_rejected a = [] \<and> ag_dropped a = []"

definition agent_reachable :: "(bytes \<Rightarrow> u32) \<Rightarrow> agent \<Rightarrow> bool" where
  "agent_reachable crc32 a \<longleftrightarrow> (\<exists>a0. agent_start crc32 a0 \<and> (agent_step crc32)\<^sup>*\<^sup>* a0 a)"

section \<open>Accounting\<close>

definition append_buf :: "agent \<Rightarrow> bytes list" where
  "append_buf a = (case ag_handle a of None \<Rightarrow> [] | Some h \<Rightarrow> ch_buf (wh_append h))"

text \<open>Where a batch is, if it is not on disk.\<close>

definition in_memory :: "agent \<Rightarrow> bytes multiset" where
  "in_memory a = mset (ch_buf (ag_retry a)) + mset (append_buf a)
     + (case rw_body (ag_worker a) of None \<Rightarrow> {#} | Some b \<Rightarrow> {#b#})"

definition settled :: "agent \<Rightarrow> bytes multiset" where
  "settled a = mset (ag_delivered a) + mset (ag_rejected a) + mset (ag_dropped a)"

text \<open>The batch that is both in the retry queue and still on disk, between send and commit.\<close>

definition in_transit :: "agent \<Rightarrow> bytes multiset" where
  "in_transit a = (case ag_drainer a of
     DCommit _ p \<Rightarrow> if wi_pending_advance (ag_store a) \<noteq> None then {#p#} else {#} | _ \<Rightarrow> {#})"

definition chans_ok :: "agent \<Rightarrow> bool" where
  "chans_ok a \<longleftrightarrow>
     ch_cap (ag_retry a) = RETRY_QUEUE_CAPACITY \<and> chan_ok (ag_retry a)
     \<and> (\<forall>h. ag_handle a = Some h \<longrightarrow> ch_cap (wh_append h) = APPEND_CHANNEL_CAPACITY \<and> chan_ok (wh_append h))
     \<and> (\<forall>p \<in># in_memory a. payload_ok p)"

definition marked :: "agent \<Rightarrow> DecodedFrame list \<Rightarrow> bool" where
  "marked a q \<longleftrightarrow> (case ag_drainer a of
       DSend _ p \<Rightarrow> payload_ok p \<and> (wi_pending_advance (ag_store a) \<noteq> None \<longrightarrow> q \<noteq> [] \<and> df_payload (hd q) = p)
     | DCommit _ p \<Rightarrow> wi_pending_advance (ag_store a) \<noteq> None \<longrightarrow> q \<noteq> [] \<and> df_payload (hd q) = p
     | _ \<Rightarrow> True)"

definition accounts :: "(bytes \<Rightarrow> u32) \<Rightarrow> agent \<Rightarrow> DecodedFrame list \<Rightarrow> bytes multiset \<Rightarrow> bool" where
  "accounts crc32 a q lost \<longleftrightarrow>
     chans_ok a \<and> wal_holds crc32 (ag_store a) q \<and> marked a q \<and> size lost \<le> wal_lost (ag_store a)
     \<and> mset (ag_emitted a) + in_transit a
       \<subseteq># settled a + in_memory a + mset (map df_payload q) + lost"

lemma wal_holds_payload_ok: "wal_holds crc32 w q \<Longrightarrow> f \<in> set q \<Longrightarrow> payload_ok (df_payload f)"
proof -
  assume "wal_holds crc32 w q" "f \<in> set q"
  then obtain fss k where "wal_rep crc32 w fss k" "f \<in> set (concat fss)"
    by (auto simp: wal_holds_def backlog_def dest: in_set_dropD)
  then show "payload_ok (df_payload f)"
    by (fastforce simp: wal_rep_def segs_rep_def seg_ok_def list_all2_conv_all_nth in_set_conv_nth [of _ fss])
qed


section \<open>Each step keeps the accounts\<close>

lemma enqueue_caps:
  assumes "enqueue_batch_json rx locked json (Some rq) h = (Some rq', h', dr)" and "chan_ok rq"
  shows "ch_cap rq' = ch_cap rq \<and> chan_ok rq'"
    and "\<And>g'. h' = Some g' \<Longrightarrow> \<exists>g. h = Some g \<and> ch_cap (wh_append g') = ch_cap (wh_append g)
           \<and> (chan_ok (wh_append g) \<longrightarrow> chan_ok (wh_append g'))"
proof -
  have recv: "try_recv rq = Some (b, r) \<Longrightarrow> ch_cap r = ch_cap rq \<and> chan_ok r" for b r
    using assms(2) by (auto dest: try_recv_SomeD chan_ok_recv)
  have send: "try_send x c = Inr c' \<Longrightarrow> ch_cap c' = ch_cap c \<and> chan_ok c'" for x :: bytes and c c'
    by (auto simp: try_send_Inr chan_ok_def)
  show "ch_cap rq' = ch_cap rq \<and> chan_ok rq'"
    using assms unfolding enqueue_batch_json_def
    by (auto simp: Let_def send dest!: recv split: sum.splits TrySendError.splits option.splits if_splits)
  show "\<exists>g. h = Some g \<and> ch_cap (wh_append g') = ch_cap (wh_append g)
           \<and> (chan_ok (wh_append g) \<longrightarrow> chan_ok (wh_append g'))" if "h' = Some g'" for g'
    using assms(1) that unfolding enqueue_batch_json_def
    by (auto simp: Let_def try_append_Inr send dest!: send split: sum.splits TrySendError.splits option.splits if_splits)
qed

lemma drainer_cong:
  assumes "ag_drainer a' = ag_drainer a" and "ag_store a' = ag_store a"
  shows "marked a' q = marked a q" and "in_transit a' = in_transit a"
  unfolding marked_def in_transit_def assms by (rule refl)+

lemma in_memory_payloads:
  "(\<forall>p \<in># in_memory a. payload_ok p) \<longleftrightarrow>
     (\<forall>p \<in> set (ch_buf (ag_retry a)). payload_ok p) \<and> (\<forall>p \<in> set (append_buf a). payload_ok p)
     \<and> (\<forall>b. rw_body (ag_worker a) = Some b \<longrightarrow> payload_ok b)"
  by (auto simp: in_memory_def split: option.splits)

lemma emit_accounts:
  assumes acc: "accounts crc32 a q lost" and json: "payload_ok json"
    and enq: "enqueue_batch_json True locked json (Some (ag_retry a)) (ag_handle a) = (Some rq, h, dr)"
    and a': "a' = a\<lparr>ag_retry := rq, ag_handle := h, ag_emitted := ag_emitted a @ [json],
                     ag_dropped := ag_dropped a @ dr\<rparr>"
  shows "accounts crc32 a' q lost"
proof -
  have ok: "chans_ok a" using acc by (simp add: accounts_def)
  let ?b = "\<lambda>h. mset (case h of None \<Rightarrow> [] | Some h \<Rightarrow> ch_buf (wh_append h))"
  have con: "mset (ch_buf rq) + ?b h + mset dr = add_mset json (mset (ch_buf (ag_retry a)) + ?b (ag_handle a))"
    by (rule enqueue_conserves [OF enq])
  have mem: "in_memory a' + mset dr = add_mset json (in_memory a)"
    using con by (simp add: in_memory_def append_buf_def a' ac_simps)
  then have sum: "settled a' + in_memory a' = add_mset json (settled a + in_memory a)"
    by (simp add: settled_def a' ac_simps)
  have "\<forall>p \<in># in_memory a'. payload_ok p"
    using ok json mem by (metis (no_types, lifting) chans_ok_def insert_iff set_mset_add_mset_insert union_iff)
  moreover have "chan_ok (ag_retry a)" using ok by (simp add: chans_ok_def)
  note caps = enqueue_caps [OF enq this]
  ultimately have "chans_ok a'"
    using ok caps unfolding chans_ok_def by (auto simp: a')
  moreover have st: "ag_store a' = ag_store a" by (simp_all add: a')
  moreover have "marked a' q" "in_transit a' = in_transit a"
    using acc drainer_cong [OF _ st(1)] by (simp_all add: accounts_def a')
  moreover have "mset (ag_emitted a') = add_mset json (mset (ag_emitted a))" by (simp add: a')
  ultimately show ?thesis
    using acc sum by (simp add: accounts_def ac_simps)
qed

lemma post_accounts:
  assumes acc: "accounts crc32 a q lost" and b: "rw_body (ag_worker a) = Some b"
    and out: "worker_outcome out (ag_worker a) (ag_circuit a) = (rw, cb)"
    and a': "a' = a\<lparr>ag_worker := rw, ag_circuit := cb,
          ag_delivered := (if out = Success then ag_delivered a @ [b] else ag_delivered a),
          ag_rejected := (case out of NonRetryable _ \<Rightarrow> ag_rejected a @ [b] | _ \<Rightarrow> ag_rejected a)\<rparr>"
  shows "accounts crc32 a' q lost"
proof -
  have "settled a' + in_memory a' = settled a + in_memory a"
    using b out by (cases out) (auto simp: settled_def in_memory_def append_buf_def a' worker_outcome_def)
  moreover have "chans_ok a'"
    using acc out by (cases out) (auto simp: accounts_def chans_ok_def in_memory_payloads append_buf_def a' worker_outcome_def)
  moreover have st: "ag_store a' = ag_store a" "ag_emitted a' = ag_emitted a" by (simp_all add: a')
  moreover have "marked a' q" "in_transit a' = in_transit a"
    using acc drainer_cong [OF _ st(1)] by (simp_all add: accounts_def a')
  ultimately show ?thesis using acc by (simp add: accounts_def)
qed

lemma take_body_accounts:
  assumes acc: "accounts crc32 a q lost" and rv: "worker_recv (ag_worker a) (ag_retry a) = Some (rw, rq)"
    and a': "a' = a\<lparr>ag_worker := rw, ag_retry := rq\<rparr>"
  shows "accounts crc32 a' q lost"
proof -
  obtain b where b: "try_recv (ag_retry a) = Some (b, rq)" "rw = (ag_worker a)\<lparr>rw_body := Some b\<rparr>" "rw_body (ag_worker a) = None"
    using rv by (auto simp: worker_recv_def split: if_splits option.splits)
  note d = try_recv_SomeD [OF b(1)]
  have "settled a' + in_memory a' = settled a + in_memory a"
    using b d by (simp add: settled_def in_memory_def append_buf_def a')
  moreover have "chans_ok a'"
    using acc b d by (auto simp: accounts_def chans_ok_def in_memory_payloads append_buf_def a' chan_ok_def)
  moreover have st: "ag_store a' = ag_store a" "ag_emitted a' = ag_emitted a" by (simp_all add: a')
  moreover have "marked a' q" "in_transit a' = in_transit a"
    using acc drainer_cong [OF _ st(1)] by (simp_all add: accounts_def a')
  ultimately show ?thesis using acc by (simp add: accounts_def)
qed

text \<open>One append, seen as an exchange between the accounts.\<close>

lemma append_exchange:
  assumes "wal_holds crc32 w q" and "append_accepts (env, pl)" and "size lost \<le> wal_lost w"
    and w': "w' = append_one crc32 env pl w"
  obtains q' lost' where "wal_holds crc32 w' q'" and "size lost' \<le> wal_lost w'"
    and "mset (map df_payload q') + lost' = add_mset pl (mset (map df_payload q) + lost)"
    and "wi_pending_advance w' \<noteq> None \<Longrightarrow> wi_pending_advance w \<noteq> None \<and> (q \<noteq> [] \<longrightarrow> q' \<noteq> [] \<and> hd q' = hd q)"
proof -
  obtain n where n: "n \<le> length q" "wi_pending_advance w' \<noteq> None \<longrightarrow> n = 0 \<and> wi_pending_advance w \<noteq> None"
    and res: "(\<exists>f. df_payload f = pl \<and> wal_holds crc32 w' (drop n q @ [f])) \<and> wal_lost w + n \<le> wal_lost w'
       \<or> wal_holds crc32 w' (drop n q) \<and> wal_lost w + n + 1 \<le> wal_lost w'"
    using wal.put_law [OF assms(1,2)] by (auto simp: w')
  define gone where "gone = mset (map df_payload (take n q))"
  have split: "mset (map df_payload q) = gone + mset (map df_payload (drop n q))"
    unfolding gone_def by (metis append_take_drop_id map_append mset_append)
  have sz: "size gone = n" using n(1) by (simp add: gone_def)
  from res show thesis
  proof (elim disjE conjE exE)
    fix f assume f: "df_payload f = pl" "wal_holds crc32 w' (drop n q @ [f])" "wal_lost w + n \<le> wal_lost w'"
    have "mset (map df_payload (drop n q @ [f])) + (lost + gone) = add_mset pl (mset (map df_payload q) + lost)"
      unfolding split using f(1) by (simp add: ac_simps)
    then show thesis
      by (rule that [rotated 2]) (use f n sz assms(3) in auto)
  next
    assume e: "wal_holds crc32 w' (drop n q)" "wal_lost w + n + 1 \<le> wal_lost w'"
    have "mset (map df_payload (drop n q)) + add_mset pl (lost + gone) = add_mset pl (mset (map df_payload q) + lost)"
      unfolding split by (simp add: ac_simps)
    then show thesis
      by (rule that [rotated 2]) (use e n sz assms(3) in auto)
  qed
qed

lemma accountsD:
  assumes "accounts crc32 a q lost"
  shows "chans_ok a" and "wal_holds crc32 (ag_store a) q" and "marked a q" and "size lost \<le> wal_lost (ag_store a)"
    and "mset (ag_emitted a) + in_transit a \<subseteq># settled a + in_memory a + mset (map df_payload q) + lost"
  using assms by (simp_all add: accounts_def)

lemma writer_idle_accounts:
  assumes acc: "accounts crc32 a q lost" and h: "ag_handle a = Some h"
    and w: "w = ag_store a \<or> w = writer_sync sync_ok (ag_store a)"
  shows "accounts crc32 (a\<lparr>ag_writer := pc, ag_handle := Some h, ag_store := w\<rparr>) q lost" (is "accounts _ ?a _ _")
proof -
  have m: "in_memory ?a = in_memory a" "settled ?a = settled a" "ag_emitted ?a = ag_emitted a"
    using h by (simp_all add: in_memory_def append_buf_def settled_def)
  have "wi_pending_advance w = wi_pending_advance (ag_store a)" using w by auto
  then have d: "marked ?a q" "in_transit ?a = in_transit a"
    using acc unfolding accounts_def marked_def in_transit_def by (simp_all cong: drainer_pc.case_cong)
  have "wal_holds crc32 w q" "size lost \<le> wal_lost w"
    using acc w writer_sync_lost [of "ag_store a" sync_ok] by (auto simp: accounts_def writer_sync_holds)
  moreover have "chans_ok ?a" using acc h m by (auto simp: accounts_def chans_ok_def)
  ultimately show ?thesis using acc m d by (simp add: accounts_def)
qed

lemma writer_append_accounts:
  assumes acc: "accounts crc32 a q lost" and h: "ag_handle a = Some h" and env: "io_set_len env" "io_seek env"
    and recv: "try_recv (wh_append h) = Some (pl, c)"
    and w: "w = append_one crc32 env pl (ag_store a) \<or> w = writer_sync sync_ok (append_one crc32 env pl (ag_store a))"
    and a': "a' = a\<lparr>ag_writer := pc, ag_handle := Some (h\<lparr>wh_append := c\<rparr>), ag_store := w\<rparr>"
  shows "\<exists>q' lost'. accounts crc32 a' q' lost'"
proof -
  let ?w = "append_one crc32 env pl (ag_store a)"
  note rv = try_recv_SomeD [OF recv]
  have buf: "append_buf a = pl # append_buf a'" using h rv by (simp add: append_buf_def a')
  have pl: "append_accepts (env, pl)"
    using acc env buf by (auto simp: accounts_def chans_ok_def in_memory_payloads append_accepts_def)
  obtain q' lost' where ex: "wal_holds crc32 ?w q'" "size lost' \<le> wal_lost ?w"
      "mset (map df_payload q') + lost' = add_mset pl (mset (map df_payload q) + lost)"
      "wi_pending_advance ?w \<noteq> None \<Longrightarrow> wi_pending_advance (ag_store a) \<noteq> None \<and> (q \<noteq> [] \<longrightarrow> q' \<noteq> [] \<and> hd q' = hd q)"
    by (rule append_exchange [OF accountsD(2) [OF acc] pl accountsD(4) [OF acc] refl]) blast
  have w1: "wal_holds crc32 w q'" "size lost' \<le> wal_lost w" "wi_pending_advance w = wi_pending_advance ?w"
    using ex(1,2) w writer_sync_lost [of ?w sync_ok] by (auto simp: writer_sync_holds)
  have m: "in_memory a = add_mset pl (in_memory a')" "settled a' = settled a" "ag_emitted a' = ag_emitted a"
    using buf by (simp_all add: in_memory_def settled_def a')
  have "chans_ok a'"
    using acc h rv m(1) by (auto simp: accounts_def chans_ok_def chan_ok_def a')
  moreover have "marked a' q'"
    using accountsD(3) [OF acc] w1(3) ex(4) unfolding marked_def by (auto simp: a' split: drainer_pc.splits)
  moreover have "in_transit a' \<subseteq># in_transit a"
    using w1(3) ex(4) unfolding in_transit_def by (auto simp: a' split: drainer_pc.splits)
  then have "mset (ag_emitted a') + in_transit a' \<subseteq># settled a + in_memory a + mset (map df_payload q) + lost"
    using accountsD(5) [OF acc] unfolding m(3) by (meson subset_mset.add_left_mono subset_mset.order_trans)
  moreover have "settled a + in_memory a + mset (map df_payload q) + lost
      = settled a' + in_memory a' + mset (map df_payload q') + lost'"
    using ex(3) by (simp add: m ac_simps)
  ultimately have "accounts crc32 a' q' lost'" using w1 by (simp add: accounts_def) (simp add: a')
  then show ?thesis by blast
qed

lemma writer_accounts:
  assumes acc: "accounts crc32 a q lost" and h: "ag_handle a = Some h" and env: "io_set_len env" "io_seek env"
    and st: "writer_step crc32 env elapsed sync_ok (ag_writer a) h (ag_store a) = Some (pc, h', w)"
    and a': "a' = a\<lparr>ag_writer := pc, ag_handle := Some h', ag_store := w\<rparr>"
  shows "\<exists>q' lost'. accounts crc32 a' q' lost'"
proof (cases "try_recv (wh_append h)")
  case None
  with st have "h' = h" "w = ag_store a \<or> w = writer_sync sync_ok (ag_store a)"
    by (auto simp: writer_step_def split: writer_pc.splits if_splits)
  with writer_idle_accounts [OF acc h, of w sync_ok pc] show ?thesis by (auto simp: a')
next
  case (Some x)
  obtain pl c where x: "x = (pl, c)" by (cases x)
  from st Some x have "h' = h\<lparr>wh_append := c\<rparr>"
      and w: "w = append_one crc32 env pl (ag_store a) \<or> w = writer_sync sync_ok (append_one crc32 env pl (ag_store a))"
    by (auto simp: writer_step_def Let_def split: writer_pc.splits if_splits)
  then show ?thesis
    using writer_append_accounts [OF acc h env Some [unfolded x] w] a' by simp
qed

lemma accounts_quiet:
  assumes acc: "accounts crc32 a q lost" and a': "a' = a\<lparr>ag_drainer := pc, ag_circuit := cb\<rparr>"
    and pc: "\<And>l p. pc \<noteq> DSend l p \<and> pc \<noteq> DCommit l p"
  shows "accounts crc32 a' q lost"
proof -
  have "in_memory a' = in_memory a" "settled a' = settled a" "ag_emitted a' = ag_emitted a" "ag_store a' = ag_store a"
    by (simp_all add: in_memory_def append_buf_def settled_def a')
  moreover have "chans_ok a'" using acc by (auto simp: accounts_def chans_ok_def in_memory_payloads append_buf_def a')
  moreover have "marked a' q" "in_transit a' = {#}"
    using pc by (auto simp: marked_def in_transit_def a' split: drainer_pc.splits)
  moreover have "mset (ag_emitted a) \<subseteq># settled a + in_memory a + mset (map df_payload q) + lost"
  proof (rule subset_mset.order_trans)
    show "mset (ag_emitted a) \<subseteq># mset (ag_emitted a) + in_transit a" by simp
    show "mset (ag_emitted a) + in_transit a \<subseteq># settled a + in_memory a + mset (map df_payload q) + lost"
      using acc by (simp add: accounts_def)
  qed
  ultimately show ?thesis using acc by (simp add: accounts_def)
qed

lemma drainer_peek_accounts:
  assumes acc: "accounts crc32 a q lost" and d: "ag_drainer a = DPeek l"
    and r: "peek_next crc32 env (ag_store a) = (r, w)"
    and a': "a' = a\<lparr>ag_drainer := (case r of Inr (Some f) \<Rightarrow> DSend l (df_payload f) | _ \<Rightarrow> DSleep), ag_store := w\<rparr>"
  shows "accounts crc32 a' q lost"
proof -
  note pk = wal.peek_law [OF accountsD(2) [OF acc], of env]
  have holds: "wal_holds crc32 w q" "wal_lost w = wal_lost (ag_store a)" using pk r by auto
  have "marked a' q"
    using pk wal_holds_payload_ok [OF accountsD(2) [OF acc]] r unfolding marked_def
    by (auto simp: a' split: sum.splits option.splits)
  moreover have "in_transit a' = {#}" "in_transit a = {#}"
    using d unfolding in_transit_def by (auto simp: a' split: sum.splits option.splits)
  moreover have m: "in_memory a' = in_memory a" "settled a' = settled a" by (simp_all add: in_memory_def append_buf_def settled_def a')
  moreover have "chans_ok a'" using accountsD(1) [OF acc] m(1) by (simp add: chans_ok_def a')
  ultimately show ?thesis
    using accountsD [OF acc] holds unfolding accounts_def by (simp add: a')
qed

lemma drainer_send_accounts:
  assumes acc: "accounts crc32 a q lost" and d: "ag_drainer a = DSend l p" and send: "try_send p (ag_retry a) = Inr rq"
    and a': "a' = a\<lparr>ag_drainer := DCommit l p, ag_circuit := cb, ag_retry := rq\<rparr>"
  shows "accounts crc32 a' q lost"
proof -
  have rq: "ch_buf rq = ch_buf (ag_retry a) @ [p]" "ch_cap rq = ch_cap (ag_retry a)" "chan_ok rq"
    using send by (auto simp: try_send_Inr chan_ok_def)
  have mk: "payload_ok p" "wi_pending_advance (ag_store a) \<noteq> None \<longrightarrow> q \<noteq> [] \<and> df_payload (hd q) = p"
    using accountsD(3) [OF acc] d by (simp_all add: marked_def)
  have mem: "in_memory a' = add_mset p (in_memory a)" "settled a' = settled a" "ag_emitted a' = ag_emitted a"
    using rq by (simp_all add: in_memory_def append_buf_def settled_def a')
  have "chans_ok a'" using accountsD(1) [OF acc] rq mem mk(1) by (auto simp: chans_ok_def a' append_buf_def)
  moreover have "marked a' q" using mk unfolding marked_def by (simp add: a')
  moreover have "in_transit a' \<subseteq># {#p#}" "in_transit a = {#}"
    using d unfolding in_transit_def by (auto simp: a')
  then have "mset (ag_emitted a') + in_transit a' \<subseteq># settled a' + in_memory a' + mset (map df_payload q) + lost"
    using subset_mset.add_mono [OF accountsD(5) [OF acc], of "in_transit a'" "{#p#}"] by (simp add: mem ac_simps)
  ultimately show ?thesis using accountsD [OF acc] unfolding accounts_def by (simp add: a')
qed

lemma drainer_commit_accounts:
  assumes acc: "accounts crc32 a q lost" and d: "ag_drainer a = DCommit l p"
    and pending: "wi_pending_advance (ag_store a) \<noteq> None"
    and a': "a' = a\<lparr>ag_drainer := (if l then DLoop else DSleep), ag_circuit := cb, ag_store := commit_pending (ag_store a)\<rparr>"
  shows "accounts crc32 a' (tl q) lost"
proof -
  note c = commit_pending_holds [OF accountsD(2) [OF acc] pending]
  have quiet: "in_transit a' = {#}" "marked a' (tl q)"
    unfolding in_transit_def marked_def by (simp_all add: a')
  have mem: "in_memory a' = in_memory a" "settled a' = settled a" "ag_emitted a' = ag_emitted a"
    by (simp_all add: in_memory_def append_buf_def settled_def a')
  have ch: "chans_ok a'" using accountsD(1) [OF acc] mem by (simp add: chans_ok_def a')
  have p: "in_transit a = {#p#}" "df_payload (hd q) = p"
    using accountsD(3) [OF acc] pending d by (simp_all add: in_transit_def marked_def)
  have "mset (map df_payload q) = add_mset p (mset (map df_payload (tl q)))"
    using c(1) p(2) by (cases q) auto
  with accountsD(5) [OF acc] p(1)
  have "mset (ag_emitted a') \<subseteq># settled a' + in_memory a' + mset (map df_payload (tl q)) + lost"
    by (simp add: mem ac_simps)
  with c accountsD(4) [OF acc] ch quiet show ?thesis
    unfolding accounts_def by (simp add: a')
qed

lemma drainer_accounts:
  assumes acc: "accounts crc32 a q lost"
    and st: "drainer_step crc32 env (ag_drainer a) (ag_circuit a) (ag_retry a) (ag_store a) = (pc, cb, rq, w)"
    and a': "a' = a\<lparr>ag_drainer := pc, ag_circuit := cb, ag_retry := rq, ag_store := w\<rparr>"
  shows "\<exists>q'. accounts crc32 a' q' lost"
proof -
  have quiet: ?thesis if "\<And>l p. pc \<noteq> DSend l p \<and> pc \<noteq> DCommit l p" "rq = ag_retry a" "w = ag_store a"
    using accounts_quiet [OF acc refl that(1), of cb] that(2,3) by (auto simp: a')
  show ?thesis
  proof (cases "ag_drainer a")
    case (DPeek l)
    obtain r w1 where "peek_next crc32 env (ag_store a) = (r, w1)" by fastforce
    with drainer_peek_accounts [OF acc DPeek this refl] st DPeek show ?thesis
      by (auto simp: drainer_step_def a' split: sum.splits option.splits)
  next
    case (DSend l p)
    show ?thesis
    proof (cases "try_send p (ag_retry a)")
      case (Inl e)
      with st DSend show ?thesis by (intro quiet) (auto simp: drainer_step_def)
    next
      case (Inr rq1)
      with drainer_send_accounts [OF acc DSend Inr refl, of cb] st DSend show ?thesis
        by (auto simp: drainer_step_def a')
    qed
  next
    case (DCommit l p)
    with st have eq: "pc = (if l then DLoop else DSleep)" "w = commit_pending (ag_store a)" "rq = ag_retry a"
      by (auto simp: drainer_step_def)
    show ?thesis
    proof (cases "wi_pending_advance (ag_store a) = None")
      case True
      with eq show ?thesis by (intro quiet) (simp_all add: commit_pending_None split: if_splits)
    next
      case False
      from drainer_commit_accounts [OF acc DCommit False refl, of cb] show ?thesis by (auto simp: a' eq)
    qed
  qed (use st in \<open>intro quiet; auto simp: drainer_step_def split: CircuitState.splits if_splits\<close>)+
qed

lemma agent_step_accounts:
  assumes "agent_step crc32 a a'" and "accounts crc32 a q lost"
  shows "\<exists>q' lost'. accounts crc32 a' q' lost'"
  using assms(1)
proof cases
  case (emit json locked rq h dr)
  from emit_accounts [OF assms(2) emit(2,4,1)] show ?thesis by blast
next
  case (writer h env elapsed sync_ok pc h' w)
  from writer_accounts [OF assms(2) writer(2-5,1)] show ?thesis .
next
  case (drainer h env pc cb rq w)
  from drainer_accounts [OF assms(2) drainer(4,1)] show ?thesis by blast
next
  case (take_body rw rq)
  from take_body_accounts [OF assms(2) take_body(2,1)] show ?thesis by blast
next
  case (post b out response rw cb)
  from post_accounts [OF assms(2) post(2,4,1)] show ?thesis by blast
qed

lemma agent_start_accounts:
  assumes "agent_start crc32 a"
  shows "\<exists>q. accounts crc32 a q {#}"
proof -
  obtain q where "wal_holds crc32 (ag_store a) q" "ag_emitted a = map df_payload q"
    using assms by (auto simp: agent_start_def)
  with assms have "accounts crc32 a q {#}"
    by (auto simp: agent_start_def accounts_def chans_ok_def marked_def in_transit_def settled_def
        in_memory_def append_buf_def channel_def chan_ok_def split: option.splits)
  then show ?thesis by blast
qed

interpretation agent_sys: step_system "agent_start crc32" "agent_step crc32" "\<lambda>a. \<exists>q lost. accounts crc32 a q lost" for crc32
  by unfold_locales (use agent_start_accounts agent_step_accounts in blast)+

lemma agent_reachable_accounts:
  assumes "agent_reachable crc32 a"
  shows "\<exists>q lost. accounts crc32 a q lost"
  using assms agent_sys.reach_inv unfolding agent_reachable_def by blast

section \<open>Properties\<close>

text \<open>
  C1: No batch is lost silently.  In every reachable state of the agent, whatever the
  interleaving of the emitting thread, the writer thread, the drainer and the retry worker and
  whatever the outcomes of disk writes, reads and POSTs: the log is in a consistent state
  holding some frames \<open>q\<close>, and every batch ever emitted is delivered, rejected by the gateway,
  dropped from the memory queue (logged), still in a queue or being posted, on disk, or among
  at most as many batches as the log's loss metrics count.  The queues respect their bounds.
\<close>

theorem no_silent_loss:
  assumes "agent_reachable crc32 a"
  shows "\<exists>q lost. wal_holds crc32 (ag_store a) q
     \<and> mset (ag_emitted a) \<subseteq># mset (ag_delivered a) + mset (ag_rejected a) + mset (ag_dropped a)
           + in_memory a + mset (map df_payload q) + lost
     \<and> size lost \<le> m_dropped_batches (wi_metrics (ag_store a)) + m_write_errors (wi_metrics (ag_store a))
     \<and> length (ch_buf (ag_retry a)) \<le> 60 \<and> length (append_buf a) \<le> 256"
proof -
  obtain q lost where acc: "accounts crc32 a q lost" using agent_reachable_accounts [OF assms] by blast
  have "mset (ag_emitted a) \<subseteq># mset (ag_emitted a) + in_transit a" by simp
  also have "\<dots> \<subseteq># mset (ag_delivered a) + mset (ag_rejected a) + mset (ag_dropped a)
           + in_memory a + mset (map df_payload q) + lost"
    using acc by (simp add: accounts_def settled_def)
  finally have "mset (ag_emitted a) \<subseteq># mset (ag_delivered a) + mset (ag_rejected a) + mset (ag_dropped a)
           + in_memory a + mset (map df_payload q) + lost" .
  with acc show ?thesis
    by (intro exI [of _ q] exI [of _ lost])
       (auto simp: accounts_def chans_ok_def chan_ok_def wal_lost_def append_buf_def
         RETRY_QUEUE_CAPACITY_def APPEND_CHANNEL_CAPACITY_def split: option.splits)
qed

definition sample_agent :: agent where
  "sample_agent = \<lparr>ag_retry = channel RETRY_QUEUE_CAPACITY,
     ag_handle = Some \<lparr>wh_enabled = True, wh_append = channel APPEND_CHANNEL_CAPACITY\<rparr>,
     ag_store = sample_log, ag_writer = WRecv, ag_drainer = DSleep,
     ag_worker = \<lparr>rw_body = None, rw_backoff = 1, rw_initial = 1, rw_max = 30\<rparr>,
     ag_circuit = circuit_init, ag_emitted = [], ag_delivered = [], ag_rejected = [], ag_dropped = []\<rparr>"

theorem no_silent_loss_witness:
  "\<exists>a (q :: DecodedFrame list) lost. agent_reachable (\<lambda>_. 7) a \<and> ag_emitted a = [[1]]
     \<and> mset (ag_emitted a) \<subseteq># mset (ag_delivered a) + mset (ag_rejected a) + mset (ag_dropped a)
           + in_memory a + mset (map df_payload q) + lost"
proof -
  let ?rq = "(channel RETRY_QUEUE_CAPACITY)\<lparr>ch_buf := [[1 :: u8]]\<rparr>"
  let ?a = "sample_agent\<lparr>ag_retry := ?rq, ag_handle := ag_handle sample_agent,
      ag_emitted := ag_emitted sample_agent @ [[1]], ag_dropped := ag_dropped sample_agent @ []\<rparr>"
  have "agent_start (\<lambda>_. 7) sample_agent"
    using sample_log_holds [of "\<lambda>_. 7"]
    by (auto simp: agent_start_def sample_agent_def) (simp add: sample_log_def empty_inner_def)
  moreover have "enqueue_batch_json True False [1] (Some (ag_retry sample_agent)) (ag_handle sample_agent)
      = (Some ?rq, ag_handle sample_agent, [])"
    by (simp add: enqueue_batch_json_def try_send_def sample_agent_def channel_def RETRY_QUEUE_CAPACITY_def)
  then have "agent_step (\<lambda>_. 7) sample_agent ?a"
    by (intro agent_step.emit [where locked = False]) (simp_all add: payload_ok_def)
  ultimately have r: "agent_reachable (\<lambda>_. 7) ?a"
    unfolding agent_reachable_def by blast
  have em: "ag_emitted ?a = [[1]]" by (simp add: sample_agent_def)
  from no_silent_loss [OF r] r em show ?thesis by blast
qed

end
