(* ===== verification/Rust_Path.thy ===== *)
theory Rust_Path
  imports Statix_Prelude
begin

text \<open>
  The parts of the Rust standard library the attribution code reads text and paths with:
  \<^verbatim>\<open>str::lines\<close>, \<^verbatim>\<open>rfind\<close>, checked slicing, \<^verbatim>\<open>Path::components\<close>, \<^verbatim>\<open>file_name\<close>, \<^verbatim>\<open>parent\<close>, \<^verbatim>\<open>join\<close> and
  \<^verbatim>\<open>strip_prefix("/")\<close>.  Text is a list of bytes (as characters), as in a Rust \<^verbatim>\<open>&str\<close>; a path is
  the list of its components, on which Rust's path equality is defined.
\<close>

section \<open>Text\<close>

fun split_on :: "'a \<Rightarrow> 'a list \<Rightarrow> 'a list list" where
  "split_on sep [] = [[]]"
| "split_on sep (c # cs) =
     (if c = sep then [] # split_on sep cs
      else case split_on sep cs of [] \<Rightarrow> [[c]] | p # ps \<Rightarrow> (c # p) # ps)"

definition newline :: char where
  "newline = CHR 0x0A"

definition carriage_return :: char where
  "carriage_return = CHR 0x0D"

definition strip_cr :: "string \<Rightarrow> string" where
  "strip_cr l = (if l \<noteq> [] \<and> last l = carriage_return then butlast l else l)"

text \<open>A final line without content is not a line; \<^verbatim>\<open>\r\n\<close> ends a line like \<^verbatim>\<open>\n\<close>.\<close>

definition str_lines :: "string \<Rightarrow> string list" where
  "str_lines s =
     (let ps = split_on newline s
      in map strip_cr (butlast ps) @ (if last ps = [] then [] else [last ps]))"

definition rfind :: "'a list \<Rightarrow> 'a list \<Rightarrow> nat option" where
  "rfind pat s =
     (case filter (\<lambda>i. starts_with pat (drop i s)) (rev [0..<Suc (length s)]) of
        [] \<Rightarrow> None
      | i # _ \<Rightarrow> Some i)"

definition is_char_boundary :: "string \<Rightarrow> nat \<Rightarrow> bool" where
  "is_char_boundary s i \<longleftrightarrow>
     i = 0 \<or> i = length s \<or> i < length s \<and> \<not> utf8_cont (word_of_nat (of_char (s ! i)))"

definition str_get :: "string \<Rightarrow> nat \<Rightarrow> nat \<Rightarrow> string option" where
  "str_get s a b =
     (if a \<le> b \<and> b \<le> length s \<and> is_char_boundary s a \<and> is_char_boundary s b
      then Some (take (b - a) (drop a s)) else None)"

text \<open>The bytes of a file or directory name as text.\<close>

definition to_str :: "string \<Rightarrow> string option" where
  "to_str n = (if valid_utf8 (str_bytes n) then Some n else None)"

section \<open>Paths\<close>

datatype component = RootDir | CurDir | ParentDir | Normal string

type_synonym pathbuf = "component list"

fun path_parts :: "bool \<Rightarrow> string list \<Rightarrow> component list" where
  "path_parts leading [] = []"
| "path_parts leading (p # ps) =
     (if p = [] then path_parts False ps
      else if p = ''.'' then (if leading then CurDir # path_parts False ps else path_parts False ps)
      else if p = ''..'' then ParentDir # path_parts False ps
      else Normal p # path_parts False ps)"

definition path_of_str :: "string \<Rightarrow> pathbuf" where
  "path_of_str s =
     (if starts_with ''/'' s then RootDir # path_parts False (split_on CHR ''/'' s)
      else path_parts True (split_on CHR ''/'' s))"

definition file_name :: "pathbuf \<Rightarrow> string option" where
  "file_name p = (if p = [] then None else case last p of Normal n \<Rightarrow> Some n | _ \<Rightarrow> None)"

definition parent :: "pathbuf \<Rightarrow> pathbuf option" where
  "parent p = (if p = [] \<or> last p = RootDir then None else Some (butlast p))"

definition path_join :: "pathbuf \<Rightarrow> pathbuf \<Rightarrow> pathbuf" where
  "path_join a b = (case b of RootDir # _ \<Rightarrow> b | _ \<Rightarrow> a @ b)"

text \<open>\<^verbatim>\<open>strip_prefix("/").unwrap_or(path)\<close>\<close>

definition strip_root :: "pathbuf \<Rightarrow> pathbuf" where
  "strip_root p = (case p of RootDir # r \<Rightarrow> r | _ \<Rightarrow> p)"

section \<open>Lemmas\<close>

lemma split_on_Nil [simp]: "split_on sep s \<noteq> []"
  by (induction s) (auto split: list.splits)

lemma split_on_free [simp]: "sep \<notin> set s \<Longrightarrow> split_on sep s = [s]"
  by (induction s) auto

lemma split_on_append: "sep \<notin> set a \<Longrightarrow> split_on sep (a @ sep # b) = a # split_on sep b"
  by (induction a) auto

lemma starts_with_iff: "starts_with p s \<longleftrightarrow> (\<exists>r. s = p @ r)"
  by (auto simp: starts_with_def strip_prefix_Some)

lemma starts_with_append [simp]: "starts_with p (p @ s)"
  by (simp add: starts_with_iff)

text \<open>The last occurrence is the one after which the pattern does not occur again.\<close>

lemma rfind_at:
  assumes "starts_with pat (drop i s)" and "i \<le> length s"
    and "\<And>j. i < j \<Longrightarrow> j \<le> length s \<Longrightarrow> \<not> starts_with pat (drop j s)"
  shows "rfind pat s = Some i"
proof -
  have "[0..<Suc (length s)] = [0..<i] @ i # [Suc i..<Suc (length s)]"
    using assms(2) by (metis le_imp_less_Suc upt_add_eq_append upt_conv_Cons le0 less_imp_le_nat le_add_diff_inverse)
  moreover have "filter (\<lambda>j. starts_with pat (drop j s)) (rev [Suc i..<Suc (length s)]) = []"
    using assms(3) by (auto simp: filter_empty_conv simp del: upt_Suc)
  ultimately show ?thesis using assms(1) by (simp add: rfind_def del: upt_Suc)
qed

lemma rfind_Some: "rfind pat s = Some i \<Longrightarrow> i \<le> length s \<and> starts_with pat (drop i s)"
proof -
  assume "rfind pat s = Some i"
  then obtain r where "filter (\<lambda>i. starts_with pat (drop i s)) (rev [0..<Suc (length s)]) = i # r"
    by (auto simp: rfind_def split: list.splits)
  then have "i \<in> set (filter (\<lambda>i. starts_with pat (drop i s)) (rev [0..<Suc (length s)]))"
    by simp
  then show ?thesis by (auto simp: less_Suc_eq_le simp del: upt_Suc)
qed

lemma str_get_Some: "str_get s a b = Some r \<Longrightarrow> a \<le> b \<and> b \<le> length s \<and> r = take (b - a) (drop a s)"
  by (auto simp: str_get_def split: if_splits)

lemma file_name_snoc [simp]: "file_name (p @ [Normal n]) = Some n"
  by (simp add: file_name_def)

lemma parent_snoc [simp]: "parent (p @ [Normal n]) = Some p"
  by (simp add: parent_def)

end
