(* ===== verification/F64.thy ===== *)
theory F64
  imports Rust_Path
begin

text \<open>
  The double-precision arithmetic the agent and the gateway use: \<^verbatim>\<open>f64::from_str\<close>, multiplication,
  division, comparison,
  \<^verbatim>\<open>is_finite\<close>, \<^verbatim>\<open>round\<close> and the saturating cast to \<^verbatim>\<open>u64\<close>.  A finite value is \<open>m * 2 ^ e\<close>; an operation
  computes the exact rational result and rounds it to 53 significant bits, ties to even.
\<close>

section \<open>Values\<close>

text \<open>\<open>F64 neg m e\<close> is the number with magnitude \<open>m * 2 ^ e\<close>.\<close>

datatype f64 = F64 bool nat int | F64_Inf bool | F64_NaN

fun bit_len :: "nat \<Rightarrow> nat" where
  "bit_len n = (if n = 0 then 0 else Suc (bit_len (n div 2)))"

declare bit_len.simps [simp del]

text \<open>The fraction \<open>num / den\<close> divided by \<open>2 ^ e\<close>, again as a fraction.\<close>

definition scale2 :: "nat \<times> nat \<Rightarrow> int \<Rightarrow> nat \<times> nat" where
  "scale2 x e = (case x of (num, den) \<Rightarrow>
     if 0 \<le> e then (num, den * 2 ^ nat e) else (num * 2 ^ nat (- e), den))"

definition round_half_even :: "nat \<times> nat \<Rightarrow> nat" where
  "round_half_even x = (case x of (num, den) \<Rightarrow>
     let q = num div den; r = num mod den
     in if 2 * r < den then q else if 2 * r > den then q + 1 else if even q then q else q + 1)"

text \<open>The exponent of the last of 53 significant bits, not below that of the subnormals.\<close>

definition f64_exponent :: "nat \<times> nat \<Rightarrow> int" where
  "f64_exponent x = (case x of (num, den) \<Rightarrow>
     let e = int (bit_len num) - int (bit_len den) - 53;
         (n', d') = scale2 x e
     in max (if 2 ^ 53 \<le> n' div d' then e + 1 else e) (- 1074))"

definition f64_round :: "bool \<Rightarrow> nat \<times> nat \<Rightarrow> f64" where
  "f64_round neg x =
     (if fst x = 0 then F64 neg 0 0
      else
        let e = f64_exponent x; m = round_half_even (scale2 x e)
        in if 0 \<le> e \<and> 2 ^ 1024 \<le> m * 2 ^ nat e then F64_Inf neg else F64 neg m e)"

definition f64_frac :: "nat \<Rightarrow> int \<Rightarrow> nat \<times> nat" where
  "f64_frac m e = (if 0 \<le> e then (m * 2 ^ nat e, 1) else (m, 2 ^ nat (- e)))"

fun f64_mul :: "f64 \<Rightarrow> f64 \<Rightarrow> f64" where
  "f64_mul F64_NaN y = F64_NaN"
| "f64_mul x F64_NaN = F64_NaN"
| "f64_mul (F64_Inf s) (F64_Inf t) = F64_Inf (s \<noteq> t)"
| "f64_mul (F64_Inf s) (F64 t m e) = (if m = 0 then F64_NaN else F64_Inf (s \<noteq> t))"
| "f64_mul (F64 t m e) (F64_Inf s) = (if m = 0 then F64_NaN else F64_Inf (s \<noteq> t))"
| "f64_mul (F64 s m e) (F64 t n f) = f64_round (s \<noteq> t) (f64_frac (m * n) (e + f))"

text \<open>\<open>n as f64\<close>, division and the comparison \<open>x > y\<close>.\<close>

definition f64_of_u64 :: "u64 \<Rightarrow> f64" where
  "f64_of_u64 n = f64_round False (unat n, 1)"

fun f64_div :: "f64 \<Rightarrow> f64 \<Rightarrow> f64" where
  "f64_div F64_NaN y = F64_NaN"
| "f64_div x F64_NaN = F64_NaN"
| "f64_div (F64_Inf s) (F64_Inf t) = F64_NaN"
| "f64_div (F64_Inf s) (F64 t m e) = F64_Inf (s \<noteq> t)"
| "f64_div (F64 t m e) (F64_Inf s) = F64 (s \<noteq> t) 0 0"
| "f64_div (F64 s m e) (F64 t n f) =
     (if n = 0 then (if m = 0 then F64_NaN else F64_Inf (s \<noteq> t))
      else case (f64_frac m e, f64_frac n f) of
             ((a, b), (c, d)) \<Rightarrow> f64_round (s \<noteq> t) (a * d, b * c))"

definition f64_int_frac :: "bool \<Rightarrow> nat \<Rightarrow> int \<Rightarrow> int \<times> int" where
  "f64_int_frac neg m e = (case f64_frac m e of (a, b) \<Rightarrow> (if neg then - int a else int a, int b))"

fun f64_gt :: "f64 \<Rightarrow> f64 \<Rightarrow> bool" where
  "f64_gt F64_NaN y = False"
| "f64_gt x F64_NaN = False"
| "f64_gt (F64_Inf s) (F64_Inf t) = (\<not> s \<and> t)"
| "f64_gt (F64_Inf s) (F64 t m e) = (\<not> s)"
| "f64_gt (F64 t m e) (F64_Inf s) = s"
| "f64_gt (F64 s m e) (F64 t n f) =
     (case (f64_int_frac s m e, f64_int_frac t n f) of ((a, b), (c, d)) \<Rightarrow> c * b < a * d)"

fun f64_is_finite :: "f64 \<Rightarrow> bool" where
  "f64_is_finite (F64 _ _ _) = True"
| "f64_is_finite _ = False"

text \<open>\<open>x >= 0.0\<close>; negative zero compares equal to zero.\<close>

fun f64_nonneg :: "f64 \<Rightarrow> bool" where
  "f64_nonneg (F64 neg m e) = (\<not> neg \<or> m = 0)"
| "f64_nonneg (F64_Inf neg) = (\<not> neg)"
| "f64_nonneg F64_NaN = False"

text \<open>\<open>x.round() as u64\<close> of a finite number at least zero: half away from zero, saturating.\<close>

definition f64_round_to_u64 :: "nat \<Rightarrow> int \<Rightarrow> nat" where
  "f64_round_to_u64 m e =
     min (2 ^ 64 - 1) (if 0 \<le> e then m * 2 ^ nat e else (2 * m + 2 ^ nat (- e)) div (2 * 2 ^ nat (- e)))"

section \<open>Parsing\<close>

fun span_digits :: "string \<Rightarrow> string \<times> string" where
  "span_digits [] = ([], [])"
| "span_digits (c # cs) =
     (case digit_val c of
        None \<Rightarrow> ([], c # cs)
      | Some _ \<Rightarrow> (let (ds, r) = span_digits cs in (c # ds, r)))"

definition digits_num :: "string \<Rightarrow> nat" where
  "digits_num ds = (case digits_val 0 ds of Some n \<Rightarrow> n | None \<Rightarrow> 0)"

definition parse_exponent :: "string \<Rightarrow> int option" where
  "parse_exponent s =
     (case s of
        [] \<Rightarrow> Some 0
      | c # r \<Rightarrow>
          if c = CHR ''e'' \<or> c = CHR ''E''
          then let (neg, ds) = (case r of
                                  CHR ''+'' # r' \<Rightarrow> (False, r')
                                | CHR ''-'' # r' \<Rightarrow> (True, r')
                                | _ \<Rightarrow> (False, r))
               in if ds = [] \<or> snd (span_digits ds) \<noteq> [] then None
                  else Some (if neg then - int (digits_num ds) else int (digits_num ds))
          else None)"

text \<open>
  The grammar of \<^verbatim>\<open>f64::from_str\<close>: an optional sign; \<^verbatim>\<open>inf\<close>, \<^verbatim>\<open>infinity\<close> or \<^verbatim>\<open>nan\<close> in any case; or digits
  with an optional point (a digit on at least one side) and an optional exponent.  The value is
  the exact decimal, rounded once.
\<close>

definition parse_f64 :: "string \<Rightarrow> f64 option" where
  "parse_f64 s =
     (let (neg, r) = (case s of
                        CHR ''+'' # r \<Rightarrow> (False, r)
                      | CHR ''-'' # r \<Rightarrow> (True, r)
                      | _ \<Rightarrow> (False, s));
          low = to_ascii_lowercase r
      in if low = ''inf'' \<or> low = ''infinity'' then Some (F64_Inf neg)
         else if low = ''nan'' then Some F64_NaN
         else
           let (ip, r1) = span_digits r;
               (fp, r2) = (case r1 of CHR ''.'' # r' \<Rightarrow> span_digits r' | _ \<Rightarrow> ([], r1))
           in if ip = [] \<and> fp = [] then None
              else case parse_exponent r2 of
                     None \<Rightarrow> None
                   | Some x \<Rightarrow>
                       let x' = x - int (length fp); n = digits_num (ip @ fp)
                       in Some (f64_round neg (if 0 \<le> x' then (n * 10 ^ nat x', 1) else (n, 10 ^ nat (- x')))))"

section \<open>Exact values\<close>

text \<open>An exactly representable fraction is not changed by rounding.\<close>

lemma bit_len_bounds: "0 < n \<Longrightarrow> 2 ^ (bit_len n - 1) \<le> n \<and> n < 2 ^ bit_len n \<and> 0 < bit_len n"
proof (induction n rule: bit_len.induct)
  case (1 n)
  show ?case
  proof (cases "n div 2 = 0")
    case True
    then have "n = 1" using "1.prems" by simp
    then show ?thesis by (simp add: bit_len.simps)
  next
    case False
    then have IH: "2 ^ (bit_len (n div 2) - 1) \<le> n div 2" "n div 2 < 2 ^ bit_len (n div 2)" "0 < bit_len (n div 2)"
      using 1 by auto
    have b: "bit_len n = Suc (bit_len (n div 2))" using "1.prems" by (subst bit_len.simps) simp
    obtain k where k: "bit_len (n div 2) = Suc k" using IH(3) by (cases "bit_len (n div 2)") auto
    show ?thesis using IH unfolding b k by simp linarith
  qed
qed

lemma bit_len_unique: "2 ^ k \<le> n \<Longrightarrow> n < 2 ^ Suc k \<Longrightarrow> bit_len n = Suc k"
proof -
  assume a: "2 ^ k \<le> n" "n < 2 ^ Suc k"
  then have "0 < n" by (cases n) simp_all
  note b = bit_len_bounds [OF this]
  from a(1) b have "(2::nat) ^ k < 2 ^ bit_len n" by linarith
  moreover from a(2) b have "(2::nat) ^ (bit_len n - 1) < 2 ^ Suc k" by linarith
  ultimately have "k < bit_len n" "bit_len n - 1 < Suc k"
    by (simp_all only: power_strict_increasing_iff)
  with b show "bit_len n = Suc k" by linarith
qed

lemma bit_len_mult2: "0 < n \<Longrightarrow> bit_len (n * 2 ^ k) = bit_len n + k"
proof -
  assume n: "0 < n"
  note b = bit_len_bounds [OF n]
  obtain j where j: "bit_len n = Suc j" using b by (cases "bit_len n") auto
  have "bit_len (n * 2 ^ k) = Suc (j + k)"
    using b unfolding j by (intro bit_len_unique) (simp_all add: power_add)
  then show ?thesis by (simp add: j)
qed

lemma bit_len_le:
  assumes "0 < n" and "n < 2 ^ k"
  shows "bit_len n \<le> k"
proof -
  note b = bit_len_bounds [OF assms(1)]
  then have "(2::nat) ^ (bit_len n - 1) < 2 ^ k" using assms(2) by linarith
  then have "bit_len n - 1 < k" by (simp only: power_strict_increasing_iff)
  with b show ?thesis by linarith
qed

definition f64_nat :: "f64 \<Rightarrow> nat \<Rightarrow> bool" where
  "f64_nat f n \<longleftrightarrow> (\<exists>m e. f = F64 False m e \<and> (if 0 \<le> e then m * 2 ^ nat e = n else m = n * 2 ^ nat (- e)))"

text \<open>Natural numbers with at most 53 significant bits.\<close>

definition f64_exact :: "nat \<Rightarrow> bool" where
  "f64_exact n \<longleftrightarrow> n < 2 ^ 1024 \<and> (\<exists>m k. m < 2 ^ 53 \<and> n = m * 2 ^ k)"

lemma round_half_even_exact: "0 < d \<Longrightarrow> round_half_even (q * d, d) = q"
  by (simp add: round_half_even_def)

lemma f64_exponent_nat:
  assumes n: "0 < n" and b: "b = bit_len n"
  shows "f64_exponent (n * 2 ^ k, 2 ^ k) = int b - 53"
proof -
  note bl = bit_len_bounds [OF n, folded b]
  have bk: "bit_len (2 ^ k) = Suc k" by (rule bit_len_unique) simp_all
  let ?x = "(n * 2 ^ k, 2 ^ k) :: nat \<times> nat"
  have e0: "int (bit_len (n * 2 ^ k)) - int (bit_len (2 ^ k)) - 53 = int b - 54"
    by (simp add: bit_len_mult2 [OF n] bk b)
  have big: "2 ^ 53 \<le> fst (scale2 ?x (int b - 54)) div snd (scale2 ?x (int b - 54))"
  proof (cases "54 \<le> b")
    case True
    then have "nat (int b - 54) = b - 54" by simp
    moreover have "(2::nat) ^ 53 * 2 ^ (b - 54) = 2 ^ (b - 1)"
    proof -
      have "b - 1 = 53 + (b - 54)" using True by simp
      then show ?thesis by (simp only: power_add)
    qed
    then have "2 ^ 53 \<le> n div 2 ^ (b - 54)" using bl by (simp add: less_eq_div_iff_mult_less_eq)
    ultimately show ?thesis using True by (simp add: scale2_def div_mult2_eq)
  next
    case False
    then have "nat (54 - int b) = 54 - b" by simp
    moreover have "(2::nat) ^ 53 = 2 ^ (b - 1) * 2 ^ (54 - b)"
    proof -
      have "53 = (b - 1) + (54 - b)" using False bl by simp
      then show ?thesis by (metis power_add)
    qed
    moreover have "(2::nat) ^ (b - 1) * 2 ^ (54 - b) \<le> n * 2 ^ (54 - b)" using bl by (intro mult_le_mono1) simp
    ultimately have "2 ^ 53 \<le> n * 2 ^ (54 - b)" "nat (54 - int b) = 54 - b" by linarith+
    then show ?thesis using False by (simp add: scale2_def mult.assoc mult.commute)
  qed
  show ?thesis
    unfolding f64_exponent_def prod.case e0 Let_def using big by (simp add: split_beta)
qed

lemma f64_round_exact:
  assumes "f64_exact n"
  shows "f64_nat (f64_round False (n * 2 ^ k, 2 ^ k)) n"
proof (cases "n = 0")
  case True
  then show ?thesis by (simp add: f64_round_def f64_nat_def)
next
  case False
  then have n: "0 < n" by simp
  define b where "b = bit_len n"
  let ?x = "(n * 2 ^ k, 2 ^ k) :: nat \<times> nat"
  note exp = f64_exponent_nat [OF n b_def, of k]
  show ?thesis
  proof (cases "53 \<le> b")
    case True
    obtain m j where mj: "m < 2 ^ 53" "n = m * 2 ^ j" and lim: "n < 2 ^ 1024"
      using assms by (auto simp: f64_exact_def)
    then have "n < 2 ^ (53 + j)" by (simp add: power_add)
    then have "b \<le> 53 + j" unfolding b_def by (rule bit_len_le [OF n])
    then have "2 ^ (b - 53) dvd n" unfolding mj(2) by (intro dvd_mult le_imp_power_dvd) simp
    then obtain q where q: "n = q * 2 ^ (b - 53)" by (metis dvd_def mult.commute)
    have ne: "nat (int b - 53) = b - 53" using True by simp
    have "scale2 ?x (int b - 53) = (q * (2 ^ k * 2 ^ (b - 53)), 2 ^ k * 2 ^ (b - 53))"
      using True ne by (simp add: scale2_def q)
    then have rhe: "round_half_even (scale2 ?x (int b - 53)) = q" by (simp add: round_half_even_exact)
    have "\<not> 2 ^ 1024 \<le> q * 2 ^ (b - 53)" using lim q by (metis not_le)
    then have "f64_round False ?x = F64 False q (int b - 53)"
      unfolding f64_round_def Let_def exp rhe ne using n by simp
    then show ?thesis using True ne q by (simp add: f64_nat_def)
  next
    case False
    then have ne: "nat (53 - int b) = 53 - b" by simp
    have "scale2 ?x (int b - 53) = ((n * 2 ^ (53 - b)) * 2 ^ k, 2 ^ k)"
      using False ne by (simp add: scale2_def)
    then have rhe: "round_half_even (scale2 ?x (int b - 53)) = n * 2 ^ (53 - b)"
      by (simp add: round_half_even_exact)
    have "f64_round False ?x = F64 False (n * 2 ^ (53 - b)) (int b - 53)"
      unfolding f64_round_def Let_def exp rhe using n False by simp
    then show ?thesis using False ne by (simp add: f64_nat_def)
  qed
qed

lemma f64_frac_mult:
  assumes f: "if 0 \<le> e then m * 2 ^ nat e = a else m = a * 2 ^ nat (- e)"
    and g: "if 0 \<le> h then n * 2 ^ nat h = b else n = b * 2 ^ nat (- h)"
  shows "\<exists>k. f64_frac (m * n) (e + h) = (a * b * 2 ^ k, 2 ^ k)"
proof (cases "0 \<le> e + h")
  case True
  have "m * n * 2 ^ nat (e + h) = a * b"
  proof (cases "0 \<le> e"; cases "0 \<le> h")
    assume "0 \<le> e" "0 \<le> h"
    then have "m * 2 ^ nat e * (n * 2 ^ nat h) = a * b" using f g by simp
    then show ?thesis using \<open>0 \<le> e\<close> \<open>0 \<le> h\<close> by (simp add: nat_add_distrib power_add ac_simps)
  next
    assume eh: "0 \<le> e" "\<not> 0 \<le> h"
    then have "nat e = nat (e + h) + nat (- h)" using True by simp
    then have "a = m * (2 ^ nat (e + h) * 2 ^ nat (- h))" using f eh by (simp add: power_add)
    then show ?thesis using g eh by (simp add: ac_simps)
  next
    assume eh: "\<not> 0 \<le> e" "0 \<le> h"
    then have "nat h = nat (e + h) + nat (- e)" using True by simp
    then have "b = n * (2 ^ nat (e + h) * 2 ^ nat (- e))" using g eh by (simp add: power_add)
    then show ?thesis using f eh by (simp add: ac_simps)
  qed (use True in auto)
  then show ?thesis using True by (intro exI [of _ 0]) (simp add: f64_frac_def)
next
  case False
  have "m * n = a * b * 2 ^ nat (- (e + h))"
  proof (cases "0 \<le> e"; cases "0 \<le> h")
    assume eh: "0 \<le> e" "\<not> 0 \<le> h"
    then have "nat (- h) = nat (- (e + h)) + nat e" using False by simp
    then have "n = b * (2 ^ nat (- (e + h)) * 2 ^ nat e)" using g eh by (simp add: power_add)
    then show ?thesis using f eh by (simp add: ac_simps)
  next
    assume eh: "\<not> 0 \<le> e" "0 \<le> h"
    then have "nat (- e) = nat (- (e + h)) + nat h" using False by simp
    then have "m = a * (2 ^ nat (- (e + h)) * 2 ^ nat h)" using f eh by (simp add: power_add)
    then show ?thesis using g eh by (simp add: ac_simps)
  next
    assume eh: "\<not> 0 \<le> e" "\<not> 0 \<le> h"
    then have "nat (- (e + h)) = nat (- e) + nat (- h)" by simp
    then show ?thesis using f g eh by (simp add: power_add)
  qed (use False in auto)
  then show ?thesis using False by (intro exI [of _ "nat (- (e + h))"]) (simp add: f64_frac_def)
qed

lemma f64_mul_exact:
  assumes "f64_nat f a" and "f64_nat g b" and "f64_exact (a * b)"
  shows "f64_nat (f64_mul f g) (a * b)"
proof -
  obtain m e where f: "f = F64 False m e" "if 0 \<le> e then m * 2 ^ nat e = a else m = a * 2 ^ nat (- e)"
    using assms(1) by (auto simp: f64_nat_def)
  obtain n h where g: "g = F64 False n h" "if 0 \<le> h then n * 2 ^ nat h = b else n = b * 2 ^ nat (- h)"
    using assms(2) by (auto simp: f64_nat_def)
  obtain k where "f64_frac (m * n) (e + h) = (a * b * 2 ^ k, 2 ^ k)"
    using f64_frac_mult [OF f(2) g(2)] by blast
  then show ?thesis using f64_round_exact [OF assms(3), of k] by (simp add: f(1) g(1))
qed

lemma f64_nat_u64:
  assumes "f64_nat (F64 neg m e) n"
  shows "f64_round_to_u64 m e = min (2 ^ 64 - 1) n" and "\<not> neg"
proof -
  have "(2 * (n * p) + p) div (2 * p) = n" if "0 < p" for p :: nat
    using that by (intro div_nat_eqI) (simp_all add: algebra_simps)
  then show "f64_round_to_u64 m e = min (2 ^ 64 - 1) n" "\<not> neg"
    using assms by (auto simp: f64_nat_def f64_round_to_u64_def split: if_splits)
qed

end
