(* ===== verification/Cgroup_Files.thy ===== *)
theory Cgroup_Files
  imports Rust_Path
begin

text \<open>
  The readers of kernel text files in \<^verbatim>\<open>statix/src/attribution/mod.rs\<close> (process cgroup,
  \<^verbatim>\<open>memory.current\<close>, \<^verbatim>\<open>cpu.stat\<close>, \<^verbatim>\<open>memory.stat\<close>) with their typed errors, and the recognition of pod
  UIDs and container IDs in cgroup paths.
\<close>

section \<open>Errors and reads\<close>

text \<open>
  A path that the source keeps as text in an error is the path itself here; the decoder's own
  error value of the UTF-8 cases is left out.
\<close>

datatype AttributionError =
    OpenFile pathbuf io_error
  | EmptyCgroupFile pathbuf
  | InvalidCgroupUtf8 pathbuf
  | NoCgroupPath pathbuf
  | EmptyMemoryCurrent pathbuf
  | InvalidMemoryUtf8 pathbuf
  | ParseMemoryBytes pathbuf string
  | EmptyCpuStat pathbuf
  | InvalidCpuUtf8 pathbuf
  | ParseCpuUsage pathbuf string
  | NoCpuUsageField pathbuf
  | K8sList string

text \<open>What opening a file and reading it once yields.\<close>

datatype file_view = CannotOpen io_error | CannotRead io_error | Content bytes

definition read_once :: "nat \<Rightarrow> file_view \<Rightarrow> io_error + bytes" where
  "read_once n v =
     (case v of CannotOpen e \<Rightarrow> Inl e | CannotRead e \<Rightarrow> Inl e | Content b \<Rightarrow> Inr (take n b))"

section \<open>Process cgroup\<close>

definition parse_cgroup_v2_path_line :: "string \<Rightarrow> string option" where
  "parse_cgroup_v2_path_line line =
     (let line = trim line
      in if line = [] then None
         else case (case split_once ''::'' line of
                      Some (_, path) \<Rightarrow> if starts_with ''/'' path then Some path else None
                    | None \<Rightarrow> None) of
                Some path \<Rightarrow> Some path
              | None \<Rightarrow>
                  let path = after_last CHR '':'' line
                  in if starts_with ''/'' path then Some path else None)"

definition cgroup_path_from_pid :: "u32 \<Rightarrow> file_view \<Rightarrow> AttributionError + pathbuf" where
  "cgroup_path_from_pid pid v =
     (let cgroup_file = path_of_str (''/proc/'' @ dec_str (unat pid) @ ''/cgroup'')
      in case read_once 1024 v of
           Inl e \<Rightarrow> Inl (OpenFile cgroup_file e)
         | Inr buf \<Rightarrow>
             if buf = [] then Inl (EmptyCgroupFile cgroup_file)
             else case from_utf8 buf of
                    None \<Rightarrow> Inl (InvalidCgroupUtf8 cgroup_file)
                  | Some contents \<Rightarrow>
                      (case List.map_filter parse_cgroup_v2_path_line (str_lines contents) of
                         path # _ \<Rightarrow> Inr (path_of_str path)
                       | [] \<Rightarrow> Inl (NoCgroupPath cgroup_file)))"

section \<open>Resource counters\<close>

definition read_memory_current_at :: "pathbuf \<Rightarrow> file_view \<Rightarrow> AttributionError + nat" where
  "read_memory_current_at path v =
     (case read_once 32 v of
        Inl e \<Rightarrow> Inl (OpenFile path e)
      | Inr buf \<Rightarrow>
          if buf = [] then Inl (EmptyMemoryCurrent path)
          else case from_utf8 buf of
                 None \<Rightarrow> Inl (InvalidMemoryUtf8 path)
               | Some s \<Rightarrow>
                   let raw_str = trim s
                   in case parse_u64 raw_str of
                        Some n \<Rightarrow> Inr n
                      | None \<Rightarrow> Inl (ParseMemoryBytes path raw_str))"

definition read_cpu_usage_usec_at :: "pathbuf \<Rightarrow> file_view \<Rightarrow> AttributionError + nat" where
  "read_cpu_usage_usec_at path v =
     (case read_once 256 v of
        Inl e \<Rightarrow> Inl (OpenFile path e)
      | Inr buf \<Rightarrow>
          if buf = [] then Inl (EmptyCpuStat path)
          else case from_utf8 buf of
                 None \<Rightarrow> Inl (InvalidCpuUtf8 path)
               | Some contents \<Rightarrow>
                   (case str_lines contents of
                      [] \<Rightarrow> Inl (NoCpuUsageField path)
                    | first_line # _ \<Rightarrow>
                        (case strip_prefix ''usage_usec '' first_line of
                           None \<Rightarrow> Inl (NoCpuUsageField path)
                         | Some r \<Rightarrow>
                             let value = trim r
                             in case parse_u64 value of
                                  Some n \<Rightarrow> Inr n
                                | None \<Rightarrow> Inl (ParseCpuUsage path value))))"

definition read_inactive_file_at :: "file_view \<Rightarrow> nat option" where
  "read_inactive_file_at v =
     (case read_once 4096 v of
        Inl _ \<Rightarrow> None
      | Inr buf \<Rightarrow>
          (case from_utf8 buf of
             None \<Rightarrow> None
           | Some contents \<Rightarrow>
               (case List.map_filter (strip_prefix ''inactive_file '') (str_lines contents) of
                  [] \<Rightarrow> None
                | r # _ \<Rightarrow> parse_u64 (trim r))))"

section \<open>Pod UIDs and container IDs\<close>

definition is_ascii_hexdigit :: "char \<Rightarrow> bool" where
  "is_ascii_hexdigit c \<longleftrightarrow>
     (let n = (of_char c :: nat) in 48 \<le> n \<and> n \<le> 57 \<or> 65 \<le> n \<and> n \<le> 70 \<or> 97 \<le> n \<and> n \<le> 102)"

definition is_uuid :: "string \<Rightarrow> bool" where
  "is_uuid s \<longleftrightarrow> length s = 36 \<and>
     list_all (\<lambda>(i, b). if i \<in> {8, 13, 18, 23} then b = CHR ''_'' \<or> b = CHR ''-'' else is_ascii_hexdigit b)
       (enumerate 0 s)"

definition underscores_to_dashes :: "string \<Rightarrow> string" where
  "underscores_to_dashes s = map (\<lambda>c. if c = CHR ''_'' then CHR ''-'' else c) s"

definition pod_uid_of_part :: "string \<Rightarrow> string option" where
  "pod_uid_of_part name =
     (case to_str name of
        None \<Rightarrow> None
      | Some part \<Rightarrow>
          (case rfind ''pod'' part of
             None \<Rightarrow> None
           | Some i \<Rightarrow>
               (case str_get part (i + 3) (i + 3 + 36) of
                  None \<Rightarrow> None
                | Some uid \<Rightarrow> if is_uuid uid then Some (underscores_to_dashes uid) else None)))"

definition pod_uid_from_path :: "pathbuf \<Rightarrow> string option" where
  "pod_uid_from_path path =
     (case List.map_filter (\<lambda>c. case c of Normal part \<Rightarrow> pod_uid_of_part part | _ \<Rightarrow> None) path of
        [] \<Rightarrow> None
      | uid # _ \<Rightarrow> Some uid)"

definition container_id_from_dir_name :: "string \<Rightarrow> string option" where
  "container_id_from_dir_name name =
     (let name = (case strip_suffix ''.scope'' name of Some n \<Rightarrow> n | None \<Rightarrow> name);
          id = after_last CHR ''-'' name
      in if length id = 64 \<and> list_all is_ascii_hexdigit id then Some id else None)"

section \<open>Lemmas\<close>

lemma hexdigit_ne:
  assumes "is_ascii_hexdigit c"
  shows "c \<noteq> CHR ''p''" and "c \<noteq> CHR ''-''" and "c \<noteq> CHR ''.''" and "(of_char c :: nat) < 128"
  using assms by (auto simp: is_ascii_hexdigit_def Let_def)

lemma uuid_chars:
  assumes "is_uuid uid" and "c \<in> set uid"
  shows "is_ascii_hexdigit c \<or> c = CHR ''_'' \<or> c = CHR ''-''"
proof -
  obtain i where "i < length uid" "uid ! i = c" using assms(2) by (auto simp: in_set_conv_nth)
  then have "(i, c) \<in> set (enumerate 0 uid)" by (auto simp: in_set_enumerate_eq)
  with assms(1) show ?thesis by (auto simp: is_uuid_def list_all_iff split: if_splits)
qed

lemma uuid_no_p: "is_uuid uid \<Longrightarrow> CHR ''p'' \<notin> set uid"
  using uuid_chars hexdigit_ne(1) by fastforce

lemma starts_with_pod:
  "starts_with ''pod'' s \<Longrightarrow> s \<noteq> [] \<and> hd s = CHR ''p''"
  by (auto simp: starts_with_iff)

text \<open>
  After the UID, no later occurrence of \<^verbatim>\<open>pod\<close> can start inside it: a UUID has no letter p.
\<close>

lemma rfind_pod_layout:
  assumes uid: "is_uuid uid" and suf: "\<And>j. j \<le> length suf \<Longrightarrow> \<not> starts_with ''pod'' (drop j suf)"
  shows "rfind ''pod'' (pre @ ''pod'' @ uid @ suf) = Some (length pre)"
proof (rule rfind_at)
  let ?s = "pre @ ''pod'' @ uid @ suf"
  show "starts_with ''pod'' (drop (length pre) ?s)"
    by (simp add: starts_with_iff)
  fix j assume j: "length pre < j" "j \<le> length ?s"
  define t where "t = ''od'' @ uid"
  have no_p: "CHR ''p'' \<notin> set t" using uuid_no_p [OF uid] by (simp add: t_def)
  have eq: "?s = (pre @ ''p'') @ t @ suf" by (simp add: t_def)
  obtain k where k: "j = length (pre @ ''p'') + k"
    using j(1) by (metis Suc_leI add.commute le_Suc_ex length_append_singleton)
  then have d: "drop j ?s = drop k (t @ suf)" unfolding eq by simp
  show "\<not> starts_with ''pod'' (drop j ?s)"
  proof (cases "k < length t")
    case True
    then have "hd (drop j ?s) = t ! k" unfolding d by (simp add: hd_drop_conv_nth nth_append)
    then have "hd (drop j ?s) \<noteq> CHR ''p''" using no_p True by (metis nth_mem)
    then show ?thesis using starts_with_pod by blast
  next
    case False
    then have "drop j ?s = drop (k - length t) suf" unfolding d by simp
    moreover have "k - length t \<le> length suf" using j(2) k unfolding eq by simp
    ultimately show ?thesis using suf [of "k - length t"] by simp
  qed
qed simp

lemma str_get_uid:
  assumes uid: "is_uuid uid" and ascii: "suf \<noteq> [] \<Longrightarrow> (of_char (hd suf) :: nat) < 128"
  shows "str_get (pre @ ''pod'' @ uid @ suf) (length pre + 3) (length pre + 3 + 36) = Some uid"
proof -
  let ?s = "pre @ ''pod'' @ uid @ suf"
  have len: "length uid = 36" using uid by (simp add: is_uuid_def)
  then have "uid \<noteq> []" by auto
  then have b1: "?s ! (length pre + 3) = hd uid" "hd uid \<in> set uid"
    by (simp_all add: nth_append hd_conv_nth)
  have "(of_char (hd uid) :: nat) < 128"
    using uuid_chars [OF uid b1(2)] hexdigit_ne(4) by auto
  then have c1: "is_char_boundary ?s (length pre + 3)"
    using b1 len by (simp add: is_char_boundary_def utf8_cont_def word_le_nat_alt)
  have c2: "is_char_boundary ?s (length pre + 3 + 36)"
  proof (cases "suf = []")
    case True
    then show ?thesis using len by (simp add: is_char_boundary_def)
  next
    case False
    then have "?s ! (length pre + 3 + 36) = hd suf"
      using len by (simp add: nth_append hd_conv_nth)
    then show ?thesis using ascii [OF False] False len
      by (simp add: is_char_boundary_def utf8_cont_def word_le_nat_alt)
  qed
  show ?thesis using c1 c2 len by (simp add: str_get_def)
qed

lemma pod_uid_of_part_layout:
  assumes uid: "is_uuid uid" and utf: "valid_utf8 (str_bytes (pre @ ''pod'' @ uid @ suf))"
    and suf: "\<And>j. j \<le> length suf \<Longrightarrow> \<not> starts_with ''pod'' (drop j suf)"
    and ascii: "suf \<noteq> [] \<Longrightarrow> (of_char (hd suf) :: nat) < 128"
  shows "pod_uid_of_part (pre @ ''pod'' @ uid @ suf) = Some (underscores_to_dashes uid)"
  using rfind_pod_layout [OF uid suf, of pre] str_get_uid [OF uid ascii, of pre] utf uid
  by (simp add: pod_uid_of_part_def to_str_def)

lemma ascii_valid_utf8: "(\<And>c. c \<in> set s \<Longrightarrow> (of_char c :: nat) < 128) \<Longrightarrow> valid_utf8 (str_bytes s)"
  by (rule valid_utf8_ascii) (auto simp: str_bytes_def word_less_nat_alt)

lemma from_utf8_ascii:
  "(\<And>c. c \<in> set s \<Longrightarrow> (of_char c :: nat) < 128) \<Longrightarrow> from_utf8 (str_bytes s) = Some s"
  by (simp add: from_utf8_def ascii_valid_utf8)

lemma is_ws_le: "is_ws c \<Longrightarrow> (of_char c :: nat) \<le> 32"
  unfolding is_ws_def by (elim disjE) simp_all

lemma dec_str_ascii: "c \<in> set (dec_str n) \<Longrightarrow> (of_char c :: nat) < 128 \<and> \<not> is_ws c"
proof -
  assume "c \<in> set (dec_str n)"
  then obtain d where d: "d < 10" "c = digit_char d" using dec_str_digits by blast
  have n: "(of_char c :: nat) = 48 + d" unfolding d(2) by (rule of_char_digit_char [OF d(1)])
  have "\<not> is_ws c"
  proof
    assume "is_ws c"
    from is_ws_le [OF this] n show False by simp
  qed
  with n d(1) show ?thesis by simp
qed

lemma newline_not_dec: "newline \<notin> set (dec_str n)"
  by (rule dec_str_notin) (simp add: newline_def)

lemma parse_u64_dec_str: "n < 2 ^ 64 \<Longrightarrow> parse_u64 (dec_str n) = Some n"
  using parse_uint_zero_pad [of n "2 ^ 64" 0] by (simp add: parse_u64_def zero_pad_def)

lemma trim_append_ws:
  assumes "s \<noteq> []" and "\<not> is_ws (hd s)" and "list_all is_ws w"
  shows "trim (s @ w) = trim s"
proof -
  from assms have "dropWhile is_ws (s @ w) = s @ w" "dropWhile is_ws s = s"
    by (cases s; simp)+
  moreover have "dropWhile is_ws (rev (s @ w)) = dropWhile is_ws (rev s)"
    using assms(3) by (simp add: dropWhile_append list_all_iff)
  ultimately show ?thesis by (simp add: trim_def)
qed

lemma trim_dec_str:
  assumes "list_all is_ws w"
  shows "trim (dec_str n @ w) = dec_str n"
proof -
  have h: "\<not> is_ws (hd (dec_str n))" "\<not> is_ws (last (dec_str n))"
    using dec_str_ascii hd_in_set last_in_set dec_str_nonempty by blast+
  have "dropWhile is_ws (dec_str n) = dec_str n"
    using h(1) by (cases "dec_str n") auto
  moreover have "dropWhile is_ws (rev (dec_str n)) = rev (dec_str n)"
    using h(2) by (cases "dec_str n" rule: rev_cases) auto
  ultimately have "trim (dec_str n) = dec_str n" by (simp add: trim_def)
  with trim_append_ws [OF dec_str_nonempty h(1) assms] show ?thesis by simp
qed

lemma length_u64_dec_str: "n < 2 ^ 64 \<Longrightarrow> length (dec_str n) \<le> 20"
  by (rule length_dec_str) simp_all

lemma not_ws_newline: "is_ws newline"
  by (simp add: is_ws_def newline_def)

lemma parse_u64_bound: "parse_u64 s = Some n \<Longrightarrow> n < 2 ^ 64"
  unfolding parse_u64_def by (rule parse_uint_bound)

lemma counters_are_u64:
  "read_memory_current_at p v = Inr n \<Longrightarrow> n < 2 ^ 64"
  "read_cpu_usage_usec_at p v = Inr n \<Longrightarrow> n < 2 ^ 64"
  "read_inactive_file_at v = Some n \<Longrightarrow> n < 2 ^ 64"
  by (auto simp: read_memory_current_at_def read_cpu_usage_usec_at_def read_inactive_file_at_def Let_def
      dest!: parse_u64_bound split: sum.splits if_splits option.splits list.splits)

lemma read_memory_current_dec:
  assumes "n < 2 ^ 64"
  shows "read_memory_current_at p (Content (str_bytes (dec_str n @ [newline]))) = Inr n"
proof -
  have len: "length (dec_str n) \<le> 20" by (rule length_u64_dec_str [OF assms])
  have nl: "(of_char newline :: nat) < 128" by (simp add: newline_def)
  let ?m = "dec_str n @ [newline]"
  have "take 32 (str_bytes ?m) = str_bytes ?m" using len by simp
  moreover have "from_utf8 (str_bytes ?m) = Some ?m"
    using dec_str_ascii nl by (intro from_utf8_ascii) auto
  moreover have "str_bytes ?m \<noteq> []" by (simp add: str_bytes_def)
  ultimately show ?thesis
    using assms
    by (simp add: read_memory_current_at_def read_once_def trim_dec_str not_ws_newline parse_u64_dec_str Let_def)
qed

text \<open>The first \<open>k\<close> bytes of an ASCII file that begins with \<open>a\<close>.\<close>

lemma read_ascii_head:
  assumes "length a \<le> k" and "\<forall>c \<in> set (a @ rest). (of_char c :: nat) < 128"
  obtains r where "take k (str_bytes (a @ rest)) = str_bytes (a @ r)" and "from_utf8 (str_bytes (a @ r)) = Some (a @ r)"
proof
  let ?r = "take (k - length a) rest"
  show "take k (str_bytes (a @ rest)) = str_bytes (a @ ?r)"
    using assms(1) by (simp add: str_bytes_def take_map)
  show "from_utf8 (str_bytes (a @ ?r)) = Some (a @ ?r)"
    using assms(2) by (intro from_utf8_ascii) (auto dest: in_set_takeD)
qed

lemma str_lines_Nil [simp]: "str_lines [] = []"
  by (simp add: str_lines_def)

lemma str_lines_Cons: "newline \<notin> set l \<Longrightarrow> str_lines (l @ newline # s) = strip_cr l # str_lines s"
  by (simp add: str_lines_def split_on_append Let_def)

lemma str_lines_block:
  "\<forall>l \<in> set ls. newline \<notin> set l \<Longrightarrow> str_lines (concat (map (\<lambda>l. l @ [newline]) ls) @ s) = map strip_cr ls @ str_lines s"
  by (induction ls) (simp_all add: str_lines_Cons)

lemma strip_cr_dec: "strip_cr (p @ dec_str n) = p @ dec_str n"
proof -
  have "carriage_return \<notin> set (dec_str n)" by (rule dec_str_notin) (simp add: carriage_return_def)
  then have "last (dec_str n) \<noteq> carriage_return" using last_in_set [OF dec_str_nonempty] by metis
  then show ?thesis by (simp add: strip_cr_def)
qed

lemma strip_cr_prefix: "strip_prefix p l = None \<Longrightarrow> strip_prefix p (strip_cr l) = None"
proof (rule ccontr)
  assume n: "strip_prefix p l = None" and "strip_prefix p (strip_cr l) \<noteq> None"
  then obtain r where "strip_cr l = p @ r" by (auto simp: strip_prefix_Some)
  then have "\<exists>r'. l = p @ r'" unfolding strip_cr_def
    by (auto split: if_splits) (metis append.assoc append_butlast_last_id)
  with n strip_prefix_Some [of p l] show False by auto
qed

lemma ascii_newline: "(of_char newline :: nat) < 128"
  by (simp add: newline_def)

lemma read_cpu_usage_dec:
  assumes "n < 2 ^ 64" and "\<forall>c \<in> set rest. (of_char c :: nat) < 128"
  shows "read_cpu_usage_usec_at p (Content (str_bytes (''usage_usec '' @ dec_str n @ [newline] @ rest))) = Inr n"
proof -
  have len: "length (dec_str n) \<le> 20" by (rule length_u64_dec_str [OF assms(1)])
  let ?l = "''usage_usec '' @ dec_str n"
  have "\<forall>c \<in> set ((?l @ [newline]) @ rest). (of_char c :: nat) < 128"
    using assms(2) dec_str_ascii ascii_newline by auto
  then obtain r where r: "take 256 (str_bytes ((?l @ [newline]) @ rest)) = str_bytes ((?l @ [newline]) @ r)"
      "from_utf8 (str_bytes ((?l @ [newline]) @ r)) = Some ((?l @ [newline]) @ r)"
    using len by (elim read_ascii_head [rotated]) auto
  have "newline \<notin> set ?l" using newline_not_dec by (simp add: newline_def)
  then have ls: "str_lines (?l @ newline # r) = ?l # str_lines r"
    using str_lines_Cons [of ?l r] strip_cr_dec [of _ n] by metis
  have ne: "str_bytes ((?l @ [newline]) @ r) \<noteq> []" by (simp add: str_bytes_def)
  show ?thesis
    using r ls ne trim_dec_str [of "[]" n] assms(1)
    by (simp add: read_cpu_usage_usec_at_def read_once_def parse_u64_dec_str Let_def)
qed

lemma read_inactive_file_dec:
  assumes "n < 2 ^ 64" and "\<forall>c \<in> set rest. (of_char c :: nat) < 128"
    and "\<forall>l \<in> set before. newline \<notin> set l \<and> strip_prefix ''inactive_file '' l = None \<and> (\<forall>c \<in> set l. (of_char c :: nat) < 128)"
    and "length (concat (map (\<lambda>l. l @ [newline]) before) @ ''inactive_file '' @ dec_str n @ [newline]) \<le> 4096"
  shows "read_inactive_file_at (Content (str_bytes
           (concat (map (\<lambda>l. l @ [newline]) before) @ ''inactive_file '' @ dec_str n @ [newline] @ rest))) = Some n"
proof -
  let ?b = "concat (map (\<lambda>l. l @ [newline]) before)" and ?l = "''inactive_file '' @ dec_str n"
  have "\<forall>c \<in> set ((?b @ ?l @ [newline]) @ rest). (of_char c :: nat) < 128"
    using assms(2,3) dec_str_ascii ascii_newline by auto
  then obtain r where r: "take 4096 (str_bytes ((?b @ ?l @ [newline]) @ rest)) = str_bytes ((?b @ ?l @ [newline]) @ r)"
      "from_utf8 (str_bytes ((?b @ ?l @ [newline]) @ r)) = Some ((?b @ ?l @ [newline]) @ r)"
    using assms(4) by (elim read_ascii_head [rotated]) auto
  have "newline \<notin> set ?l" using newline_not_dec by (simp add: newline_def)
  then have "str_lines (?b @ ?l @ newline # r) = map strip_cr before @ ?l # str_lines r"
    using assms(3) str_lines_block [of before "?l @ newline # r"] str_lines_Cons [of ?l r] strip_cr_dec [of _ n] by metis
  moreover have "List.map_filter (strip_prefix ''inactive_file '') (map strip_cr before) = []"
    using assms(3) strip_cr_prefix by (auto simp: map_filter_def filter_empty_conv)
  ultimately have "List.map_filter (strip_prefix ''inactive_file '') (str_lines (?b @ ?l @ newline # r))
      = dec_str n # List.map_filter (strip_prefix ''inactive_file '') (str_lines r)"
    by (simp add: map_filter_def)
  with r trim_dec_str [of "[]" n] assms(1) show ?thesis
    by (simp add: read_inactive_file_at_def read_once_def parse_u64_dec_str)
qed

lemma read_inactive_file_none:
  assumes "\<forall>l \<in> set ls. newline \<notin> set l \<and> strip_prefix ''inactive_file '' l = None \<and> (\<forall>c \<in> set l. (of_char c :: nat) < 128)"
    and "length (concat (map (\<lambda>l. l @ [newline]) ls)) \<le> 4096"
  shows "read_inactive_file_at (Content (str_bytes (concat (map (\<lambda>l. l @ [newline]) ls)))) = None"
proof -
  let ?b = "concat (map (\<lambda>l. l @ [newline]) ls)"
  have "from_utf8 (str_bytes ?b) = Some ?b"
    using assms(1) ascii_newline by (intro from_utf8_ascii) (auto split: if_splits)
  moreover have "str_lines ?b = map strip_cr ls" using str_lines_block [of ls "[]"] assms(1) by simp
  moreover have "List.map_filter (strip_prefix ''inactive_file '') (map strip_cr ls) = []"
    using assms(1) strip_cr_prefix by (auto simp: map_filter_def filter_empty_conv)
  ultimately show ?thesis using assms(2) by (simp add: read_inactive_file_at_def read_once_def)
qed

section \<open>Properties\<close>

text \<open>
  C33: Kernel counters are read exactly.  For every 64-bit value, the text the kernel writes to
  \<^verbatim>\<open>memory.current\<close> (the decimal number and a newline) is read back as that value; so is the
  first line of \<^verbatim>\<open>cpu.stat\<close> whatever follows it in the file; and so is the line \<^verbatim>\<open>inactive_file\<close> of
  \<^verbatim>\<open>memory.stat\<close>, whatever other lines come before and after it, if it ends within the 4096 bytes
  that are read.  A \<^verbatim>\<open>memory.stat\<close> without that line gives no value.
\<close>

theorem kernel_counters_round_trip:
  assumes "n < 2 ^ 64" and "\<forall>c \<in> set rest. (of_char c :: nat) < 128"
    and "\<forall>l \<in> set before. newline \<notin> set l \<and> strip_prefix ''inactive_file '' l = None \<and> (\<forall>c \<in> set l. (of_char c :: nat) < 128)"
    and "length (concat (map (\<lambda>l. l @ [newline]) before) @ ''inactive_file '' @ dec_str n @ [newline]) \<le> 4096"
  shows "read_memory_current_at p (Content (str_bytes (dec_str n @ [newline]))) = Inr n
     \<and> read_cpu_usage_usec_at p (Content (str_bytes (''usage_usec '' @ dec_str n @ [newline] @ rest))) = Inr n
     \<and> read_inactive_file_at (Content (str_bytes
           (concat (map (\<lambda>l. l @ [newline]) before) @ ''inactive_file '' @ dec_str n @ [newline] @ rest))) = Some n
     \<and> read_inactive_file_at (Content (str_bytes (concat (map (\<lambda>l. l @ [newline]) before)))) = None"
  using read_memory_current_dec [OF assms(1)] read_cpu_usage_dec [OF assms(1,2)] read_inactive_file_dec [OF assms]
    read_inactive_file_none [OF assms(3)] assms(4) by simp

theorem kernel_counters_round_trip_witness:
  "read_cpu_usage_usec_at [] (Content (str_bytes (''usage_usec '' @ dec_str 123456 @ [newline] @ ''nr_periods 10''))) = Inr 123456
   \<and> read_inactive_file_at (Content (str_bytes (''anon 5'' @ [newline] @ ''inactive_file '' @ dec_str 123456 @ [newline] @ ''nr_periods 10'')))
       = Some 123456"
proof -
  have "length (dec_str 123456) \<le> 20" by (rule length_u64_dec_str) simp
  then show ?thesis
    using kernel_counters_round_trip [of 123456 "''nr_periods 10''" "[''anon 5'']" "[]"] by (simp add: newline_def)
qed



text \<open>
  Container IDs in every runtime.  A folder name with any prefix ending in a dash, a
  64-digit hexadecimal ID and the suffix \<^verbatim>\<open>.scope\<close>, or the bare ID, gives the ID; and whatever
  the function returns is such an ID, at the end of the name.
\<close>

theorem container_id_every_runtime:
  "(length cid = 64 \<and> list_all is_ascii_hexdigit cid \<longrightarrow>
      container_id_from_dir_name (prefix @ ''-'' @ cid @ ''.scope'') = Some cid
      \<and> container_id_from_dir_name cid = Some cid)
   \<and> (container_id_from_dir_name name = Some cid \<longrightarrow>
        length cid = 64 \<and> list_all is_ascii_hexdigit cid
        \<and> (\<exists>pre. name = pre @ cid \<or> name = pre @ cid @ ''.scope''))"
proof (intro conjI impI)
  assume cid: "length cid = 64 \<and> list_all is_ascii_hexdigit cid"
  then have dash: "CHR ''-'' \<notin> set cid" and dot: "CHR ''.'' \<notin> set cid"
    using hexdigit_ne(2,3) by (auto simp: list_all_iff)
  have "strip_suffix ''.scope'' (prefix @ ''-'' @ cid @ ''.scope'') = Some (prefix @ ''-'' @ cid)"
    using strip_suffix_append [of "''.scope''" "prefix @ ''-'' @ cid"] by simp
  then show "container_id_from_dir_name (prefix @ ''-'' @ cid @ ''.scope'') = Some cid"
    using cid after_last_append [OF dash, of prefix] by (simp add: container_id_from_dir_name_def)
  have "strip_suffix ''.scope'' cid = None"
  proof (rule ccontr)
    assume "strip_suffix ''.scope'' cid \<noteq> None"
    then obtain r where "cid = r @ ''.scope''" by (auto simp: strip_suffix_Some)
    with dot show False by simp
  qed
  then show "container_id_from_dir_name cid = Some cid"
    using cid after_last_none [OF dash] by (simp add: container_id_from_dir_name_def)
next
  assume c: "container_id_from_dir_name name = Some cid"
  let ?n = "case strip_suffix ''.scope'' name of Some n \<Rightarrow> n | None \<Rightarrow> name"
  have a: "cid = after_last CHR ''-'' ?n" "length cid = 64" "list_all is_ascii_hexdigit cid"
    using c by (auto simp: container_id_from_dir_name_def Let_def split: if_splits)
  then show "length cid = 64" "list_all is_ascii_hexdigit cid" by simp_all
  have "rev (dropWhile (\<lambda>c. c \<noteq> CHR ''-'') (rev ?n)) @ cid = ?n"
    unfolding a(1) after_last_def by (metis rev_append rev_rev_ident takeWhile_dropWhile_id)
  then obtain pre where pre: "?n = pre @ cid" by metis
  show "\<exists>pre. name = pre @ cid \<or> name = pre @ cid @ ''.scope''"
  proof (cases "strip_suffix ''.scope'' name")
    case None
    with pre show ?thesis by auto
  next
    case (Some m)
    with pre show ?thesis by (auto simp: strip_suffix_Some)
  qed
qed

theorem container_id_every_runtime_witness:
  "container_id_from_dir_name (''cri-containerd'' @ ''-'' @ replicate 64 CHR ''a'' @ ''.scope'') = Some (replicate 64 CHR ''a'')"
  using container_id_every_runtime [of "replicate 64 CHR ''a''" "''cri-containerd''" "[]"]
  by (simp add: list_all_iff is_ascii_hexdigit_def)

end
