(* ===== verification/Quantity.thy ===== *)
theory Quantity
  imports F64 Cgroup_Files
begin

text \<open>
  Kubernetes resource quantities as \<^verbatim>\<open>statix/src/attribution/mod.rs\<close> reads them: CPU in millicores,
  memory in bytes, and the requests and limits of a container.
\<close>

section \<open>Quantities\<close>

definition f64_of_nat :: "nat \<Rightarrow> f64" where
  "f64_of_nat n = f64_round False (n, 1)"

definition finite_nonneg_u64 :: "f64 \<Rightarrow> nat option" where
  "finite_nonneg_u64 x =
     (case x of
        F64 neg m e \<Rightarrow> if f64_is_finite x \<and> f64_nonneg x then Some (f64_round_to_u64 m e) else None
      | _ \<Rightarrow> None)"

definition cpu_millicores :: "string \<Rightarrow> nat option" where
  "cpu_millicores q =
     (let q = trim q
      in case (case strip_suffix ''m'' q of
                 Some m \<Rightarrow> parse_f64 m
               | None \<Rightarrow> map_option (\<lambda>x. f64_mul x (f64_of_nat 1000)) (parse_f64 q)) of
           None \<Rightarrow> None
         | Some millicores \<Rightarrow> finite_nonneg_u64 millicores)"

definition memory_units :: "(string \<times> nat) list" where
  "memory_units =
     [(''Ki'', 1024), (''Mi'', 1024 * 1024), (''Gi'', 1024 * 1024 * 1024),
      (''Ti'', 1024 * 1024 * 1024 * 1024), (''Pi'', 1024 * 1024 * 1024 * 1024 * 1024),
      (''Ei'', 1024 * 1024 * 1024 * 1024 * 1024 * 1024),
      (''k'', 1000), (''M'', 1000000), (''G'', 1000000000), (''T'', 1000000000000),
      (''P'', 1000000000000000), (''E'', 1000000000000000000)]"

definition memory_bytes :: "string \<Rightarrow> nat option" where
  "memory_bytes q =
     (let q = trim q;
          (number, factor) =
            (case List.map_filter (\<lambda>(suffix, factor). map_option (\<lambda>num. (num, factor)) (strip_suffix suffix q))
                    memory_units of
               nf # _ \<Rightarrow> nf
             | [] \<Rightarrow> (q, 1))
      in case parse_f64 number of
           None \<Rightarrow> None
         | Some x \<Rightarrow> finite_nonneg_u64 (f64_mul x (f64_of_nat factor)))"

section \<open>Requests and limits\<close>

record Resources =
  rs_cpu_request_millicores :: nat
  rs_memory_request_bytes :: nat
  rs_cpu_limit_millicores :: nat
  rs_memory_limit_bytes :: nat

definition no_resources :: Resources where
  "no_resources = \<lparr>rs_cpu_request_millicores = 0, rs_memory_request_bytes = 0,
     rs_cpu_limit_millicores = 0, rs_memory_limit_bytes = 0\<rparr>"

text \<open>The fields of a Kubernetes \<^verbatim>\<open>ResourceRequirements\<close> that are read.\<close>

record resource_requirements =
  rr_requests :: "(string \<times> string) list option"
  rr_limits :: "(string \<times> string) list option"

definition quantity :: "(string \<times> string) list option \<Rightarrow> string \<Rightarrow> string option" where
  "quantity m key = (case m of None \<Rightarrow> None | Some kv \<Rightarrow> map_of kv key)"

definition or_zero :: "nat option \<Rightarrow> nat" where
  "or_zero x = (case x of Some n \<Rightarrow> n | None \<Rightarrow> 0)"

definition resources_from :: "resource_requirements option \<Rightarrow> Resources" where
  "resources_from spec =
     (case spec of
        None \<Rightarrow> no_resources
      | Some r \<Rightarrow>
          \<lparr>rs_cpu_request_millicores = or_zero (Option.bind (quantity (rr_requests r) ''cpu'') cpu_millicores),
           rs_memory_request_bytes = or_zero (Option.bind (quantity (rr_requests r) ''memory'') memory_bytes),
           rs_cpu_limit_millicores = or_zero (Option.bind (quantity (rr_limits r) ''cpu'') cpu_millicores),
           rs_memory_limit_bytes = or_zero (Option.bind (quantity (rr_limits r) ''memory'') memory_bytes)\<rparr>)"

section \<open>Exactness\<close>

lemma span_digits_append:
  "(\<And>c. c \<in> set ds \<Longrightarrow> digit_val c \<noteq> None) \<Longrightarrow> (r \<noteq> [] \<Longrightarrow> digit_val (hd r) = None) \<Longrightarrow>
   span_digits (ds @ r) = (ds, r)"
proof (induction ds)
  case Nil
  then show ?case by (cases r) auto
next
  case (Cons c ds)
  obtain d where "digit_val c = Some d" using Cons.prems(1) [of c] by auto
  with Cons show ?case by simp
qed

lemma dec_str_digit_val: "c \<in> set (dec_str n) \<Longrightarrow> digit_val c \<noteq> None"
  using dec_str_digits by fastforce

lemma dec_str_hd: "\<exists>d < 10. hd (dec_str n) = digit_char d"
  using dec_str_digits hd_in_set dec_str_nonempty by blast

lemma digit_char_cases:
  assumes "d < 10"
  shows "digit_char d \<in> set ''0123456789''"
proof -
  have "map digit_char [0..<10] = ''0123456789''" by code_simp
  then show ?thesis using assms by (metis atLeastLessThan_iff imageI list.set_map set_upt zero_le)
qed

lemma parse_f64_dec_str: "parse_f64 (dec_str n) = Some (f64_of_nat n)"
proof -
  obtain c cs where s: "dec_str n = c # cs" by (cases "dec_str n") auto
  then obtain d where d: "d < 10" "c = digit_char d" using dec_str_hd [of n] by auto
  note c = digit_char_cases [OF d(1), folded d(2), simplified]
  have sp: "span_digits (dec_str n) = (dec_str n, [])"
    using span_digits_append [of "dec_str n" "[]"] dec_str_digit_val by simp
  have sign: "(case dec_str n of CHR ''+'' # r \<Rightarrow> (False, r) | CHR ''-'' # r \<Rightarrow> (True, r) | _ \<Rightarrow> (False, dec_str n))
      = (False, dec_str n)"
    using c unfolding s by (elim disjE) simp_all
  have low: "to_ascii_lowercase (dec_str n) \<noteq> ''inf''" "to_ascii_lowercase (dec_str n) \<noteq> ''infinity''"
      "to_ascii_lowercase (dec_str n) \<noteq> ''nan''"
    using c unfolding s to_ascii_lowercase_def by (auto simp: to_ascii_lower_def)
  show ?thesis
    unfolding parse_f64_def sign Let_def prod.case sp
    using low by (simp add: parse_exponent_def digits_num_def f64_of_nat_def)
qed

lemma f64_of_nat_exact: "f64_exact n \<Longrightarrow> f64_nat (f64_of_nat n) n"
  using f64_round_exact [of n 0] by (simp add: f64_of_nat_def)

lemma finite_nonneg_u64_exact: "f64_nat x n \<Longrightarrow> finite_nonneg_u64 x = Some (min (2 ^ 64 - 1) n)"
  using f64_nat_u64 by (cases x) (auto simp: finite_nonneg_u64_def f64_nat_def)

lemma f64_exact_small: "n < 2 ^ 53 \<Longrightarrow> f64_exact n"
  unfolding f64_exact_def by (intro conjI exI [of _ n] exI [of _ 0]) (simp_all add: less_le_trans)

lemma f64_exact_shift: "n < 2 ^ 53 \<Longrightarrow> k \<le> 60 \<Longrightarrow> f64_exact (n * 2 ^ k)"
proof -
  assume n: "n < 2 ^ 53" and k: "k \<le> 60"
  have "n * 2 ^ k < 2 ^ 53 * 2 ^ k" using n by simp
  also have "\<dots> = 2 ^ (53 + k)" by (simp add: power_add)
  also have "\<dots> \<le> 2 ^ 1024" using k by (intro power_increasing) simp_all
  finally show ?thesis using n by (auto simp: f64_exact_def)
qed

lemma trim_suffix_word:
  assumes "s \<noteq> []" and "\<not> is_ws (last s)"
  shows "trim (dec_str n @ s) = dec_str n @ s"
proof -
  have "\<not> is_ws (hd (dec_str n))" using dec_str_ascii hd_in_set dec_str_nonempty by blast
  then have "dropWhile is_ws (dec_str n @ s) = dec_str n @ s"
    by (cases "dec_str n") auto
  moreover have "dropWhile is_ws (rev (dec_str n @ s)) = rev (dec_str n @ s)"
    using assms by (cases s rule: rev_cases) auto
  ultimately show ?thesis by (simp add: trim_def)
qed

lemma strip_suffix_None: "suf \<noteq> [] \<Longrightarrow> s \<noteq> [] \<Longrightarrow> last s \<noteq> last suf \<Longrightarrow> strip_suffix suf s = None"
  by (cases "strip_suffix suf s") (auto simp: strip_suffix_Some)

text \<open>No unit is a suffix of another one, so the search finds the one that was written.\<close>

lemma memory_unit_names: "map fst memory_units = [''Ki'', ''Mi'', ''Gi'', ''Ti'', ''Pi'', ''Ei'', ''k'', ''M'', ''G'', ''T'', ''P'', ''E'']"
  by (simp add: memory_units_def)

lemma memory_units_apart:
  "list_all (\<lambda>u. u \<noteq> [] \<and> list_all (\<lambda>v. length u = length v \<or> last v \<noteq> last u) (map fst memory_units)) (map fst memory_units)
   \<and> distinct (map fst memory_units)"
  unfolding memory_unit_names by code_simp

lemma strip_unit:
  assumes "u \<in> set (map fst memory_units)" and "suf \<in> set (map fst memory_units)"
  shows "strip_suffix u (s @ suf) = (if u = suf then Some s else None)"
proof (cases "strip_suffix u (s @ suf)")
  case None
  then show ?thesis by (auto simp: strip_suffix_append)
next
  case (Some r)
  then have e: "s @ suf = r @ u" by (simp add: strip_suffix_Some)
  have "u \<noteq> []" "suf \<noteq> []" and l: "length u = length suf \<or> last suf \<noteq> last u"
    using memory_units_apart assms by (auto simp: list_all_iff)
  with arg_cong [OF e, of last] have "length u = length suf" by auto
  with e have "s = r" "suf = u" by simp_all
  with Some show ?thesis by simp
qed

lemma map_filter_single:
  "(k, v) \<in> set xs \<Longrightarrow> distinct (map fst xs) \<Longrightarrow> (\<And>u f. (u, f) \<in> set xs \<Longrightarrow> g (u, f) = (if u = k then Some (h f) else None))
   \<Longrightarrow> List.map_filter g xs = [h v]"
proof (induction xs)
  case (Cons x xs)
  show ?case
  proof (cases "fst x = k")
    case True
    with Cons.prems(2) have k: "\<forall>y \<in> set xs. fst y \<noteq> k" by (auto simp: image_iff)
    with Cons.prems(1) have "x = (k, v)" by auto
    moreover from k have "List.map_filter g xs = []"
      using Cons.prems(3) by (force simp: map_filter_def filter_empty_conv)
    ultimately show ?thesis using Cons.prems(3) [of k v] by (simp add: map_filter_def)
  next
    case False
    then have "g x = None" using Cons.prems(3) [of "fst x" "snd x"] by simp
    moreover have "List.map_filter g xs = [h v]" using Cons False by (intro Cons.IH) auto
    ultimately show ?thesis by (simp add: map_filter_def)
  qed
qed simp

lemma memory_unit_found:
  assumes "(suf, factor) \<in> set memory_units"
  shows "List.map_filter (\<lambda>(suffix, factor). map_option (\<lambda>num. (num, factor)) (strip_suffix suffix (s @ suf))) memory_units
     = [(s, factor)]"
proof (rule map_filter_single [OF assms])
  show "distinct (map fst memory_units)" using memory_units_apart by blast
next
  fix u f assume "(u, f) \<in> set memory_units"
  then show "(case (u, f) of (suffix, factor) \<Rightarrow> map_option (\<lambda>num. (num, factor)) (strip_suffix suffix (s @ suf)))
      = (if u = suf then Some (s, f) else None)"
    using strip_unit [of u suf s] assms by force
qed

lemma memory_unit_word: "(suf, factor) \<in> set memory_units \<Longrightarrow> suf \<noteq> [] \<and> \<not> is_ws (last suf)"
  by (auto simp: memory_units_def is_ws_def)

lemma memory_unit_exact: "(suf, factor) \<in> set memory_units \<Longrightarrow> f64_exact factor"
proof -
  assume "(suf, factor) \<in> set memory_units"
  then have "factor < 2 ^ 53 \<or> factor = 5 ^ 18 * 2 ^ 18 \<or> factor = 1 * 2 ^ 60" by (auto simp: memory_units_def)
  then show ?thesis using f64_exact_small f64_exact_shift [of "5 ^ 18" 18] f64_exact_shift [of 1 60] by auto
qed

lemma memory_bytes_scaled:
  assumes "(suf, factor) \<in> set memory_units"
    and "f64_exact n" and "f64_exact (n * factor)" and "n * factor < 2 ^ 64"
  shows "memory_bytes (dec_str n @ suf) = Some (n * factor)"
proof -
  note w = memory_unit_word [OF assms(1)]
  have "f64_nat (f64_mul (f64_of_nat n) (f64_of_nat factor)) (n * factor)"
    by (rule f64_mul_exact) (use assms memory_unit_exact in \<open>simp_all add: f64_of_nat_exact\<close>)
  then show ?thesis
    using memory_unit_found [OF assms(1), of "dec_str n"] assms(4) w unfolding memory_bytes_def Let_def
    by (auto simp: trim_suffix_word parse_f64_dec_str finite_nonneg_u64_exact)
qed

lemma memory_bytes_binary:
  assumes "n < 2 ^ 53" and "(suf, 2 ^ k) \<in> set memory_units" and "k \<le> 60" and "n * 2 ^ k < 2 ^ 64"
  shows "memory_bytes (dec_str n @ suf) = Some (n * 2 ^ k)"
  using memory_bytes_scaled [OF assms(2)] f64_exact_small f64_exact_shift assms by simp

lemma memory_bytes_decimal:
  assumes "n < 2 ^ 53" and "(suf, 10 ^ k) \<in> set memory_units" and "k \<le> 60" and "n * 5 ^ k < 2 ^ 53" and "n * 10 ^ k < 2 ^ 64"
  shows "memory_bytes (dec_str n @ suf) = Some (n * 10 ^ k)"
proof -
  have "n * 10 ^ k = n * 5 ^ k * 2 ^ k" by (simp flip: power_mult_distrib)
  then have "f64_exact (n * 10 ^ k)" using f64_exact_shift [OF assms(4,3)] by (simp only:)
  then show ?thesis by (rule memory_bytes_scaled [OF assms(2) f64_exact_small [OF assms(1)] _ assms(5)])
qed

lemma dec_str_strip_None:
  assumes "suf \<noteq> []" and "(of_char (last suf) :: nat) > 57"
  shows "strip_suffix suf (dec_str n) = None"
proof (rule strip_suffix_None)
  show "last (dec_str n) \<noteq> last suf"
    using dec_str_notin [of "last suf" n] assms(2) last_in_set [OF dec_str_nonempty] by metis
qed (use assms in auto)

lemma memory_bytes_plain:
  assumes "n < 2 ^ 53"
  shows "memory_bytes (dec_str n) = Some n"
proof -
  have "\<forall>(u, f) \<in> set memory_units. strip_suffix u (dec_str n) = None"
    by (auto simp: memory_units_def intro!: dec_str_strip_None)
  then have mf: "List.map_filter (\<lambda>(suffix, factor). map_option (\<lambda>num. (num, factor)) (strip_suffix suffix (dec_str n)))
      memory_units = []"
    by (auto simp: map_filter_def filter_empty_conv)
  have "f64_nat (f64_mul (f64_of_nat n) (f64_of_nat 1)) (n * 1)"
    using assms by (intro f64_mul_exact f64_of_nat_exact f64_exact_small) simp_all
  then show ?thesis
    using mf assms trim_dec_str [of "[]" n] unfolding memory_bytes_def
    by (simp add: parse_f64_dec_str finite_nonneg_u64_exact Let_def)
qed

section \<open>Properties\<close>

text \<open>
  C35: Whole quantities are read exactly.  For every whole number \<open>n\<close> below \<open>2 ^ 53\<close>, the double
  arithmetic of the parsers introduces no error: \<open>n\<close>m is \<open>n\<close> millicores and \<open>n\<close> is \<open>1000 * n\<close>
  millicores; plain bytes are \<open>n\<close>; with each of the binary units Ki to Ei it is \<open>n\<close> times the power of 1024, if that
  fits 64 bits, and with each of the decimal units k to E \<open>n\<close> times the power of 1000, if that fits
  64 bits and its odd part is below \<open>2 ^ 53\<close>, so that a double can hold it.
\<close>

theorem whole_quantities_exact:
  assumes "n < 2 ^ 53"
  shows "cpu_millicores (dec_str n @ ''m'') = Some n
     \<and> (n * 1000 < 2 ^ 53 \<longrightarrow> cpu_millicores (dec_str n) = Some (n * 1000))
     \<and> memory_bytes (dec_str n) = Some n
     \<and> (\<forall>(u, k) \<in> {(''Ki'', 10), (''Mi'', 20), (''Gi'', 30), (''Ti'', 40), (''Pi'', 50), (''Ei'', 60)}.
          n * 2 ^ k < 2 ^ 64 \<longrightarrow> memory_bytes (dec_str n @ u) = Some (n * 2 ^ k))
     \<and> (\<forall>(u, k) \<in> {(''k'', 3), (''M'', 6), (''G'', 9), (''T'', 12), (''P'', 15), (''E'', 18)}.
          n * 5 ^ k < 2 ^ 53 \<and> n * 10 ^ k < 2 ^ 64 \<longrightarrow> memory_bytes (dec_str n @ u) = Some (n * 10 ^ k))"
proof (intro conjI impI)
  note ex = f64_exact_small [OF assms]
  show "cpu_millicores (dec_str n @ ''m'') = Some n"
  proof -
    have "trim (dec_str n @ ''m'') = dec_str n @ ''m''"
      by (rule trim_suffix_word) (simp_all add: is_ws_def)
    then show ?thesis
      using finite_nonneg_u64_exact [OF f64_of_nat_exact [OF ex]] assms
      by (simp add: cpu_millicores_def parse_f64_dec_str Let_def)
  qed
  show "cpu_millicores (dec_str n) = Some (n * 1000)" if "n * 1000 < 2 ^ 53"
  proof -
    have "strip_suffix ''m'' (dec_str n) = None" by (rule dec_str_strip_None) simp_all
    moreover have "f64_nat (f64_mul (f64_of_nat n) (f64_of_nat 1000)) (n * 1000)"
      using that ex by (intro f64_mul_exact f64_of_nat_exact f64_exact_small) simp_all
    ultimately show ?thesis
      using that trim_dec_str [of "[]" n]
      by (simp add: cpu_millicores_def parse_f64_dec_str finite_nonneg_u64_exact Let_def)
  qed
  show "memory_bytes (dec_str n) = Some n" by (rule memory_bytes_plain [OF assms])
  show "\<forall>(u, k) \<in> {(''Ki'', 10), (''Mi'', 20), (''Gi'', 30), (''Ti'', 40), (''Pi'', 50), (''Ei'', 60)}.
          n * 2 ^ k < 2 ^ 64 \<longrightarrow> memory_bytes (dec_str n @ u) = Some (n * 2 ^ k)"
    by (auto simp del: power_numeral intro!: memory_bytes_binary [OF assms]) (simp_all add: memory_units_def)
  show "\<forall>(u, k) \<in> {(''k'', 3), (''M'', 6), (''G'', 9), (''T'', 12), (''P'', 15), (''E'', 18)}.
          n * 5 ^ k < 2 ^ 53 \<and> n * 10 ^ k < 2 ^ 64 \<longrightarrow> memory_bytes (dec_str n @ u) = Some (n * 10 ^ k)"
    by (auto simp del: power_numeral intro!: memory_bytes_decimal [OF assms]) (simp_all add: memory_units_def)
qed

theorem whole_quantities_exact_witness:
  "cpu_millicores (dec_str 250 @ ''m'') = Some 250 \<and> memory_bytes (dec_str 128 @ ''Ki'') = Some 131072
   \<and> memory_bytes (dec_str 3 @ ''E'') = Some 3000000000000000000"
  using whole_quantities_exact [of 250] whole_quantities_exact [of 128] whole_quantities_exact [of 3] by simp

end
