(* ===== verification/Wire.thy ===== *)
theory Wire
  imports Statix_Prelude
begin

text \<open>
  The data that crosses a boundary: the 64-byte ring-buffer record shared by the kernel probe
  and the agent (\<^verbatim>\<open>statix-common\<close>), the probe that fills it (\<^verbatim>\<open>statix-ebpf\<close>), the monitor of the
  probe's drop counters (\<^verbatim>\<open>loader.rs\<close>) and the batch the agent posts to the gateway
  (\<^verbatim>\<open>statix-wire\<close>).
\<close>

section \<open>Ring-buffer records\<close>

definition EVENT_KIND_WORKLOAD_IDENTITY :: u8 where
  "EVENT_KIND_WORKLOAD_IDENTITY = 1"

definition EVENT_KIND_MEMORY_SAMPLE :: u8 where
  "EVENT_KIND_MEMORY_SAMPLE = 2"

record StatixEvent =
  ev_kind :: u8
  ev_pad :: bytes
  ev_pid :: u32
  ev_tgid :: u32
  ev_cpu_id :: u32
  ev_pad2 :: u32
  ev_cgroup_id :: u64
  ev_timestamp :: u64
  ev_memory_bytes :: u64
  ev_comm :: bytes

text \<open>The array fields have the lengths of their Rust types.\<close>

definition event_ok :: "StatixEvent \<Rightarrow> bool" where
  "event_ok e \<longleftrightarrow> length (ev_pad e) = 7 \<and> length (ev_comm e) = 16"

text \<open>The \<^verbatim>\<open>repr(C)\<close> layout: the bytes the probe leaves in the slot, and the agent's view of them.\<close>

definition event_to_bytes :: "StatixEvent \<Rightarrow> bytes" where
  "event_to_bytes e = [ev_kind e] @ ev_pad e @ u32_to_le_bytes (ev_pid e) @ u32_to_le_bytes (ev_tgid e)
     @ u32_to_le_bytes (ev_cpu_id e) @ u32_to_le_bytes (ev_pad2 e) @ u64_to_le_bytes (ev_cgroup_id e)
     @ u64_to_le_bytes (ev_timestamp e) @ u64_to_le_bytes (ev_memory_bytes e) @ ev_comm e"

definition event_of_bytes :: "bytes \<Rightarrow> StatixEvent" where
  "event_of_bytes b =
     \<lparr>ev_kind = hd b, ev_pad = take 7 (drop 1 b), ev_pid = u32_from_le_bytes (take 4 (drop 8 b)),
      ev_tgid = u32_from_le_bytes (take 4 (drop 12 b)), ev_cpu_id = u32_from_le_bytes (take 4 (drop 16 b)),
      ev_pad2 = u32_from_le_bytes (take 4 (drop 20 b)), ev_cgroup_id = u64_from_le_bytes (take 8 (drop 24 b)),
      ev_timestamp = u64_from_le_bytes (take 8 (drop 32 b)),
      ev_memory_bytes = u64_from_le_bytes (take 8 (drop 40 b)), ev_comm = take 16 (drop 48 b)\<rparr>"

definition EVENT_SIZE :: nat where
  "EVENT_SIZE = 64"

section \<open>The kernel probe\<close>

text \<open>
  The state of one CPU's probe: the submitted records with their wake-up flags, the drop counter
  and the wake-up counter (\<open>None\<close> if the map lookup fails).
\<close>

record probe =
  pr_ring :: "(bytes \<times> u64) list"
  pr_drops :: "u64 option"
  pr_wakeups :: "u32 option"

definition BPF_RB_NO_WAKEUP :: u64 where
  "BPF_RB_NO_WAKEUP = 1"

definition record_ring_drop :: "probe \<Rightarrow> probe" where
  "record_ring_drop p = p\<lparr>pr_drops := map_option (\<lambda>n. n + 1) (pr_drops p)\<rparr>"

text \<open>What the BPF helpers return; \<open>reserved\<close> says whether the ring has room.\<close>

record bpf_ctx =
  bc_pid_tgid :: u64
  bc_cpu :: u32
  bc_cgroup :: u64
  bc_ktime :: u64
  bc_comm :: "bytes option"

definition capture_identity :: "bool \<Rightarrow> bpf_ctx \<Rightarrow> probe \<Rightarrow> probe" where
  "capture_identity reserved c p =
     (if \<not> reserved then record_ring_drop p
      else
        let e = \<lparr>ev_kind = EVENT_KIND_WORKLOAD_IDENTITY, ev_pad = replicate 7 0,
                 ev_pid = ucast (bc_pid_tgid c), ev_tgid = ucast (drop_bit 32 (bc_pid_tgid c)),
                 ev_cpu_id = bc_cpu c, ev_pad2 = 0, ev_cgroup_id = bc_cgroup c,
                 ev_timestamp = bc_ktime c, ev_memory_bytes = 0,
                 ev_comm = (case bc_comm c of Some n \<Rightarrow> n | None \<Rightarrow> replicate 16 0)\<rparr>
        in case pr_wakeups p of
             None \<Rightarrow> p\<lparr>pr_ring := pr_ring p @ [(event_to_bytes e, 0)]\<rparr>
           | Some n \<Rightarrow>
               let n1 = n + 1; flag = (if take_bit 6 n1 = 0 then 0 else BPF_RB_NO_WAKEUP)
               in p\<lparr>pr_wakeups := Some n1, pr_ring := pr_ring p @ [(event_to_bytes e, flag)]\<rparr>)"

text \<open>
  One poll of the drop monitor: the per-CPU counters (or a failed read), the running total it
  remembers, and the amount it adds to the exported counter.
\<close>

definition ring_drops_poll :: "u64 list option \<Rightarrow> u64 \<Rightarrow> u64 \<times> u64" where
  "ring_drops_poll values prev_total =
     (case values of
        None \<Rightarrow> (prev_total, 0)
      | Some vs \<Rightarrow>
          let total_drops = sum_list vs
          in if total_drops > 0
             then let delta = sat_sub total_drops prev_total
                  in if delta > 0 then (total_drops, delta) else (prev_total, 0)
             else (prev_total, 0))"

section \<open>Ingest batches\<close>

record WorkloadRow =
  wr_cgroup_id :: u64
  wr_namespace :: "string option"
  wr_pod :: "string option"
  wr_container :: "string option"
  wr_k8s_resolved :: bool
  wr_memory_bytes_max :: u64
  wr_memory_bytes_last :: u64
  wr_exec_count :: u32
  wr_sample_count :: u32
  wr_cpu_usage_usec :: u64
  wr_cpu_request_millicores :: u64
  wr_memory_request_bytes :: u64
  wr_cpu_limit_millicores :: u64
  wr_memory_limit_bytes :: u64

record IngestBatch =
  ib_schema_version :: u32
  ib_window_start_ns :: u64
  ib_window_end_ns :: u64
  ib_node :: string
  ib_batch_id :: string
  ib_agent_version :: string
  ib_workloads :: "WorkloadRow list"

section \<open>Properties\<close>

lemma length_event_to_bytes: "event_ok e \<Longrightarrow> length (event_to_bytes e) = EVENT_SIZE"
  by (simp add: event_to_bytes_def event_ok_def EVENT_SIZE_def)

lemma event_bytes_round_trip:
  assumes "event_ok e"
  shows "event_of_bytes (event_to_bytes e @ rest) = e"
proof -
  from assms have l: "length (ev_pad e) = 7" "length (ev_comm e) = 16" by (simp_all add: event_ok_def)
  have "event_of_bytes (event_to_bytes e @ rest) =
    \<lparr>ev_kind = ev_kind e, ev_pad = ev_pad e, ev_pid = ev_pid e, ev_tgid = ev_tgid e, ev_cpu_id = ev_cpu_id e,
     ev_pad2 = ev_pad2 e, ev_cgroup_id = ev_cgroup_id e, ev_timestamp = ev_timestamp e,
     ev_memory_bytes = ev_memory_bytes e, ev_comm = ev_comm e\<rparr>"
    unfolding event_of_bytes_def event_to_bytes_def using l by (simp add: drop_Cons')
  then show ?thesis by simp
qed

lemma every_64th_wakes: "take_bit 6 (n + 1 :: u32) = 0 \<longleftrightarrow> 64 dvd unat n + 1"
proof -
  have "unat (take_bit 6 (n + 1)) = (unat n + 1) mod 2 ^ 32 mod 2 ^ 6"
    by (simp add: unsigned_take_bit_eq take_bit_eq_mod unat_word_ariths)
  also have "\<dots> = (unat n + 1) mod 64" by (simp add: mod_mod_cancel)
  finally show ?thesis by (metis dvd_eq_mod_eq_0 unat_eq_0)
qed

text \<open>
  C28: What the agent sees is what the probe captured.  Every exec the probe captures with room
  in the ring appends one 64-byte record, which the agent reads back, in every field, as an identity event
  with the process and thread id halves, CPU, cgroup, time and command name of the helpers (a name of
  zeros if the helper failed); every 64th record wakes the agent, the others do not, and without the
  wakeup map every record does.  Without room the ring is unchanged and the drop counter goes
  up by one.
\<close>

theorem captured_identity_is_read_back:
  assumes "\<And>n. bc_comm c = Some n \<Longrightarrow> length n = 16"
  shows "(\<exists>b flag. pr_ring (capture_identity True c p) = pr_ring p @ [(b, flag)]
       \<and> length b = EVENT_SIZE
       \<and> event_of_bytes b =
           \<lparr>ev_kind = EVENT_KIND_WORKLOAD_IDENTITY, ev_pad = [0, 0, 0, 0, 0, 0, 0], ev_pid = ucast (bc_pid_tgid c),
            ev_tgid = ucast (drop_bit 32 (bc_pid_tgid c)), ev_cpu_id = bc_cpu c, ev_pad2 = 0,
            ev_cgroup_id = bc_cgroup c, ev_timestamp = bc_ktime c, ev_memory_bytes = 0,
            ev_comm = (case bc_comm c of Some n \<Rightarrow> n | None \<Rightarrow> replicate 16 0)\<rparr>
       \<and> (flag = 0 \<longleftrightarrow> (case pr_wakeups p of None \<Rightarrow> True | Some n \<Rightarrow> 64 dvd unat n + 1))
       \<and> (flag \<noteq> 0 \<longrightarrow> flag = BPF_RB_NO_WAKEUP))
     \<and> pr_wakeups (capture_identity True c p) = map_option (\<lambda>n. n + 1) (pr_wakeups p)
     \<and> pr_drops (capture_identity True c p) = pr_drops p
     \<and> pr_ring (capture_identity False c p) = pr_ring p
     \<and> pr_drops (capture_identity False c p) = map_option (\<lambda>n. n + 1) (pr_drops p)"
proof -
  let ?e = "\<lparr>ev_kind = EVENT_KIND_WORKLOAD_IDENTITY, ev_pad = replicate 7 0,
                 ev_pid = ucast (bc_pid_tgid c), ev_tgid = ucast (drop_bit 32 (bc_pid_tgid c)),
                 ev_cpu_id = bc_cpu c, ev_pad2 = 0, ev_cgroup_id = bc_cgroup c,
                 ev_timestamp = bc_ktime c, ev_memory_bytes = 0,
                 ev_comm = (case bc_comm c of Some n \<Rightarrow> n | None \<Rightarrow> replicate 16 0)\<rparr>"
  let ?flag = "case pr_wakeups p of None \<Rightarrow> 0 | Some n \<Rightarrow> if 64 dvd unat n + 1 then 0 else BPF_RB_NO_WAKEUP"
  have ok: "event_ok ?e" using assms by (auto simp: event_ok_def split: option.splits)
  have "pr_ring (capture_identity True c p) = pr_ring p @ [(event_to_bytes ?e, ?flag)]"
      "pr_drops (capture_identity True c p) = pr_drops p"
      "pr_wakeups (capture_identity True c p) = map_option (\<lambda>n. n + 1) (pr_wakeups p)"
    by (cases "pr_wakeups p"; simp add: capture_identity_def Let_def every_64th_wakes)+
  moreover have "event_of_bytes (event_to_bytes ?e) = ?e" using event_bytes_round_trip [OF ok, of "[]"] by simp
  moreover have "pr_ring (capture_identity False c p) = pr_ring p"
      "pr_drops (capture_identity False c p) = map_option (\<lambda>n. n + 1) (pr_drops p)"
    by (simp_all add: capture_identity_def record_ring_drop_def)
  ultimately show ?thesis
    using length_event_to_bytes [OF ok]
    by (intro conjI exI [of _ "event_to_bytes ?e"] exI [of _ ?flag])
       (auto simp: numeral_eq_Suc BPF_RB_NO_WAKEUP_def split: option.splits)
qed

theorem captured_identity_is_read_back_witness:
  "pr_drops (capture_identity False \<lparr>bc_pid_tgid = 0x500000007, bc_cpu = 3, bc_cgroup = 42, bc_ktime = 99,
       bc_comm = None\<rparr> \<lparr>pr_ring = [], pr_drops = Some 4, pr_wakeups = Some 63\<rparr>) = Some 5"
  using captured_identity_is_read_back [where
      c = "\<lparr>bc_pid_tgid = 0x500000007, bc_cpu = 3, bc_cgroup = 42, bc_ktime = 99, bc_comm = None\<rparr>"
      and p = "\<lparr>pr_ring = [], pr_drops = Some 4, pr_wakeups = Some 63\<rparr>"] by simp

fun ring_drops_polls :: "u64 list option list \<Rightarrow> u64 \<Rightarrow> u64 \<times> nat" where
  "ring_drops_polls [] prev = (prev, 0)"
| "ring_drops_polls (v # vs) prev =
     (let (t, d) = ring_drops_poll v prev; (t', n) = ring_drops_polls vs t in (t', unat d + n))"

fun totals_grow :: "u64 list option list \<Rightarrow> u64 \<Rightarrow> bool" where
  "totals_grow [] prev = True"
| "totals_grow (None # vs) prev = totals_grow vs prev"
| "totals_grow (Some v # vs) prev = (prev \<le> sum_list v \<and> totals_grow vs (sum_list v))"

lemma ring_drops_poll_step:
  assumes "prev \<le> sum_list v"
  shows "ring_drops_poll (Some v) prev = (sum_list v, sum_list v - prev)"
proof -
  have "sat_sub (sum_list v) prev = sum_list v - prev"
    using leD [OF assms] by (simp add: sat_sub_def)
  moreover have "sum_list v - prev = 0 \<longleftrightarrow> sum_list v = prev" by simp
  moreover have "prev \<le> 0 \<longleftrightarrow> prev = 0" by (simp add: word_le_nat_alt unat_eq_0)
  ultimately show ?thesis
    using assms by (auto simp: ring_drops_poll_def Let_def word_gt_0)
qed

text \<open>
  The exported drop counter catches up.  Over any sequence of polls in which the total of
  the per-CPU counters never decreases, the increments of the exported counter add up to the
  growth of the remembered total, and the remembered total is the last one read.
\<close>

theorem ring_drops_exported:
  assumes "totals_grow vs prev"
  shows "unat (fst (ring_drops_polls vs prev)) = unat prev + snd (ring_drops_polls vs prev)"
  using assms
proof (induction vs prev rule: totals_grow.induct)
  case (3 v vs prev)
  then have "unat (sum_list v - prev) = unat (sum_list v) - unat prev" "unat prev \<le> unat (sum_list v)"
    by (simp_all add: unat_sub word_le_nat_alt)
  with 3 show ?case by (simp add: ring_drops_poll_step split_beta)
qed (simp_all add: ring_drops_poll_def split_beta)

theorem ring_drops_exported_witness:
  "ring_drops_polls [Some [1, 0], None, Some [2, 3]] 0 = (5, 5)"
proof -
  have "totals_grow [Some [1, 0], None, Some [2, 3]] 0" by simp
  from ring_drops_exported [OF this] show ?thesis
    by (simp add: ring_drops_poll_def Let_def sat_sub_def)
qed

end
