(* ===== verification/Attribution.thy ===== *)
theory Attribution
  imports Quantity Wire Env
begin

text \<open>
  The attribution cache of \<^verbatim>\<open>statix/src/attribution/mod.rs\<close>: which cgroups are sampled, under
  which file names, and which namespace, pod and container they are labelled with.  Its maps
  are association lists; every operation is a function on the state behind the lock, and an
  operation that takes the lock twice is two functions.
\<close>

section \<open>Labels and pods\<close>

record WorkloadLabels =
  wl_namespace :: "string option"
  wl_pod :: "string option"
  wl_container :: "string option"
  wl_pod_uid :: "string option"
  wl_k8s_resolved :: bool
  wl_resources :: Resources

definition DEFAULT_LABELS :: WorkloadLabels where
  "DEFAULT_LABELS = \<lparr>wl_namespace = None, wl_pod = None, wl_container = None, wl_pod_uid = None,
     wl_k8s_resolved = False, wl_resources = no_resources\<rparr>"

record PodInfo =
  pi_namespace :: string
  pi_name :: string
  pi_containers :: "(string \<times> string) list"
  pi_resources :: "(string \<times> Resources) list"

text \<open>The fields of a Kubernetes pod object that are read.\<close>

record container_status =
  cs_name :: string
  cs_container_id :: "string option"

record pod_status =
  ps_container_statuses :: "container_status list option"
  ps_init_container_statuses :: "container_status list option"
  ps_ephemeral_container_statuses :: "container_status list option"

record container_spec =
  cn_name :: string
  cn_resources :: "resource_requirements option"

record pod_spec =
  sp_containers :: "container_spec list"
  sp_init_containers :: "container_spec list option"

record Pod =
  pod_uid :: "string option"
  pod_namespace :: "string option"
  pod_name :: "string option"
  pod_status_of :: "pod_status option"
  pod_spec_of :: "pod_spec option"

definition opt_list :: "'a list option \<Rightarrow> 'a list" where
  "opt_list x = (case x of Some xs \<Rightarrow> xs | None \<Rightarrow> [])"

definition insert_status :: "container_status \<Rightarrow> (string \<times> string) list \<Rightarrow> (string \<times> string) list" where
  "insert_status cs m =
     (case Option.bind (cs_container_id cs) (split_once ''://'') of
        Some (_, cid) \<Rightarrow> AList.update cid (cs_name cs) m
      | None \<Rightarrow> m)"

definition pod_info_from :: "Pod \<Rightarrow> (string \<times> PodInfo) option" where
  "pod_info_from pod =
     (case pod_uid pod of
        None \<Rightarrow> None
      | Some uid \<Rightarrow>
          if uid = [] then None
          else
            let containers = (case pod_status_of pod of
                   None \<Rightarrow> []
                 | Some st \<Rightarrow>
                     fold insert_status
                       (opt_list (ps_container_statuses st) @ opt_list (ps_init_container_statuses st)
                        @ opt_list (ps_ephemeral_container_statuses st)) []);
                resources = (case pod_spec_of pod of
                   None \<Rightarrow> []
                 | Some spec \<Rightarrow>
                     fold (\<lambda>c m. AList.update (cn_name c) (resources_from (cn_resources c)) m)
                       (sp_containers spec @ opt_list (sp_init_containers spec)) [])
            in Some (uid, \<lparr>pi_namespace = (case pod_namespace pod of Some n \<Rightarrow> n | None \<Rightarrow> ''default''),
                           pi_name = (case pod_name pod of Some n \<Rightarrow> n | None \<Rightarrow> []),
                           pi_containers = containers, pi_resources = resources\<rparr>))"

definition container_name_in_pod :: "string \<Rightarrow> PodInfo \<Rightarrow> string option" where
  "container_name_in_pod dir_name pod =
     (if starts_with ''crio-conmon-'' dir_name then None
      else case container_id_from_dir_name dir_name of
             None \<Rightarrow> None
           | Some cid \<Rightarrow> map_of (pi_containers pod) cid)"

definition labels_from_cgroup_path :: "pathbuf option \<Rightarrow> WorkloadLabels" where
  "labels_from_cgroup_path path =
     (case path of
        None \<Rightarrow> DEFAULT_LABELS
      | Some path \<Rightarrow>
          DEFAULT_LABELS\<lparr>wl_container := map_option (take 12)
                            (Option.bind (Option.bind (file_name path) to_str) container_id_from_dir_name),
                         wl_pod_uid := pod_uid_from_path path\<rparr>)"

section \<open>Cache state\<close>

record CacheState =
  ca_cgroup_paths :: "(u64 \<times> pathbuf) list"
  ca_memory_current_paths :: "(u64 \<times> pathbuf) list"
  ca_memory_stat_paths :: "(u64 \<times> pathbuf) list"
  ca_cpu_stat_paths :: "(u64 \<times> pathbuf) list"
  ca_cgroup_labels :: "(u64 \<times> WorkloadLabels) list"
  ca_pod_by_uid :: "(string \<times> PodInfo) list"

definition cache_empty :: CacheState where
  "cache_empty = \<lparr>ca_cgroup_paths = [], ca_memory_current_paths = [], ca_memory_stat_paths = [],
     ca_cpu_stat_paths = [], ca_cgroup_labels = [], ca_pod_by_uid = []\<rparr>"

definition cgroup_v2_mount :: "environ \<Rightarrow> pathbuf" where
  "cgroup_v2_mount env =
     (case var env ''STATIX_CGROUP_ROOT'' of
        Some p \<Rightarrow> path_of_str p
      | None \<Rightarrow> path_of_str ''/sys/fs/cgroup'')"

definition precompute_cpu_stat :: "pathbuf \<Rightarrow> pathbuf \<Rightarrow> pathbuf" where
  "precompute_cpu_stat cgroup_root rel_path = path_join cgroup_root (strip_root rel_path) @ [Normal ''cpu.stat'']"

definition precompute_memory_current :: "pathbuf \<Rightarrow> pathbuf \<Rightarrow> pathbuf" where
  "precompute_memory_current cgroup_root rel_path =
     path_join cgroup_root (strip_root rel_path) @ [Normal ''memory.current'']"

definition precompute_memory_stat :: "pathbuf \<Rightarrow> pathbuf \<Rightarrow> pathbuf" where
  "precompute_memory_stat cgroup_root rel_path =
     path_join cgroup_root (strip_root rel_path) @ [Normal ''memory.stat'']"

text \<open>The inserts shared by the two registration paths.\<close>

definition insert_paths :: "pathbuf \<Rightarrow> u64 \<Rightarrow> pathbuf \<Rightarrow> CacheState \<Rightarrow> CacheState" where
  "insert_paths root cid rel s =
     s\<lparr>ca_cgroup_paths := AList.update cid rel (ca_cgroup_paths s),
       ca_memory_current_paths := AList.update cid (precompute_memory_current root rel) (ca_memory_current_paths s),
       ca_memory_stat_paths := AList.update cid (precompute_memory_stat root rel) (ca_memory_stat_paths s),
       ca_cpu_stat_paths := AList.update cid (precompute_cpu_stat root rel) (ca_cpu_stat_paths s)\<rparr>"

definition relabel :: "u64 \<Rightarrow> CacheState \<Rightarrow> CacheState" where
  "relabel cid s =
     s\<lparr>ca_cgroup_labels := AList.update cid
         (labels_from_cgroup_path (map_of (ca_cgroup_paths s) cid)) (ca_cgroup_labels s)\<rparr>"

section \<open>Operations\<close>

text \<open>\<open>rel_path\<close> is the result of reading the process's cgroup file.\<close>

definition on_identity_event :: "pathbuf \<Rightarrow> AttributionError + pathbuf \<Rightarrow> StatixEvent \<Rightarrow> CacheState \<Rightarrow> CacheState" where
  "on_identity_event root rel_path event s =
     (let cid = ev_cgroup_id event
      in if cid \<in> set (keys (ca_cgroup_paths s)) then s
         else case rel_path of
                Inr rel \<Rightarrow> relabel cid (insert_paths root cid rel s)
              | Inl _ \<Rightarrow> relabel cid s)"

definition register_cgroup_directory :: "pathbuf \<Rightarrow> u64 \<Rightarrow> pathbuf \<Rightarrow> CacheState \<Rightarrow> CacheState" where
  "register_cgroup_directory root cid rel s = relabel cid (insert_paths root cid rel s)"

text \<open>
  A directory entry the walk yields: its kind, the inode number that \<^verbatim>\<open>fs::metadata\<close> returns
  for it (\<open>None\<close> if the call fails) and its path below the walk's root.
\<close>

record walk_entry =
  we_is_dir :: bool
  we_ino :: "u64 option"
  we_rel :: pathbuf

definition walk_cgroup :: "walk_entry \<Rightarrow> (u64 \<times> pathbuf) option" where
  "walk_cgroup e =
     (if \<not> we_is_dir e then None
      else if we_rel e = [] then None
      else case we_ino e of
             None \<Rightarrow> None
           | Some cgroup_id \<Rightarrow> if cgroup_id = 0 then None else Some (cgroup_id, RootDir # we_rel e))"

definition bootstrap_existing_cgroups :: "pathbuf \<Rightarrow> walk_entry list \<Rightarrow> CacheState \<Rightarrow> CacheState" where
  "bootstrap_existing_cgroups root entries s =
     fold (\<lambda>(cid, rel). register_cgroup_directory root cid rel) (List.map_filter walk_cgroup entries) s"

definition for_each_sample_target :: "CacheState \<Rightarrow> (u64 \<times> pathbuf \<times> pathbuf \<times> pathbuf) list" where
  "for_each_sample_target s =
     List.map_filter
       (\<lambda>(cid, mem_path).
          case (map_of (ca_cpu_stat_paths s) cid, map_of (ca_memory_stat_paths s) cid) of
            (Some cpu_path, Some stat_path) \<Rightarrow> Some (cid, mem_path, cpu_path, stat_path)
          | _ \<Rightarrow> None)
       (ca_memory_current_paths s)"

definition labels_for_cgroup :: "CacheState \<Rightarrow> u64 \<Rightarrow> WorkloadLabels" where
  "labels_for_cgroup s cid =
     (case map_of (ca_cgroup_labels s) cid of Some l \<Rightarrow> l | None \<Rightarrow> DEFAULT_LABELS)"

definition upsert_pod :: "string \<Rightarrow> PodInfo \<Rightarrow> CacheState \<Rightarrow> CacheState" where
  "upsert_pod uid info s = s\<lparr>ca_pod_by_uid := AList.update uid info (ca_pod_by_uid s)\<rparr>"

definition remove_pod_by_uid :: "string \<Rightarrow> CacheState \<Rightarrow> CacheState" where
  "remove_pod_by_uid uid s = s\<lparr>ca_pod_by_uid := AList.delete uid (ca_pod_by_uid s)\<rparr>"

text \<open>
  Eviction: the stale IDs are collected under the read lock, with the file system as it is
  then, and removed under the write lock.
\<close>

definition stale_ids :: "(pathbuf \<Rightarrow> bool) \<Rightarrow> CacheState \<Rightarrow> u64 list" where
  "stale_ids exists s = map fst (filter (\<lambda>(_, p). \<not> exists p) (ca_memory_current_paths s))"

definition remove_cgroup :: "u64 \<Rightarrow> CacheState \<Rightarrow> CacheState" where
  "remove_cgroup cid s =
     s\<lparr>ca_cgroup_paths := AList.delete cid (ca_cgroup_paths s),
       ca_memory_current_paths := AList.delete cid (ca_memory_current_paths s),
       ca_memory_stat_paths := AList.delete cid (ca_memory_stat_paths s),
       ca_cpu_stat_paths := AList.delete cid (ca_cpu_stat_paths s),
       ca_cgroup_labels := AList.delete cid (ca_cgroup_labels s)\<rparr>"

definition evict_stale_cgroups :: "(pathbuf \<Rightarrow> bool) \<Rightarrow> CacheState \<Rightarrow> nat \<times> CacheState" where
  "evict_stale_cgroups exists s =
     (let ids = stale_ids exists s
      in if ids = [] then (0, s) else (length ids, fold remove_cgroup ids s))"

text \<open>
  The label merge: new labels are computed from a snapshot taken under the read lock and
  written back under the write lock.
\<close>

definition merged_labels :: "(string \<times> PodInfo) list \<Rightarrow> pathbuf \<Rightarrow> WorkloadLabels \<times> bool" where
  "merged_labels pods path =
     (let labels = labels_from_cgroup_path (Some path)
      in case wl_pod_uid labels of
           None \<Rightarrow> (labels, False)
         | Some uid \<Rightarrow>
             (case map_of pods uid of
                None \<Rightarrow> (labels, True)
              | Some pod \<Rightarrow>
                  let container = Option.bind (Option.bind (file_name path) to_str)
                                    (\<lambda>name. container_name_in_pod name pod)
                  in (labels\<lparr>wl_namespace := Some (pi_namespace pod), wl_pod := Some (pi_name pod),
                             wl_k8s_resolved := True, wl_container := container,
                             wl_resources := (case Option.bind container (map_of (pi_resources pod)) of
                                                Some r \<Rightarrow> r | None \<Rightarrow> no_resources)\<rparr>, False)))"

definition merge_snapshot :: "CacheState \<Rightarrow> (u64 \<times> WorkloadLabels) list \<times> nat" where
  "merge_snapshot s =
     (let rs = map (\<lambda>(cid, path). (cid, merged_labels (ca_pod_by_uid s) path)) (ca_cgroup_paths s)
      in (map (\<lambda>(cid, r). (cid, fst r)) rs, length (filter (\<lambda>(_, r). snd r) rs)))"

definition merge_apply :: "(u64 \<times> WorkloadLabels) list \<Rightarrow> CacheState \<Rightarrow> CacheState" where
  "merge_apply new_labels s =
     s\<lparr>ca_cgroup_labels := fold (\<lambda>(cid, l) m. AList.update cid l m) new_labels (ca_cgroup_labels s)\<rparr>"

definition merge_cgroup_labels_from_k8s :: "CacheState \<Rightarrow> CacheState" where
  "merge_cgroup_labels_from_k8s s = merge_apply (fst (merge_snapshot s)) s"

section \<open>The pod watcher\<close>

datatype watch_event = Apply Pod | Delete Pod | InitApply Pod | Init | InitDone

definition watch_event_step :: "watch_event \<Rightarrow> CacheState \<Rightarrow> CacheState" where
  "watch_event_step ev s =
     (case ev of
        Apply pod \<Rightarrow>
          (case pod_info_from pod of
             Some (uid, info) \<Rightarrow> merge_cgroup_labels_from_k8s (upsert_pod uid info s)
           | None \<Rightarrow> s)
      | Delete pod \<Rightarrow> (case pod_uid pod of Some uid \<Rightarrow> remove_pod_by_uid uid s | None \<Rightarrow> s)
      | InitApply pod \<Rightarrow>
          (case pod_info_from pod of Some (uid, info) \<Rightarrow> upsert_pod uid info s | None \<Rightarrow> s)
      | Init \<Rightarrow> s
      | InitDone \<Rightarrow> merge_cgroup_labels_from_k8s s)"

text \<open>The list fallback between reconnects; the pod list is the API's answer.\<close>

definition refresh_k8s_pods :: "bool \<Rightarrow> string + Pod list \<Rightarrow> CacheState \<Rightarrow> (AttributionError + unit) \<times> CacheState" where
  "refresh_k8s_pods configured listing s =
     (if \<not> configured then (Inr (), s)
      else case listing of
             Inl e \<Rightarrow> (Inl (K8sList e), s)
           | Inr pods \<Rightarrow>
               (Inr (), merge_cgroup_labels_from_k8s
                  (fold (\<lambda>pod s. case pod_info_from pod of Some (uid, info) \<Rightarrow> upsert_pod uid info s | None \<Rightarrow> s)
                     pods s)))"

text \<open>
  One turn of the watch loop: the events of one stream until it ends, the list fallback, and
  the reconnect backoff in seconds, reset by an event and doubled up to five minutes.  The
  result holds the backoff slept for and the one of the next turn.
\<close>

definition MAX_RECONNECT_BACKOFF :: nat where
  "MAX_RECONNECT_BACKOFF = 300"

definition watch_k8s_pods_turn ::
  "bool \<Rightarrow> watch_event list \<Rightarrow> string + Pod list \<Rightarrow> nat \<times> CacheState \<Rightarrow> nat \<times> nat \<times> CacheState" where
  "watch_k8s_pods_turn configured events listing bs =
     (let (backoff, s) = fold (\<lambda>ev (_, s). (5, watch_event_step ev s)) events bs
      in (backoff, min (backoff * 2) MAX_RECONNECT_BACKOFF, snd (refresh_k8s_pods configured listing s)))"

definition dev_kubeconfig :: "environ \<Rightarrow> string option" where
  "dev_kubeconfig env =
     (case env ''STATIX_DEV_KUBECONFIG'' of Some p \<Rightarrow> if p = [] then None else Some p | None \<Rightarrow> None)"

definition k8s_configured :: "environ \<Rightarrow> bool" where
  "k8s_configured env \<longleftrightarrow> env ''KUBERNETES_SERVICE_HOST'' \<noteq> None \<or> dev_kubeconfig env \<noteq> None"

definition hostname :: "string option \<Rightarrow> string" where
  "hostname file = (case file of Some s \<Rightarrow> trim s | None \<Rightarrow> ''localhost'')"

text \<open>
  The whole watcher.  A turn of the loop asks for the pods of the node by a field selector; \<open>stream\<close> and
  \<open>listing\<close> are what the Kubernetes API answers to a selector.
\<close>

definition watch_node_name :: "environ \<Rightarrow> string option \<Rightarrow> string" where
  "watch_node_name env hostname_file =
     (case var env ''STATIX_NODE_NAME'' of
        Some n \<Rightarrow> n
      | None \<Rightarrow> (case env ''NODE_NAME'' of Some n \<Rightarrow> n | None \<Rightarrow> hostname hostname_file))"

record watch_turn =
  wt_environ :: environ
  wt_hostname :: "string option"
  wt_stream :: "string \<Rightarrow> watch_event list"
  wt_list :: "string \<Rightarrow> string + Pod list"

fun watch_k8s_pods :: "watch_turn list \<Rightarrow> nat \<times> CacheState \<Rightarrow> nat \<times> CacheState" where
  "watch_k8s_pods [] bs = bs"
| "watch_k8s_pods (t # turns) bs =
     (let selector = ''spec.nodeName='' @ watch_node_name (wt_environ t) (wt_hostname t)
      in case watch_k8s_pods_turn (k8s_configured (wt_environ t)) (wt_stream t selector) (wt_list t selector) bs of
           (slept, backoff, s) \<Rightarrow> watch_k8s_pods turns (backoff, s))"

end
