(* ===== verification/Attribution_Props.thy ===== *)
theory Attribution_Props
  imports Attribution
begin

text \<open>
  What the attribution cache promises its clients: the interface \<open>sample_source\<close> the sampler
  relies on, its interpretation on the cache, and the behaviour of eviction and of the label
  merge.  The states considered are those reachable by any interleaving of the cache's critical
  sections; an operation that takes the lock twice contributes two of them.
\<close>

section \<open>Reachable states\<close>

inductive cache_step :: "pathbuf \<Rightarrow> CacheState \<Rightarrow> CacheState \<Rightarrow> bool" for root where
  identity: "cache_step root s (on_identity_event root rel_path event s)"
| register: "cache_step root s (register_cgroup_directory root cid rel s)"
| upsert: "cache_step root s (upsert_pod uid info s)"
| remove_pod: "cache_step root s (remove_pod_by_uid uid s)"
| evict_ids: "cache_step root s (fold remove_cgroup (stale_ids exists s0) s)"
| apply_labels: "cache_step root s (merge_apply (fst (merge_snapshot s0)) s)"

definition cache_reachable :: "pathbuf \<Rightarrow> CacheState \<Rightarrow> bool" where
  "cache_reachable root s \<longleftrightarrow> (cache_step root)\<^sup>*\<^sup>* cache_empty s"

text \<open>
  The invariant: the four maps of paths have the same keys, the three file maps hold the files
  of the cgroup's directory, and every tracked cgroup has labels.
\<close>

definition cache_ok :: "pathbuf \<Rightarrow> CacheState \<Rightarrow> bool" where
  "cache_ok root s \<longleftrightarrow>
     distinct (map fst (ca_cgroup_paths s)) \<and> distinct (map fst (ca_memory_current_paths s))
     \<and> distinct (map fst (ca_cgroup_labels s))
     \<and> map_of (ca_memory_current_paths s) = map_option (precompute_memory_current root) \<circ> map_of (ca_cgroup_paths s)
     \<and> map_of (ca_memory_stat_paths s) = map_option (precompute_memory_stat root) \<circ> map_of (ca_cgroup_paths s)
     \<and> map_of (ca_cpu_stat_paths s) = map_option (precompute_cpu_stat root) \<circ> map_of (ca_cgroup_paths s)
     \<and> dom (map_of (ca_cgroup_paths s)) \<subseteq> dom (map_of (ca_cgroup_labels s))"

lemma cache_ok_empty: "cache_ok root cache_empty"
  by (simp add: cache_ok_def cache_empty_def fun_eq_iff)

lemma insert_relabel_ok: "cache_ok root s \<Longrightarrow> cache_ok root (relabel cid (insert_paths root cid rel s))"
  by (auto simp: cache_ok_def relabel_def insert_paths_def statix_simps fun_eq_iff distinct_keys_update)

lemma relabel_ok: "cache_ok root s \<Longrightarrow> cache_ok root (relabel cid s)"
  by (auto simp: cache_ok_def relabel_def statix_simps distinct_keys_update)

lemma on_identity_event_ok: "cache_ok root s \<Longrightarrow> cache_ok root (on_identity_event root rel_path event s)"
  by (auto simp: on_identity_event_def Let_def insert_relabel_ok relabel_ok split: sum.splits)

lemma register_ok: "cache_ok root s \<Longrightarrow> cache_ok root (register_cgroup_directory root cid rel s)"
  by (simp add: register_cgroup_directory_def insert_relabel_ok)

lemma pods_ok [simp]:
  "cache_ok root (upsert_pod uid info s) \<longleftrightarrow> cache_ok root s"
  "cache_ok root (remove_pod_by_uid uid s) \<longleftrightarrow> cache_ok root s"
  by (simp_all add: cache_ok_def upsert_pod_def remove_pod_by_uid_def)

lemma remove_cgroup_ok: "cache_ok root s \<Longrightarrow> cache_ok root (remove_cgroup cid s)"
  by (auto simp: cache_ok_def remove_cgroup_def statix_simps fun_eq_iff distinct_keys_delete)

lemma remove_cgroups_ok: "cache_ok root s \<Longrightarrow> cache_ok root (fold remove_cgroup ids s)"
  by (induction ids arbitrary: s) (simp_all add: remove_cgroup_ok)

lemma label_updates_dom:
  "dom (map_of m) \<subseteq> dom (map_of (fold (\<lambda>(cid, l) m. AList.update cid l m) ls m))"
proof (induction ls arbitrary: m)
  case (Cons p ls)
  have "dom (map_of m) \<subseteq> dom (map_of (AList.update (fst p) (snd p) m))"
    by (auto simp: statix_simps)
  also have "\<dots> \<subseteq> dom (map_of (fold (\<lambda>(cid, l) m. AList.update cid l m) ls (AList.update (fst p) (snd p) m)))"
    by (rule Cons.IH)
  finally show ?case by (cases p) simp
qed simp

lemma label_updates_distinct:
  "distinct (keys m) \<Longrightarrow> distinct (keys (fold (\<lambda>(cid, l) m. AList.update cid l m) ls m))"
  by (induction ls arbitrary: m) (auto simp: case_prod_beta distinct_keys_update)

lemma merge_apply_ok: "cache_ok root s \<Longrightarrow> cache_ok root (merge_apply ls s)"
  using subset_trans [OF _ label_updates_dom [of "ca_cgroup_labels s" ls]]
  unfolding cache_ok_def merge_apply_def by (simp add: label_updates_distinct)

lemmas cache_ops_ok = on_identity_event_ok register_ok remove_cgroups_ok merge_apply_ok

lemma cache_step_ok: "cache_step root s s' \<Longrightarrow> cache_ok root s \<Longrightarrow> cache_ok root s'"
  by (induction rule: cache_step.induct) (simp_all add: cache_ops_ok)

interpretation cache_sys: step_system "\<lambda>s. s = cache_empty" "cache_step root" "cache_ok root" for root
  by unfold_locales (simp_all add: cache_ok_empty cache_step_ok)

lemma cache_reachable_ok: "cache_reachable root s \<Longrightarrow> cache_ok root s"
  unfolding cache_reachable_def by (rule cache_sys.reach_inv [OF refl])

text \<open>The compound operations are sequences of these steps.\<close>

lemma merge_ok: "cache_ok root s \<Longrightarrow> cache_ok root (merge_cgroup_labels_from_k8s s)"
  by (simp add: merge_cgroup_labels_from_k8s_def merge_apply_ok)

lemma watch_event_step_ok: "cache_ok root s \<Longrightarrow> cache_ok root (watch_event_step ev s)"
  by (auto simp: watch_event_step_def merge_ok split: watch_event.splits option.splits)

lemma evict_ok: "cache_ok root s \<Longrightarrow> cache_ok root (snd (evict_stale_cgroups exists s))"
  by (simp add: evict_stale_cgroups_def Let_def remove_cgroups_ok)

lemma bootstrap_ok: "cache_ok root s \<Longrightarrow> cache_ok root (bootstrap_existing_cgroups root entries s)"
proof -
  have "cache_ok root s \<Longrightarrow> cache_ok root (fold (\<lambda>(cid, rel). register_cgroup_directory root cid rel) es s)" for es
    by (induction es arbitrary: s) (auto simp: register_ok)
  then show "cache_ok root s \<Longrightarrow> ?thesis" by (simp add: bootstrap_existing_cgroups_def)
qed

section \<open>Sample targets\<close>

text \<open>
  What the sampler needs of a cache: one target per tracked cgroup, made of the three files of
  its directory.
\<close>

locale sample_source =
  fixes inv :: "'s \<Rightarrow> bool"
    and tracked :: "'s \<Rightarrow> u64 \<Rightarrow> pathbuf option"
    and targets :: "'s \<Rightarrow> (u64 \<times> pathbuf \<times> pathbuf \<times> pathbuf) list"
  assumes targets_distinct: "inv s \<Longrightarrow> distinct (map fst (targets s))"
    and targets_iff: "inv s \<Longrightarrow> (cid, mem, cpu, stat) \<in> set (targets s) \<longleftrightarrow>
          (\<exists>dir. tracked s cid = Some dir \<and> mem = dir @ [Normal ''memory.current'']
            \<and> cpu = dir @ [Normal ''cpu.stat''] \<and> stat = dir @ [Normal ''memory.stat''])"

definition cgroup_dir :: "pathbuf \<Rightarrow> CacheState \<Rightarrow> u64 \<Rightarrow> pathbuf option" where
  "cgroup_dir root s cid = map_option (\<lambda>rel. path_join root (strip_root rel)) (map_of (ca_cgroup_paths s) cid)"

lemmas precompute_defs = precompute_memory_current_def precompute_memory_stat_def precompute_cpu_stat_def

lemma cache_okD:
  assumes "cache_ok root s"
  shows "map_of (ca_memory_current_paths s) cid = map_option (precompute_memory_current root) (map_of (ca_cgroup_paths s) cid)"
    and "map_of (ca_memory_stat_paths s) cid = map_option (precompute_memory_stat root) (map_of (ca_cgroup_paths s) cid)"
    and "map_of (ca_cpu_stat_paths s) cid = map_option (precompute_cpu_stat root) (map_of (ca_cgroup_paths s) cid)"
    and "(cid, mem) \<in> set (ca_memory_current_paths s) \<longleftrightarrow> map_of (ca_memory_current_paths s) cid = Some mem"
proof -
  show "(cid, mem) \<in> set (ca_memory_current_paths s) \<longleftrightarrow> map_of (ca_memory_current_paths s) cid = Some mem"
    using assms map_of_eq_Some_iff [of "ca_memory_current_paths s" cid mem] unfolding cache_ok_def by blast
qed (use assms in \<open>simp_all add: cache_ok_def\<close>)

lemma for_each_sample_target_map:
  assumes "cache_ok root s"
  shows "for_each_sample_target s =
     map (\<lambda>(cid, mem). (cid, mem, the (map_of (ca_cpu_stat_paths s) cid), the (map_of (ca_memory_stat_paths s) cid)))
       (ca_memory_current_paths s)"
proof -
  have "map_of (ca_cpu_stat_paths s) cid \<noteq> None \<and> map_of (ca_memory_stat_paths s) cid \<noteq> None"
    if "(cid, mem) \<in> set (ca_memory_current_paths s)" for cid mem
    using that unfolding cache_okD [OF assms] by auto
  then have "\<forall>p \<in> set (ca_memory_current_paths s).
       (case p of (cid, mem_path) \<Rightarrow>
          case (map_of (ca_cpu_stat_paths s) cid, map_of (ca_memory_stat_paths s) cid) of
            (Some cpu_path, Some stat_path) \<Rightarrow> Some (cid, mem_path, cpu_path, stat_path) | _ \<Rightarrow> None)
       = Some (case p of (cid, mem) \<Rightarrow>
           (cid, mem, the (map_of (ca_cpu_stat_paths s) cid), the (map_of (ca_memory_stat_paths s) cid)))"
    by (fastforce split: option.splits)
  then show ?thesis unfolding for_each_sample_target_def by (rule map_filter_all_Some)
qed

lemma target_iff:
  assumes "cache_ok root s"
  shows "(cid, mem, cpu, stat) \<in> set (for_each_sample_target s) \<longleftrightarrow>
     (\<exists>rel. map_of (ca_cgroup_paths s) cid = Some rel \<and> mem = precompute_memory_current root rel
        \<and> cpu = precompute_cpu_stat root rel \<and> stat = precompute_memory_stat root rel)"
proof -
  have "(cid, mem, cpu, stat) \<in> set (for_each_sample_target s) \<longleftrightarrow>
      (cid, mem) \<in> set (ca_memory_current_paths s)
      \<and> cpu = the (map_of (ca_cpu_stat_paths s) cid) \<and> stat = the (map_of (ca_memory_stat_paths s) cid)"
    unfolding for_each_sample_target_map [OF assms] by force
  then show ?thesis unfolding cache_okD [OF assms] by auto
qed

interpretation cache: sample_source "cache_ok root" "cgroup_dir root" for_each_sample_target for root
proof
  fix s assume ok: "cache_ok root s"
  then show "distinct (map fst (for_each_sample_target s))"
    by (simp add: for_each_sample_target_map cache_ok_def comp_def case_prod_beta)
  fix cid mem cpu stat
  show "(cid, mem, cpu, stat) \<in> set (for_each_sample_target s) \<longleftrightarrow>
      (\<exists>dir. cgroup_dir root s cid = Some dir \<and> mem = dir @ [Normal ''memory.current'']
         \<and> cpu = dir @ [Normal ''cpu.stat''] \<and> stat = dir @ [Normal ''memory.stat''])"
    unfolding target_iff [OF ok] by (auto simp: cgroup_dir_def precompute_defs)
qed

section \<open>Properties\<close>

text \<open>
  C16: Tracked cgroups and their files.  In every state that any interleaving of exec events,
  startup registration, pod updates, evictions and label merges can reach, the targets handed to
  the sampler are, once each, exactly the tracked cgroups, with the \<^verbatim>\<open>memory.current\<close>, \<^verbatim>\<open>cpu.stat\<close>
  and \<^verbatim>\<open>memory.stat\<close> of the cgroup's own directory below the mount point, and every tracked
  cgroup has a label entry.
\<close>

theorem sample_targets_are_the_tracked_cgroups:
  assumes "cache_reachable root s"
  shows "distinct (map fst (for_each_sample_target s))
     \<and> set (for_each_sample_target s) =
         {(cid, path_join root (strip_root rel) @ [Normal ''memory.current''],
                path_join root (strip_root rel) @ [Normal ''cpu.stat''],
                path_join root (strip_root rel) @ [Normal ''memory.stat'']) | cid rel.
            map_of (ca_cgroup_paths s) cid = Some rel}
     \<and> fst ` set (for_each_sample_target s) \<subseteq> fst ` set (ca_cgroup_labels s)"
proof -
  note ok = cache_reachable_ok [OF assms]
  have s: "set (for_each_sample_target s) =
         {(cid, path_join root (strip_root rel) @ [Normal ''memory.current''],
                path_join root (strip_root rel) @ [Normal ''cpu.stat''],
                path_join root (strip_root rel) @ [Normal ''memory.stat'']) | cid rel.
            map_of (ca_cgroup_paths s) cid = Some rel}"
    by (auto simp: target_iff [OF ok] precompute_defs)
  have "fst ` set (for_each_sample_target s) = dom (map_of (ca_cgroup_paths s))"
    unfolding s by (force simp: dom_def)
  also have "\<dots> \<subseteq> fst ` set (ca_cgroup_labels s)"
    using ok by (simp add: cache_ok_def dom_map_of_conv_image_fst)
  finally show ?thesis using s cache.targets_distinct [OF ok] by simp
qed

theorem sample_targets_are_the_tracked_cgroups_witness:
  "set (for_each_sample_target (register_cgroup_directory [RootDir] 42 [RootDir, Normal ''a''] cache_empty))
     = {(42, [RootDir, Normal ''a'', Normal ''memory.current''], [RootDir, Normal ''a'', Normal ''cpu.stat''],
         [RootDir, Normal ''a'', Normal ''memory.stat''])}"
proof -
  let ?s = "register_cgroup_directory [RootDir] 42 [RootDir, Normal ''a''] cache_empty"
  have "cache_reachable [RootDir] ?s"
    unfolding cache_reachable_def by (rule r_into_rtranclp, rule cache_step.register)
  note t = sample_targets_are_the_tracked_cgroups [OF this]
  have "ca_cgroup_paths ?s = [(42, [RootDir, Normal ''a''])]" by code_simp
  with t show ?thesis by (auto simp: path_join_def strip_root_def)
qed

section \<open>Eviction\<close>

lemma fold_remove_cgroup:
  "ca_cgroup_paths (fold remove_cgroup ids s) = filter (\<lambda>p. fst p \<notin> set ids) (ca_cgroup_paths s)"
  "ca_memory_current_paths (fold remove_cgroup ids s) = filter (\<lambda>p. fst p \<notin> set ids) (ca_memory_current_paths s)"
  "ca_memory_stat_paths (fold remove_cgroup ids s) = filter (\<lambda>p. fst p \<notin> set ids) (ca_memory_stat_paths s)"
  "ca_cpu_stat_paths (fold remove_cgroup ids s) = filter (\<lambda>p. fst p \<notin> set ids) (ca_cpu_stat_paths s)"
  "ca_cgroup_labels (fold remove_cgroup ids s) = filter (\<lambda>p. fst p \<notin> set ids) (ca_cgroup_labels s)"
  "ca_pod_by_uid (fold remove_cgroup ids s) = ca_pod_by_uid s"
  by (induction ids arbitrary: s)
     (simp_all add: remove_cgroup_def AList.delete_eq case_prod_beta conj_commute eq_commute)

lemma evict_eq: "evict_stale_cgroups exists s = (length (stale_ids exists s), fold remove_cgroup (stale_ids exists s) s)"
  by (simp add: evict_stale_cgroups_def Let_def)

lemma stale_ids_iff:
  assumes "cache_ok root s"
  shows "cid \<in> set (stale_ids exists s) \<longleftrightarrow>
     (\<exists>mem. map_of (ca_memory_current_paths s) cid = Some mem \<and> \<not> exists mem)"
  unfolding cache_okD(4) [OF assms, symmetric] by (force simp: stale_ids_def)

lemma evict_targets:
  assumes ok: "cache_ok root s"
  shows "for_each_sample_target (fold remove_cgroup (stale_ids exists s) s)
     = filter (\<lambda>(_, mem, _). exists mem) (for_each_sample_target s)"
proof -
  let ?ids = "set (stale_ids exists s)"
  have st: "fst p \<notin> ?ids \<longleftrightarrow> exists (snd p)" if "p \<in> set (ca_memory_current_paths s)" for p
    using that cache_okD(4) [OF ok, of "fst p" "snd p"] by (auto simp: stale_ids_iff [OF ok])
  then have f: "filter (\<lambda>p. fst p \<notin> ?ids) (ca_memory_current_paths s)
      = filter (\<lambda>p. exists (snd p)) (ca_memory_current_paths s)" by (intro filter_cong) auto
  show ?thesis
    unfolding for_each_sample_target_map [OF ok] for_each_sample_target_map [OF remove_cgroups_ok [OF ok]]
    using st
    by (auto simp: fold_remove_cgroup f map_of_filter_keys [where P = "\<lambda>k. k \<notin> ?ids"] filter_map comp_def case_prod_beta)
qed

text \<open>
  C29: Eviction.  After an eviction pass the sample targets are exactly the former targets whose
  \<^verbatim>\<open>memory.current\<close> still exists, in the same order; the number returned is the number of targets
  removed; the labels of a removed cgroup are gone and every other label and the pod table are
  as before.
\<close>

theorem eviction_removes_exactly_the_stale:
  assumes "cache_reachable root s" and "evict_stale_cgroups exists s = (n, s')"
  shows "for_each_sample_target s' = filter (\<lambda>(_, mem, _). exists mem) (for_each_sample_target s)
     \<and> n + length (for_each_sample_target s') = length (for_each_sample_target s)
     \<and> (\<forall>cid. labels_for_cgroup s' cid =
          (if \<exists>mem. map_of (ca_memory_current_paths s) cid = Some mem \<and> \<not> exists mem
           then DEFAULT_LABELS else labels_for_cgroup s cid))
     \<and> ca_pod_by_uid s' = ca_pod_by_uid s"
proof -
  note ok = cache_reachable_ok [OF assms(1)]
  have s': "s' = fold remove_cgroup (stale_ids exists s) s" and n: "n = length (stale_ids exists s)"
    using assms(2) by (simp_all add: evict_eq)
  have t: "for_each_sample_target s' = filter (\<lambda>(_, mem, _). exists mem) (for_each_sample_target s)"
    unfolding s' by (rule evict_targets [OF ok])
  moreover have "n = length (filter (\<lambda>(_, mem, _). \<not> exists mem) (for_each_sample_target s))"
    unfolding n for_each_sample_target_map [OF ok] stale_ids_def
    by (simp add: filter_map comp_def case_prod_unfold)
  then have "n + length (for_each_sample_target s') = length (for_each_sample_target s)"
    unfolding t using sum_length_filter_compl [of "\<lambda>(_, mem, _). exists mem" "for_each_sample_target s"]
    by (simp add: case_prod_unfold add.commute)
  moreover have "labels_for_cgroup s' cid =
      (if \<exists>mem. map_of (ca_memory_current_paths s) cid = Some mem \<and> \<not> exists mem
       then DEFAULT_LABELS else labels_for_cgroup s cid)" for cid
    unfolding stale_ids_iff [OF ok, symmetric] s' labels_for_cgroup_def fold_remove_cgroup
    by (simp add: map_of_filter_keys [where P = "\<lambda>k. k \<notin> set (stale_ids exists s)"])
  ultimately show ?thesis unfolding s' by (simp add: fold_remove_cgroup)
qed

theorem eviction_removes_exactly_the_stale_witness:
  "for_each_sample_target (snd (evict_stale_cgroups (\<lambda>p. p \<noteq> [RootDir, Normal ''a'', Normal ''memory.current''])
      (register_cgroup_directory [RootDir] 42 [RootDir, Normal ''a''] cache_empty))) = []"
proof -
  let ?s = "register_cgroup_directory [RootDir] 42 [RootDir, Normal ''a''] cache_empty"
  let ?ex = "\<lambda>p. p \<noteq> [RootDir, Normal ''a'', Normal ''memory.current'']"
  have r: "cache_reachable [RootDir] ?s"
    unfolding cache_reachable_def by (rule r_into_rtranclp, rule cache_step.register)
  have t: "for_each_sample_target ?s = [(42, [RootDir, Normal ''a'', Normal ''memory.current''],
      [RootDir, Normal ''a'', Normal ''cpu.stat''], [RootDir, Normal ''a'', Normal ''memory.stat''])]"
    by code_simp
  from eviction_removes_exactly_the_stale [OF r surjective_pairing] have
    "for_each_sample_target (snd (evict_stale_cgroups ?ex ?s))
       = filter (\<lambda>(_, mem, _). ?ex mem) (for_each_sample_target ?s)" by blast
  with t show ?thesis by simp
qed

section \<open>Labels\<close>

text \<open>
  The statuses of a pod in the order they are read, and the container name an ID stands for:
  the last status that carries the ID decides; likewise for the resources of a name.
\<close>

definition pod_statuses :: "Pod \<Rightarrow> container_status list" where
  "pod_statuses pod = (case pod_status_of pod of
     None \<Rightarrow> []
   | Some st \<Rightarrow> opt_list (ps_container_statuses st) @ opt_list (ps_init_container_statuses st)
              @ opt_list (ps_ephemeral_container_statuses st))"

definition pod_containers :: "Pod \<Rightarrow> container_spec list" where
  "pod_containers pod = (case pod_spec_of pod of
     None \<Rightarrow> [] | Some spec \<Rightarrow> sp_containers spec @ opt_list (sp_init_containers spec))"

definition status_entry :: "container_status \<Rightarrow> (string \<times> string) option" where
  "status_entry cs = (case Option.bind (cs_container_id cs) (split_once ''://'') of
     None \<Rightarrow> None | Some (_, cid) \<Rightarrow> Some (cid, cs_name cs))"

definition container_named :: "Pod \<Rightarrow> string \<Rightarrow> string option" where
  "container_named pod cid = map_of (rev (List.map_filter status_entry (pod_statuses pod))) cid"

definition container_resources :: "Pod \<Rightarrow> string \<Rightarrow> Resources" where
  "container_resources pod name =
     (case map_of (rev (map (\<lambda>c. (cn_name c, resources_from (cn_resources c))) (pod_containers pod))) name of
        Some r \<Rightarrow> r | None \<Rightarrow> no_resources)"

lemma fold_insert_status:
  "map_of (fold insert_status sts m) cid =
     (case map_of (rev (List.map_filter status_entry sts)) cid of Some n \<Rightarrow> Some n | None \<Rightarrow> map_of m cid)"
proof (induction sts arbitrary: m)
  case (Cons cs sts)
  then show ?case
    by (cases "status_entry cs")
       (auto simp: map_filter_simps insert_status_def status_entry_def statix_simps map_add_def
             split: option.splits prod.splits)
qed (simp add: map_filter_simps)

lemma fold_update_last:
  "map_of (fold (\<lambda>c m. AList.update (f c) (g c) m) cs m) k =
     (case map_of (rev (map (\<lambda>c. (f c, g c)) cs)) k of Some v \<Rightarrow> Some v | None \<Rightarrow> map_of m k)"
  by (induction cs arbitrary: m) (auto simp: statix_simps map_add_def split: option.splits)

lemma pod_info_from_Some:
  "pod_info_from pod = Some (uid, info) \<longleftrightarrow> pod_uid pod = Some uid \<and> uid \<noteq> []
     \<and> info = \<lparr>pi_namespace = (case pod_namespace pod of Some n \<Rightarrow> n | None \<Rightarrow> ''default''),
               pi_name = (case pod_name pod of Some n \<Rightarrow> n | None \<Rightarrow> []),
               pi_containers = fold insert_status (pod_statuses pod) [],
               pi_resources = fold (\<lambda>c m. AList.update (cn_name c) (resources_from (cn_resources c)) m)
                                (pod_containers pod) []\<rparr>"
  by (cases "pod_uid pod"; cases "pod_status_of pod"; cases "pod_spec_of pod")
     (auto simp: pod_info_from_def Let_def pod_statuses_def pod_containers_def)

lemma pod_info_from_maps:
  assumes "pod_info_from pod = Some (uid, info)"
  shows "map_of (pi_containers info) cid = container_named pod cid"
    and "(case map_of (pi_resources info) name of Some r \<Rightarrow> r | None \<Rightarrow> no_resources) = container_resources pod name"
  using assms
  by (auto simp: pod_info_from_Some container_named_def container_resources_def fold_insert_status fold_update_last
           split: option.splits)

lemma map_of_label_updates:
  "map_of (fold (\<lambda>(cid, l) m. AList.update cid l m) ls m) cid =
     (case map_of (rev ls) cid of Some l \<Rightarrow> Some l | None \<Rightarrow> map_of m cid)"
  by (induction ls arbitrary: m) (auto simp: statix_simps map_add_def split: option.splits prod.splits)

lemma merge_labels:
  assumes "distinct (keys (ca_cgroup_paths s))"
  shows "labels_for_cgroup (merge_cgroup_labels_from_k8s s) cid =
     (case map_of (ca_cgroup_paths s) cid of
        Some path \<Rightarrow> fst (merged_labels (ca_pod_by_uid s) path)
      | None \<Rightarrow> labels_for_cgroup s cid)"
proof -
  let ?ls = "fst (merge_snapshot s)"
  have ls: "?ls = map (\<lambda>(cid, path). (cid, fst (merged_labels (ca_pod_by_uid s) path))) (ca_cgroup_paths s)"
    by (simp add: merge_snapshot_def Let_def comp_def case_prod_unfold)
  then have "distinct (keys ?ls)" using assms by (simp add: comp_def case_prod_unfold)
  then have "map_of (rev ?ls) cid = map_of ?ls cid" by (simp add: map_of_rev_keys)
  also have "\<dots> = map_option (\<lambda>path. fst (merged_labels (ca_pod_by_uid s) path)) (map_of (ca_cgroup_paths s) cid)"
    unfolding ls by (simp add: map_of_map)
  finally show ?thesis
    by (auto simp: labels_for_cgroup_def merge_cgroup_labels_from_k8s_def merge_apply_def map_of_label_updates
             split: option.splits)
qed

text \<open>
  C17: Cost attribution.  When the watcher reports a pod, every tracked cgroup whose path carries
  the pod's UID is labelled with the pod's namespace and name, and with the container whose ID
  its directory name carries: the name comes from the last status that has the ID and the
  requests and limits from that container's spec.  The pause container, a container without a
  status and CRI-O's monitor process get no container name and no resources, so that no request
  is charged twice.
\<close>

theorem pod_event_labels_its_cgroups:
  assumes "cache_reachable root s" and "pod_info_from pod = Some (uid, info)"
    and "map_of (ca_cgroup_paths s) cid = Some path" and "pod_uid_from_path path = Some uid"
  shows "labels_for_cgroup (watch_event_step (Apply pod) s) cid =
     (let container = (case Option.bind (file_name path) to_str of
                         None \<Rightarrow> None
                       | Some dir \<Rightarrow> if starts_with ''crio-conmon-'' dir then None
                                   else Option.bind (container_id_from_dir_name dir) (container_named pod))
      in \<lparr>wl_namespace = Some (case pod_namespace pod of Some n \<Rightarrow> n | None \<Rightarrow> ''default''),
          wl_pod = Some (case pod_name pod of Some n \<Rightarrow> n | None \<Rightarrow> []),
          wl_container = container, wl_pod_uid = Some uid, wl_k8s_resolved = True,
          wl_resources = (case container of None \<Rightarrow> no_resources | Some n \<Rightarrow> container_resources pod n)\<rparr>)"
proof -
  let ?s = "upsert_pod uid info s"
  have d: "distinct (keys (ca_cgroup_paths ?s))"
    using cache_reachable_ok [OF assms(1)] by (simp add: cache_ok_def upsert_pod_def)
  have u: "ca_cgroup_paths ?s = ca_cgroup_paths s" "map_of (ca_pod_by_uid ?s) uid = Some info"
    by (simp_all add: upsert_pod_def statix_simps)
  have i: "pi_namespace info = (case pod_namespace pod of Some n \<Rightarrow> n | None \<Rightarrow> ''default'')"
    "pi_name info = (case pod_name pod of Some n \<Rightarrow> n | None \<Rightarrow> [])"
    using assms(2) by (simp_all add: pod_info_from_Some)
  have c: "container_name_in_pod dir info = (if starts_with ''crio-conmon-'' dir then None
      else Option.bind (container_id_from_dir_name dir) (container_named pod))" for dir
    by (auto simp: container_name_in_pod_def pod_info_from_maps(1) [OF assms(2)] split: option.splits)
  have r: "(case Option.bind x (map_of (pi_resources info)) of Some r \<Rightarrow> r | None \<Rightarrow> no_resources)
      = (case x of None \<Rightarrow> no_resources | Some n \<Rightarrow> container_resources pod n)" for x
    using pod_info_from_maps(2) [OF assms(2)] by (cases x) auto
  have "labels_for_cgroup (watch_event_step (Apply pod) s) cid = fst (merged_labels (ca_pod_by_uid ?s) path)"
    using merge_labels [OF d, of cid] assms(2,3) u(1) by (simp add: watch_event_step_def)
  then show ?thesis
    using assms(4) u(2) i
    by (cases "Option.bind (file_name path) to_str")
       (simp_all add: merged_labels_def labels_from_cgroup_path_def DEFAULT_LABELS_def Let_def r c del: bind_assoc)
qed

definition sample_cid :: string where
  "sample_cid = replicate 64 CHR ''a''"

definition sample_path :: pathbuf where
  "sample_path = [RootDir, Normal ''kubepods.slice'',
     Normal ''kubepods-pod2b7669e8_6828_4310_9a1f_0eaad6933466.slice'',
     Normal (''cri-containerd-'' @ sample_cid @ ''.scope'')]"

definition sample_pod :: Pod where
  "sample_pod = \<lparr>pod_uid = Some ''2b7669e8-6828-4310-9a1f-0eaad6933466'', pod_namespace = Some ''shop'',
     pod_name = Some ''web-0'',
     pod_status_of = Some \<lparr>ps_container_statuses =
         Some [\<lparr>cs_name = ''web'', cs_container_id = Some (''containerd://'' @ sample_cid)\<rparr>],
       ps_init_container_statuses = None, ps_ephemeral_container_statuses = None\<rparr>,
     pod_spec_of = Some \<lparr>sp_containers = [\<lparr>cn_name = ''web'', cn_resources = Some
         \<lparr>rr_requests = Some [(''memory'', dec_str 8)], rr_limits = None\<rparr>\<rparr>],
       sp_init_containers = None\<rparr>\<rparr>"

theorem pod_event_labels_its_cgroups_witness:
  "labels_for_cgroup (watch_event_step (Apply sample_pod) (register_cgroup_directory [RootDir] 42 sample_path cache_empty)) 42
     = \<lparr>wl_namespace = Some ''shop'', wl_pod = Some ''web-0'', wl_container = Some ''web'',
        wl_pod_uid = Some ''2b7669e8-6828-4310-9a1f-0eaad6933466'', wl_k8s_resolved = True,
        wl_resources = \<lparr>rs_cpu_request_millicores = 0, rs_memory_request_bytes = 8,
          rs_cpu_limit_millicores = 0, rs_memory_limit_bytes = 0\<rparr>\<rparr>"
proof -
  let ?s = "register_cgroup_directory [RootDir] 42 sample_path cache_empty"
  have r: "cache_reachable [RootDir] ?s"
    unfolding cache_reachable_def by (rule r_into_rtranclp, rule cache_step.register)
  have i: "pod_info_from sample_pod = Some (the (pod_uid sample_pod), snd (the (pod_info_from sample_pod)))"
    by (simp add: sample_pod_def pod_info_from_def Let_def)
  have p: "map_of (ca_cgroup_paths ?s) 42 = Some sample_path" by code_simp
  have u: "pod_uid_from_path sample_path = Some (the (pod_uid sample_pod))" by code_simp
  have d: "Option.bind (file_name sample_path) to_str = Some (''cri-containerd-'' @ sample_cid @ ''.scope'')" by code_simp
  have c: "\<not> starts_with ''crio-conmon-'' (''cri-containerd-'' @ sample_cid @ ''.scope'')"
    "Option.bind (container_id_from_dir_name (''cri-containerd-'' @ sample_cid @ ''.scope'')) (container_named sample_pod) = Some ''web''"
    by code_simp+
  have f: "container_resources sample_pod ''web'' = \<lparr>rs_cpu_request_millicores = 0, rs_memory_request_bytes = 8,
      rs_cpu_limit_millicores = 0, rs_memory_limit_bytes = 0\<rparr>"
    by (simp add: container_resources_def pod_containers_def sample_pod_def opt_list_def resources_from_def
        quantity_def or_zero_def memory_bytes_plain)
  show ?thesis
    unfolding pod_event_labels_its_cgroups [OF r i p u]
    using c f by (simp add: Let_def d) (simp add: sample_pod_def)
qed

section \<open>Labels without a path\<close>

lemma evict_keeps_orphan:
  assumes "cid \<notin> set (keys (ca_memory_current_paths s))" and "cid \<in> set (keys (ca_cgroup_labels s))"
  shows "cid \<notin> set (keys (ca_memory_current_paths (snd (evict_stale_cgroups exists s))))
     \<and> cid \<in> set (keys (ca_cgroup_labels (snd (evict_stale_cgroups exists s))))"
proof -
  have "cid \<notin> set (stale_ids exists s)" using assms(1) by (force simp: stale_ids_def)
  with assms show ?thesis by (force simp: evict_eq fold_remove_cgroup)
qed

lemma evictions_keep_orphan:
  assumes "cid \<notin> set (keys (ca_memory_current_paths s))" and "cid \<in> set (keys (ca_cgroup_labels s))"
  shows "cid \<in> set (keys (ca_cgroup_labels (fold (\<lambda>ex s. snd (evict_stale_cgroups ex s)) exs s)))"
  using assms
proof (induction exs arbitrary: s)
  case (Cons ex exs)
  then show ?case using evict_keeps_orphan [of cid s ex] by simp
qed simp

text \<open>
  C39: Label entries that eviction cannot remove.  Eviction looks at the cgroups that have a
  \<^verbatim>\<open>memory.current\<close> path only.  An exec event of an untracked cgroup whose process is already gone
  stores a label entry without a path, and a label merge whose snapshot was taken before an
  eviction and written back after it stores one again for the evicted cgroup: in both cases no
  later sequence of evictions removes the entry.
\<close>

theorem orphan_labels_survive_eviction:
  assumes ok: "cache_reachable root s"
  shows "(ev_cgroup_id event \<notin> set (keys (ca_cgroup_paths s)) \<longrightarrow>
       ev_cgroup_id event \<in> set (keys (ca_cgroup_labels
         (fold (\<lambda>ex s. snd (evict_stale_cgroups ex s)) exs (on_identity_event root (Inl e) event s)))))
    \<and> (cid \<in> set (stale_ids exists s) \<longrightarrow>
         cid \<in> set (keys (ca_cgroup_labels
           (fold (\<lambda>ex s. snd (evict_stale_cgroups ex s)) exs
             (merge_apply (fst (merge_snapshot s)) (snd (evict_stale_cgroups exists s)))))))"
proof (intro conjI impI)
  note okc = cache_reachable_ok [OF ok]
  let ?c = "ev_cgroup_id event"
  assume n: "?c \<notin> set (keys (ca_cgroup_paths s))"
  then have "map_of (ca_memory_current_paths s) ?c = None"
    unfolding cache_okD [OF okc] by (simp add: map_of_eq_None_iff)
  then have "?c \<notin> set (keys (ca_memory_current_paths s))" by (simp add: map_of_eq_None_iff)
  with n show "?c \<in> set (keys (ca_cgroup_labels
         (fold (\<lambda>ex s. snd (evict_stale_cgroups ex s)) exs (on_identity_event root (Inl e) event s))))"
    by (intro evictions_keep_orphan) (simp_all add: on_identity_event_def relabel_def Let_def AList.dom_update)
next
  note okc = cache_reachable_ok [OF ok]
  assume st: "cid \<in> set (stale_ids exists s)"
  let ?s = "merge_apply (fst (merge_snapshot s)) (snd (evict_stale_cgroups exists s))"
  have "cid \<notin> set (keys (ca_memory_current_paths ?s))"
    using st by (auto simp: merge_apply_def evict_eq fold_remove_cgroup)
  moreover obtain path where "map_of (ca_cgroup_paths s) cid = Some path"
    using st unfolding stale_ids_iff [OF okc] cache_okD [OF okc] by auto
  then have "cid \<in> set (keys (fst (merge_snapshot s)))"
    by (force simp: merge_snapshot_def Let_def dest: map_of_SomeD)
  then have "map_of (rev (fst (merge_snapshot s))) cid \<noteq> None"
    by (metis dom_map_of_conv_image_fst domIff image_set set_rev)
  then have "map_of (ca_cgroup_labels ?s) cid \<noteq> None"
    by (auto simp: merge_apply_def map_of_label_updates)
  then have "cid \<in> set (keys (ca_cgroup_labels ?s))" by (metis map_of_eq_None_iff image_set)
  ultimately show "cid \<in> set (keys (ca_cgroup_labels (fold (\<lambda>ex s. snd (evict_stale_cgroups ex s)) exs ?s)))"
    by (rule evictions_keep_orphan)
qed

theorem orphan_labels_survive_eviction_witness:
  "(42 :: u64) \<in> set (keys (ca_cgroup_labels (fold (\<lambda>ex s. snd (evict_stale_cgroups ex s)) [\<lambda>_. False, \<lambda>_. False]
      (on_identity_event [RootDir] (cgroup_path_from_pid 7 (CannotOpen NotFound))
         \<lparr>ev_kind = 1, ev_pad = replicate 7 0, ev_pid = 7, ev_tgid = 7, ev_cpu_id = 0, ev_pad2 = 0, ev_cgroup_id = 42,
          ev_timestamp = 0, ev_memory_bytes = 0, ev_comm = replicate 16 0\<rparr> cache_empty))))"
proof -
  let ?ev = "\<lparr>ev_kind = 1, ev_pad = replicate 7 0, ev_pid = 7, ev_tgid = 7, ev_cpu_id = 0, ev_pad2 = 0, ev_cgroup_id = 42,
          ev_timestamp = 0, ev_memory_bytes = 0, ev_comm = replicate 16 0\<rparr>"
  obtain e where e: "cgroup_path_from_pid 7 (CannotOpen NotFound) = Inl e"
    by (simp add: cgroup_path_from_pid_def read_once_def)
  have "cache_reachable [RootDir] cache_empty" by (simp add: cache_reachable_def)
  then show ?thesis
    unfolding e
    using orphan_labels_survive_eviction [of "[RootDir]" cache_empty ?ev "[\<lambda>_. False, \<lambda>_. False]" e 0 "\<lambda>_. False"]
    by (simp add: cache_empty_def del: fold_simps)
qed

end
