(* ===== verification/Aggregator.thy ===== *)
theory Aggregator
  imports Attribution_Props
begin

text \<open>
  The windowed rollup of \<^verbatim>\<open>statix/src/aggregator.rs\<close>: two buffers of per-cgroup statistics, one
  being filled while the other is drained, and an early flush when the active one is full.  The
  clock, the random bytes of a batch ID and the formatter of the \<^verbatim>\<open>uuid\<close> crate are arguments.
\<close>

unbundle bit_operations_syntax

section \<open>State\<close>

definition batch_id_bytes :: "bytes \<Rightarrow> bytes" where
  "batch_id_bytes bs =
     (let b1 = bs[6 := ((bs ! 6) AND 0x0f) OR 0x40]
      in b1[8 := ((b1 ! 8) AND 0x3f) OR 0x80])"

definition fast_batch_id :: "(bytes \<Rightarrow> string) \<Rightarrow> bytes \<Rightarrow> string" where
  "fast_batch_id uuid_to_string rnd = uuid_to_string (batch_id_bytes rnd)"

definition DEFAULT_MAX_KEYS :: nat where
  "DEFAULT_MAX_KEYS = 4096"

record WorkloadStats =
  st_exec_count :: u32
  st_sample_count :: u32
  st_memory_bytes_max :: u64
  st_memory_bytes_last :: u64
  st_cpu_usage_usec :: u64
  st_labels :: WorkloadLabels

definition default_stats :: WorkloadStats where
  "default_stats = \<lparr>st_exec_count = 0, st_sample_count = 0, st_memory_bytes_max = 0, st_memory_bytes_last = 0,
     st_cpu_usage_usec = 0, st_labels = DEFAULT_LABELS\<rparr>"

record Aggregator =
  agg_window_start_ns :: u64
  agg_buffers :: "(u64 \<times> WorkloadStats) list list"
  agg_active :: nat
  agg_max_keys :: nat

record BatchPayload =
  bp_window_start_ns :: u64
  bp_window_end_ns :: u64
  bp_node :: string
  bp_batch_id :: string
  bp_agent_version :: string
  bp_workloads :: "WorkloadRow list"

text \<open>What an operation reads from outside: the wall clock, random bytes, and constants of the build.\<close>

record agg_env =
  ae_now :: u64
  ae_rnd :: bytes
  ae_uuid :: "bytes \<Rightarrow> string"
  ae_version :: string

definition Aggregator_new :: "u64 \<Rightarrow> Aggregator" where
  "Aggregator_new now = \<lparr>agg_window_start_ns = now, agg_buffers = [[], []], agg_active = 0, agg_max_keys = DEFAULT_MAX_KEYS\<rparr>"

section \<open>Operations\<close>

definition active_len :: "Aggregator \<Rightarrow> nat" where
  "active_len a = length (agg_buffers a ! agg_active a)"

text \<open>\<^verbatim>\<open>self.active_mut().entry(id).or_default()\<close> followed by an update of the entry.\<close>

definition update_entry :: "u64 \<Rightarrow> (WorkloadStats \<Rightarrow> WorkloadStats) \<Rightarrow> Aggregator \<Rightarrow> Aggregator" where
  "update_entry cgroup_id f a =
     (let buf = agg_buffers a ! agg_active a;
          entry = (case map_of buf cgroup_id of Some s \<Rightarrow> s | None \<Rightarrow> default_stats)
      in a\<lparr>agg_buffers := (agg_buffers a)[agg_active a := AList.update cgroup_id (f entry) buf]\<rparr>)"

definition reset_window :: "u64 \<Rightarrow> Aggregator \<Rightarrow> Aggregator" where
  "reset_window window_start_ns a = a\<lparr>agg_window_start_ns := window_start_ns\<rparr>"

definition workload_row :: "u64 \<Rightarrow> WorkloadStats \<Rightarrow> WorkloadRow" where
  "workload_row cgroup_id s =
     \<lparr>wr_cgroup_id = cgroup_id, wr_namespace = wl_namespace (st_labels s), wr_pod = wl_pod (st_labels s),
      wr_container = wl_container (st_labels s), wr_k8s_resolved = wl_k8s_resolved (st_labels s),
      wr_memory_bytes_max = st_memory_bytes_max s, wr_memory_bytes_last = st_memory_bytes_last s,
      wr_exec_count = st_exec_count s, wr_sample_count = st_sample_count s,
      wr_cpu_usage_usec = st_cpu_usage_usec s,
      wr_cpu_request_millicores = word_of_nat (rs_cpu_request_millicores (wl_resources (st_labels s))),
      wr_memory_request_bytes = word_of_nat (rs_memory_request_bytes (wl_resources (st_labels s))),
      wr_cpu_limit_millicores = word_of_nat (rs_cpu_limit_millicores (wl_resources (st_labels s))),
      wr_memory_limit_bytes = word_of_nat (rs_memory_limit_bytes (wl_resources (st_labels s)))\<rparr>"

definition flush :: "agg_env \<Rightarrow> string \<Rightarrow> Aggregator \<Rightarrow> BatchPayload option \<times> Aggregator" where
  "flush env node a =
     (let flush_idx = agg_active a
      in if agg_buffers a ! flush_idx = [] then (None, reset_window (ae_now env) a)
         else
           let window_start_ns = agg_window_start_ns a;
               window_end_ns = ae_now env;
               a1 = reset_window window_end_ns (a\<lparr>agg_active := 1 - agg_active a\<rparr>);
               workloads = map (\<lambda>(cgroup_id, s). workload_row cgroup_id s) (agg_buffers a1 ! flush_idx);
               a2 = a1\<lparr>agg_buffers := (agg_buffers a1)[flush_idx := []]\<rparr>
           in (Some \<lparr>bp_window_start_ns = window_start_ns, bp_window_end_ns = window_end_ns, bp_node = node,
                     bp_batch_id = fast_batch_id (ae_uuid env) (ae_rnd env), bp_agent_version = ae_version env,
                     bp_workloads = workloads\<rparr>, a2))"

definition try_early_flush :: "agg_env \<Rightarrow> string \<Rightarrow> Aggregator \<Rightarrow> BatchPayload option \<times> Aggregator" where
  "try_early_flush env node a = (if agg_max_keys a \<le> active_len a then flush env node a else (None, a))"

definition ingest_memory_sample_inner :: "u64 \<Rightarrow> u64 \<Rightarrow> CacheState \<Rightarrow> Aggregator \<Rightarrow> Aggregator" where
  "ingest_memory_sample_inner cgroup_id mem_bytes cache a =
     update_entry cgroup_id
       (\<lambda>entry. entry\<lparr>st_sample_count := sat_add (st_sample_count entry) 1,
                      st_memory_bytes_last := mem_bytes,
                      st_memory_bytes_max := (if mem_bytes > st_memory_bytes_max entry then mem_bytes
                                              else st_memory_bytes_max entry),
                      st_labels := labels_for_cgroup cache cgroup_id\<rparr>) a"

definition ingest_memory_sample ::
  "agg_env \<Rightarrow> u64 \<Rightarrow> u64 \<Rightarrow> CacheState \<Rightarrow> string \<Rightarrow> Aggregator \<Rightarrow> BatchPayload option \<times> Aggregator" where
  "ingest_memory_sample env cgroup_id mem_bytes cache node a =
     try_early_flush env node (ingest_memory_sample_inner cgroup_id mem_bytes cache a)"

definition ingest_cpu_sample ::
  "agg_env \<Rightarrow> u64 \<Rightarrow> u64 \<Rightarrow> CacheState \<Rightarrow> string \<Rightarrow> Aggregator \<Rightarrow> BatchPayload option \<times> Aggregator" where
  "ingest_cpu_sample env cgroup_id delta_usec cache node a =
     try_early_flush env node
       (update_entry cgroup_id
          (\<lambda>entry. entry\<lparr>st_cpu_usage_usec := sat_add (st_cpu_usage_usec entry) delta_usec,
                         st_labels := labels_for_cgroup cache cgroup_id\<rparr>) a)"

text \<open>An event also registers its cgroup; the new cache is the last result.\<close>

definition on_statix_event ::
  "agg_env \<Rightarrow> pathbuf \<Rightarrow> AttributionError + pathbuf \<Rightarrow> StatixEvent \<Rightarrow> string \<Rightarrow> CacheState \<Rightarrow> Aggregator
   \<Rightarrow> BatchPayload option \<times> CacheState \<times> Aggregator" where
  "on_statix_event env root rel_path event node cache a =
     (if ev_kind event = EVENT_KIND_WORKLOAD_IDENTITY
      then let cache1 = on_identity_event root rel_path event cache;
               a1 = update_entry (ev_cgroup_id event)
                      (\<lambda>entry. entry\<lparr>st_exec_count := sat_add (st_exec_count entry) 1,
                                     st_labels := labels_for_cgroup cache1 (ev_cgroup_id event)\<rparr>) a;
               (r, a2) = try_early_flush env node a1
           in (r, cache1, a2)
      else if ev_kind event = EVENT_KIND_MEMORY_SAMPLE
      then let (r, a1) = try_early_flush env node
                           (ingest_memory_sample_inner (ev_cgroup_id event) (ev_memory_bytes event) cache a)
           in (r, cache, a1)
      else let (r, a1) = try_early_flush env node a in (r, cache, a1))"

section \<open>Reference: the report of a list of observations\<close>

text \<open>An observation of a cgroup, with the labels the cgroup had at that moment.\<close>

datatype obs = OExec u64 WorkloadLabels | OMem u64 u64 WorkloadLabels | OCpu u64 u64 WorkloadLabels

primrec obs_cgroup :: "obs \<Rightarrow> u64" where
  "obs_cgroup (OExec c _) = c"
| "obs_cgroup (OMem c _ _) = c"
| "obs_cgroup (OCpu c _ _) = c"

primrec obs_labels :: "obs \<Rightarrow> WorkloadLabels" where
  "obs_labels (OExec _ l) = l"
| "obs_labels (OMem _ _ l) = l"
| "obs_labels (OCpu _ _ l) = l"

primrec obs_execs :: "obs \<Rightarrow> nat" where
  "obs_execs (OExec _ _) = 1"
| "obs_execs (OMem _ _ _) = 0"
| "obs_execs (OCpu _ _ _) = 0"

primrec obs_mem :: "obs \<Rightarrow> u64 option" where
  "obs_mem (OExec _ _) = None"
| "obs_mem (OMem _ m _) = Some m"
| "obs_mem (OCpu _ _ _) = None"

primrec obs_cpu :: "obs \<Rightarrow> nat" where
  "obs_cpu (OExec _ _) = 0"
| "obs_cpu (OMem _ _ _) = 0"
| "obs_cpu (OCpu _ d _) = unat d"

definition observed :: "u64 \<Rightarrow> obs list \<Rightarrow> obs list" where
  "observed cid os = filter (\<lambda>ob. obs_cgroup ob = cid) os"

text \<open>The counters saturate at their width.\<close>

definition stats_of :: "obs list \<Rightarrow> u64 \<Rightarrow> WorkloadStats option" where
  "stats_of os cid =
     (let mine = observed cid os; mems = List.map_filter obs_mem mine
      in if mine = [] then None
         else Some \<lparr>st_exec_count = word_of_nat (min (sum_list (map obs_execs mine)) (2 ^ 32 - 1)),
                    st_sample_count = word_of_nat (min (length mems) (2 ^ 32 - 1)),
                    st_memory_bytes_max = foldl max 0 mems,
                    st_memory_bytes_last = (if mems = [] then 0 else last mems),
                    st_cpu_usage_usec = word_of_nat (min (sum_list (map obs_cpu mine)) (2 ^ 64 - 1)),
                    st_labels = obs_labels (last mine)\<rparr>)"

definition window_rep :: "Aggregator \<Rightarrow> obs list \<Rightarrow> bool" where
  "window_rep a os \<longleftrightarrow>
     agg_active a < 2 \<and> length (agg_buffers a) = 2 \<and> agg_buffers a ! (1 - agg_active a) = []
     \<and> distinct (keys (agg_buffers a ! agg_active a))
     \<and> map_of (agg_buffers a ! agg_active a) = stats_of os
     \<and> agg_max_keys a = DEFAULT_MAX_KEYS"

definition report :: "string \<Rightarrow> obs list \<Rightarrow> BatchPayload \<Rightarrow> bool" where
  "report node os p \<longleftrightarrow>
     os \<noteq> [] \<and> bp_node p = node \<and> distinct (map wr_cgroup_id (bp_workloads p))
     \<and> set (bp_workloads p) = {workload_row cid st | cid st. stats_of os cid = Some st}"

section \<open>Ingest refines appending an observation\<close>

fun apply_obs :: "obs \<Rightarrow> WorkloadStats \<Rightarrow> WorkloadStats" where
  "apply_obs (OExec _ l) e = e\<lparr>st_exec_count := sat_add (st_exec_count e) 1, st_labels := l\<rparr>"
| "apply_obs (OMem _ m l) e = e\<lparr>st_sample_count := sat_add (st_sample_count e) 1, st_memory_bytes_last := m,
     st_memory_bytes_max := (if m > st_memory_bytes_max e then m else st_memory_bytes_max e), st_labels := l\<rparr>"
| "apply_obs (OCpu _ d l) e = e\<lparr>st_cpu_usage_usec := sat_add (st_cpu_usage_usec e) d, st_labels := l\<rparr>"

lemmas sat_counters = sat_add_word_of_nat [where 'a = 32, simplified] sat_add_word_of_nat [where 'a = 64, simplified]

lemma stats_of_snoc:
  "stats_of (os @ [ob]) = (stats_of os)(obs_cgroup ob \<mapsto>
     apply_obs ob (case stats_of os (obs_cgroup ob) of Some s \<Rightarrow> s | None \<Rightarrow> default_stats))"
proof
  fix cid
  show "stats_of (os @ [ob]) cid = ((stats_of os)(obs_cgroup ob \<mapsto>
     apply_obs ob (case stats_of os (obs_cgroup ob) of Some s \<Rightarrow> s | None \<Rightarrow> default_stats))) cid"
  proof (cases "obs_cgroup ob = cid")
    case False
    then show ?thesis by (simp add: stats_of_def observed_def)
  next
    case True
    then show ?thesis
      using sat_add_word_of_nat [where 'a = 32 and n = 0 and d = 1] sat_add_word_of_nat [where 'a = 64 and n = 0]
      by (cases ob)
         (auto simp: stats_of_def observed_def Let_def default_stats_def map_filter_simps map_filter_append
               sat_counters max_def word_gt_0)
  qed
qed

lemma apply_obs_fun:
  "apply_obs (OExec c l) = (\<lambda>e. e\<lparr>st_exec_count := sat_add (st_exec_count e) 1, st_labels := l\<rparr>)"
  "apply_obs (OMem c m l) = (\<lambda>e. e\<lparr>st_sample_count := sat_add (st_sample_count e) 1, st_memory_bytes_last := m,
     st_memory_bytes_max := (if m > st_memory_bytes_max e then m else st_memory_bytes_max e), st_labels := l\<rparr>)"
  "apply_obs (OCpu c d l) = (\<lambda>e. e\<lparr>st_cpu_usage_usec := sat_add (st_cpu_usage_usec e) d, st_labels := l\<rparr>)"
  by (rule ext, simp)+

lemma update_entry_rep:
  assumes "window_rep a os"
  shows "window_rep (update_entry (obs_cgroup ob) (apply_obs ob) a) (os @ [ob])"
    and "active_len (update_entry cid f a) \<le> Suc (active_len a)"
proof -
  have "agg_active a = 0 \<or> agg_active a = 1" using assms(1) by (auto simp: window_rep_def)
  then show "window_rep (update_entry (obs_cgroup ob) (apply_obs ob) a) (os @ [ob])"
    using assms
    by (auto simp: window_rep_def update_entry_def Let_def stats_of_snoc statix_simps distinct_keys_update)
  have "length (AList.update k v m) \<le> Suc (length m)" for k and v :: WorkloadStats and m
    by (induction m) auto
  then show "active_len (update_entry cid f a) \<le> Suc (active_len a)"
    using assms(1) by (simp add: active_len_def update_entry_def Let_def window_rep_def)
qed

lemma stats_of_Nil [simp]: "stats_of [] = Map.empty"
  by (simp add: stats_of_def observed_def fun_eq_iff)

lemma stats_of_empty_iff: "stats_of os = Map.empty \<longleftrightarrow> os = []"
proof (cases os rule: rev_cases)
  case (snoc os' ob)
  then show ?thesis by (simp add: stats_of_snoc)
qed simp

lemma row_cgroup [simp]: "wr_cgroup_id (workload_row cid st) = cid"
  by (simp add: workload_row_def)

text \<open>A flush reports the window and starts an empty one at the instant the report ends.\<close>

lemma flush_rep:
  assumes rep: "window_rep a os" and f: "flush env node a = (r, a')"
  shows "window_rep a' []" and "agg_window_start_ns a' = ae_now env" and "active_len a' = 0"
    and "r = None \<longleftrightarrow> os = []"
    and "r = Some p \<Longrightarrow> report node os p \<and> length (bp_workloads p) = active_len a
           \<and> bp_window_start_ns p = agg_window_start_ns a \<and> bp_window_end_ns p = ae_now env"
proof -
  let ?buf = "agg_buffers a ! agg_active a"
  have act: "agg_active a = 0 \<or> agg_active a = 1" and len: "length (agg_buffers a) = 2"
    using rep by (auto simp: window_rep_def)
  have e: "?buf = [] \<longleftrightarrow> os = []"
    using rep stats_of_empty_iff [of os] map_of_eq_empty_iff [of ?buf] by (auto simp: window_rep_def)
  show "window_rep a' []" "agg_window_start_ns a' = ae_now env" "r = None \<longleftrightarrow> os = []" "active_len a' = 0"
    using f e rep act len
    by (auto simp: flush_def Let_def reset_window_def window_rep_def active_len_def split: if_splits)
  assume "r = Some p"
  then have p: "bp_workloads p = map (\<lambda>(cid, st). workload_row cid st) ?buf" "bp_node p = node" "?buf \<noteq> []"
      "bp_window_start_ns p = agg_window_start_ns a" "bp_window_end_ns p = ae_now env"
    using f by (auto simp: flush_def Let_def reset_window_def split: if_splits)
  have "(cid, st) \<in> set ?buf \<longleftrightarrow> stats_of os cid = Some st" for cid st
    using rep map_of_eq_Some_iff [of ?buf cid st] by (simp add: window_rep_def)
  then have "set (bp_workloads p) = {workload_row cid st | cid st. stats_of os cid = Some st}"
    unfolding p(1) by force
  moreover have "distinct (map wr_cgroup_id (bp_workloads p))"
    using rep unfolding p(1) by (simp add: window_rep_def comp_def case_prod_unfold)
  ultimately show "report node os p \<and> length (bp_workloads p) = active_len a
      \<and> bp_window_start_ns p = agg_window_start_ns a \<and> bp_window_end_ns p = ae_now env"
    using p e by (simp add: report_def active_len_def)
qed

section \<open>Runs\<close>

text \<open>An operation of the aggregator, with the state of the cache it reads.\<close>

datatype agg_op =
    AEvent pathbuf "AttributionError + pathbuf" StatixEvent CacheState
  | AMem u64 u64 CacheState
  | ACpu u64 u64 CacheState
  | AFlush

fun agg_apply :: "string \<Rightarrow> agg_env \<times> agg_op \<Rightarrow> Aggregator \<Rightarrow> BatchPayload option \<times> Aggregator" where
  "agg_apply node (env, AEvent root rel ev cache) a =
     (case on_statix_event env root rel ev node cache a of (r, _, a1) \<Rightarrow> (r, a1))"
| "agg_apply node (env, AMem cid m cache) a = ingest_memory_sample env cid m cache node a"
| "agg_apply node (env, ACpu cid d cache) a = ingest_cpu_sample env cid d cache node a"
| "agg_apply node (env, AFlush) a = flush env node a"

fun agg_run :: "string \<Rightarrow> (agg_env \<times> agg_op) list \<Rightarrow> Aggregator \<Rightarrow> BatchPayload list \<times> Aggregator" where
  "agg_run node [] a = ([], a)"
| "agg_run node (op # ops) a =
     (case agg_apply node op a of (r, a1) \<Rightarrow>
        case agg_run node ops a1 of (bs, a2) \<Rightarrow> ((case r of None \<Rightarrow> bs | Some b \<Rightarrow> b # bs), a2))"

fun op_obs :: "agg_op \<Rightarrow> obs list" where
  "op_obs (AEvent root rel ev cache) =
     (if ev_kind ev = EVENT_KIND_WORKLOAD_IDENTITY
      then [OExec (ev_cgroup_id ev) (labels_for_cgroup (on_identity_event root rel ev cache) (ev_cgroup_id ev))]
      else if ev_kind ev = EVENT_KIND_MEMORY_SAMPLE
      then [OMem (ev_cgroup_id ev) (ev_memory_bytes ev) (labels_for_cgroup cache (ev_cgroup_id ev))]
      else [])"
| "op_obs (AMem cid m cache) = [OMem cid m (labels_for_cgroup cache cid)]"
| "op_obs (ACpu cid d cache) = [OCpu cid d (labels_for_cgroup cache cid)]"
| "op_obs AFlush = []"

definition observations :: "(agg_env \<times> agg_op) list \<Rightarrow> obs list" where
  "observations ops = concat (map (op_obs \<circ> snd) ops)"

lemma early_flush_rep:
  assumes rep: "window_rep a os" and len: "active_len a \<le> DEFAULT_MAX_KEYS"
    and f: "try_early_flush env node a = (r, a')"
  shows "active_len a' < DEFAULT_MAX_KEYS
    \<and> (case r of None \<Rightarrow> window_rep a' os
       | Some p \<Rightarrow> window_rep a' [] \<and> report node os p \<and> length (bp_workloads p) \<le> DEFAULT_MAX_KEYS)"
proof (cases "agg_max_keys a \<le> active_len a")
  case False
  with f rep show ?thesis by (auto simp: try_early_flush_def window_rep_def)
next
  case True
  with f have fl: "flush env node a = (r, a')" by (simp add: try_early_flush_def)
  have "os \<noteq> []"
  proof
    assume "os = []"
    with rep have "active_len a = 0" by (simp add: window_rep_def active_len_def)
    with True rep show False by (simp add: window_rep_def DEFAULT_MAX_KEYS_def)
  qed
  with flush_rep [OF rep fl] len show ?thesis by (auto simp: DEFAULT_MAX_KEYS_def split: option.splits)
qed

lemma agg_apply_rep:
  assumes rep: "window_rep a os" and len: "active_len a < DEFAULT_MAX_KEYS"
    and f: "agg_apply node (env, op) a = (r, a')"
  shows "active_len a' < DEFAULT_MAX_KEYS
    \<and> (case r of None \<Rightarrow> window_rep a' (os @ op_obs op)
       | Some p \<Rightarrow> window_rep a' [] \<and> report node (os @ op_obs op) p \<and> length (bp_workloads p) \<le> DEFAULT_MAX_KEYS)"
proof -
  have upd: "active_len a' < DEFAULT_MAX_KEYS
    \<and> (case r of None \<Rightarrow> window_rep a' (os @ [ob])
       | Some p \<Rightarrow> window_rep a' [] \<and> report node (os @ [ob]) p \<and> length (bp_workloads p) \<le> DEFAULT_MAX_KEYS)"
    if "try_early_flush env node (update_entry (obs_cgroup ob) (apply_obs ob) a) = (r, a')" for ob
    using early_flush_rep [OF update_entry_rep(1) [OF rep] _ that] update_entry_rep(2) [OF rep] len
    by (meson Suc_leI le_trans)
  note defs = apply_obs_fun on_statix_event_def ingest_memory_sample_def ingest_memory_sample_inner_def ingest_cpu_sample_def
  show ?thesis
  proof (cases op)
    case (AEvent root rel ev cache)
    let ?c = "ev_cgroup_id ev"
    consider "ev_kind ev = EVENT_KIND_WORKLOAD_IDENTITY"
      | "ev_kind ev \<noteq> EVENT_KIND_WORKLOAD_IDENTITY" "ev_kind ev = EVENT_KIND_MEMORY_SAMPLE"
      | "ev_kind ev \<noteq> EVENT_KIND_WORKLOAD_IDENTITY" "ev_kind ev \<noteq> EVENT_KIND_MEMORY_SAMPLE" by blast
    then show ?thesis
    proof cases
      case 1
      with upd [of "OExec ?c (labels_for_cgroup (on_identity_event root rel ev cache) ?c)"] f show ?thesis
        unfolding AEvent by (simp add: defs Let_def split: prod.splits option.splits)
    next
      case 2
      with upd [of "OMem ?c (ev_memory_bytes ev) (labels_for_cgroup cache ?c)"] f show ?thesis
        unfolding AEvent by (simp add: defs Let_def split: prod.splits option.splits)
    next
      case 3
      with early_flush_rep [OF rep, of env node r a'] f len show ?thesis
        unfolding AEvent by (simp add: defs split: prod.splits option.splits)
    qed
  next
    case (AMem cid m cache)
    show ?thesis
      using upd [of "OMem cid m (labels_for_cgroup cache cid)"] f unfolding AMem by (simp add: defs split: option.splits)
  next
    case (ACpu cid d cache)
    show ?thesis
      using upd [of "OCpu cid d (labels_for_cgroup cache cid)"] f unfolding ACpu by (simp add: defs split: option.splits)
  next
    case AFlush
    show ?thesis
      using flush_rep [OF rep, of env node r a'] f len unfolding AFlush
      by (auto simp: DEFAULT_MAX_KEYS_def split: option.splits)
  qed
qed

section \<open>Properties\<close>

lemma agg_run_rep:
  assumes "window_rep a os" and "active_len a < DEFAULT_MAX_KEYS" and "agg_run node ops a = (bs, a')"
  shows "\<exists>wins cur. concat wins @ cur = os @ observations ops \<and> list_all2 (report node) wins bs
     \<and> (\<forall>b \<in> set bs. length (bp_workloads b) \<le> DEFAULT_MAX_KEYS)
     \<and> window_rep a' cur \<and> active_len a' < DEFAULT_MAX_KEYS"
  using assms
proof (induction ops arbitrary: a os bs)
  case Nil
  then show ?case by (intro exI [of _ "[]"] exI [of _ os]) (simp add: observations_def)
next
  case (Cons op ops)
  obtain env o1 where op: "op = (env, o1)" by (cases op)
  obtain r a1 where s1: "agg_apply node op a = (r, a1)" by (cases "agg_apply node op a")
  obtain bs1 where s2: "agg_run node ops a1 = (bs1, a')" and bs: "bs = (case r of None \<Rightarrow> bs1 | Some b \<Rightarrow> b # bs1)"
    using Cons.prems(3) s1 by (auto split: prod.splits)
  have obs: "os @ observations (op # ops) = (os @ op_obs o1) @ observations ops"
    by (simp add: observations_def op)
  note step = agg_apply_rep [OF Cons.prems(1,2) s1 [unfolded op]]
  show ?case
  proof (cases r)
    case None
    with Cons.IH [OF _ _ s2, of "os @ op_obs o1"] step bs obs show ?thesis by simp
  next
    case (Some p)
    with Cons.IH [OF _ _ s2, of "[]"] step obtain wins cur where
      "concat wins @ cur = observations ops" "list_all2 (report node) wins bs1"
      "\<forall>b \<in> set bs1. length (bp_workloads b) \<le> DEFAULT_MAX_KEYS"
      "window_rep a' cur" "active_len a' < DEFAULT_MAX_KEYS" by auto
    with Some step bs obs show ?thesis
      by (intro exI [of _ "(os @ op_obs o1) # wins"] exI [of _ cur]) simp
  qed
qed

lemma new_rep: "window_rep (Aggregator_new now) []" "active_len (Aggregator_new now) < DEFAULT_MAX_KEYS"
  by (simp_all add: window_rep_def Aggregator_new_def active_len_def DEFAULT_MAX_KEYS_def fun_eq_iff)

text \<open>
  C9: Windows partition the telemetry.  Whatever operations an aggregator performs, the batches
  it emits cut the sequence of its observations into consecutive windows: each batch has exactly
  one row per cgroup observed in its window, with the saturating exec and sample counts, the
  largest and the last memory value, the sum of the CPU deltas and the labels of the last
  observation; observations after the last batch are in the active buffer.  Nothing is dropped
  or counted twice, early flushes included, and no batch has more than 4096 rows.
\<close>

theorem windows_partition_observations:
  assumes "agg_run node ops (Aggregator_new now) = (bs, a)"
  shows "\<exists>wins cur. concat wins @ cur = observations ops \<and> list_all2 (report node) wins bs
     \<and> (\<forall>b \<in> set bs. length (bp_workloads b) \<le> 4096)
     \<and> window_rep a cur \<and> active_len a < 4096"
  using agg_run_rep [OF new_rep assms] by (simp add: DEFAULT_MAX_KEYS_def)

definition sample_env :: agg_env where
  "sample_env = \<lparr>ae_now = 10, ae_rnd = replicate 16 0, ae_uuid = (\<lambda>_. ''id''), ae_version = ''0.1.0''\<rparr>"

theorem windows_partition_observations_witness:
  "\<exists>wins cur. concat wins @ cur
       = [OMem 7 100 DEFAULT_LABELS, OCpu 7 5 DEFAULT_LABELS, OMem 7 80 DEFAULT_LABELS]
     \<and> length wins = 1 \<and> list_all2 (report ''n'') wins
         (fst (agg_run ''n'' [(sample_env, AMem 7 100 cache_empty), (sample_env, ACpu 7 5 cache_empty),
            (sample_env, AFlush), (sample_env, AMem 7 80 cache_empty)] (Aggregator_new 0)))"
proof -
  let ?ops = "[(sample_env, AMem 7 100 cache_empty), (sample_env, ACpu 7 5 cache_empty),
            (sample_env, AFlush), (sample_env, AMem 7 80 cache_empty)]"
  obtain wins cur where w: "concat wins @ cur = observations ?ops"
    "list_all2 (report ''n'') wins (fst (agg_run ''n'' ?ops (Aggregator_new 0)))"
    using windows_partition_observations [OF surjective_pairing, of ?ops "''n''" 0] by blast
  have obs: "observations ?ops = [OMem 7 100 DEFAULT_LABELS, OCpu 7 5 DEFAULT_LABELS, OMem 7 80 DEFAULT_LABELS]"
    by code_simp
  have "length (fst (agg_run ''n'' ?ops (Aggregator_new 0))) = 1"
    by (simp add: ingest_memory_sample_def ingest_memory_sample_inner_def ingest_cpu_sample_def try_early_flush_def
        flush_def update_entry_def active_len_def Aggregator_new_def DEFAULT_MAX_KEYS_def Let_def reset_window_def)
  with list_all2_lengthD [OF w(2)] have "length wins = 1" by simp
  with w obs show ?thesis by metis
qed

section \<open>Conservation of counts\<close>

definition rows_of :: "u64 \<Rightarrow> BatchPayload list \<Rightarrow> WorkloadRow list" where
  "rows_of cid bs = filter (\<lambda>r. wr_cgroup_id r = cid) (concat (map bp_workloads bs))"

definition total_execs :: "u64 \<Rightarrow> obs list \<Rightarrow> nat" where
  "total_execs cid os = sum_list (map obs_execs (observed cid os))"

definition total_cpu :: "u64 \<Rightarrow> obs list \<Rightarrow> nat" where
  "total_cpu cid os = sum_list (map obs_cpu (observed cid os))"

lemma totals_append [simp]:
  "total_execs cid (xs @ ys) = total_execs cid xs + total_execs cid ys"
  "total_cpu cid (xs @ ys) = total_cpu cid xs + total_cpu cid ys"
  by (simp_all add: total_execs_def total_cpu_def observed_def)

lemma stats_of_execs:
  "total_execs cid os < 2 ^ 32 \<Longrightarrow>
     (case stats_of os cid of None \<Rightarrow> 0 | Some st \<Rightarrow> unat (st_exec_count st)) = total_execs cid os"
  by (auto simp: stats_of_def Let_def total_execs_def unat_of_nat min_def)

lemma stats_of_cpu:
  "total_cpu cid os < 2 ^ 64 \<Longrightarrow>
     (case stats_of os cid of None \<Rightarrow> 0 | Some st \<Rightarrow> unat (st_cpu_usage_usec st)) = total_cpu cid os"
  by (auto simp: stats_of_def Let_def total_cpu_def unat_of_nat min_def)

lemma report_rows:
  assumes "report node os p"
  shows "filter (\<lambda>r. wr_cgroup_id r = cid) (bp_workloads p)
     = (case stats_of os cid of None \<Rightarrow> [] | Some st \<Rightarrow> [workload_row cid st])"
proof -
  have d: "distinct (map wr_cgroup_id (bp_workloads p))"
    and s: "set (bp_workloads p) = {workload_row cid st | cid st. stats_of os cid = Some st}"
    using assms by (simp_all add: report_def)
  let ?f = "filter (\<lambda>r. wr_cgroup_id r = cid) (bp_workloads p)"
  have set: "set ?f = (case stats_of os cid of None \<Rightarrow> {} | Some st \<Rightarrow> {workload_row cid st})"
    using s by (auto split: option.splits)
  have "length ?f \<le> 1"
  proof -
    have "distinct (map wr_cgroup_id ?f)" using d by (rule distinct_map_filter)
    then have "length ?f = card (wr_cgroup_id ` set ?f)" by (metis distinct_card length_map set_map)
    also have "\<dots> \<le> card {cid}" by (rule card_mono) auto
    finally show ?thesis by simp
  qed
  with set show ?thesis by (cases ?f) (auto split: option.splits)
qed

lemma rows_of_append [simp]: "rows_of cid (xs @ ys) = rows_of cid xs @ rows_of cid ys"
  by (simp add: rows_of_def)

lemma rows_of_report:
  "report node os p \<Longrightarrow>
     rows_of cid (p # bs) = (case stats_of os cid of None \<Rightarrow> [] | Some st \<Rightarrow> [workload_row cid st]) @ rows_of cid bs"
  by (simp add: rows_of_def report_rows)

lemma reports_execs:
  assumes "list_all2 (report node) wins bs" and "total_execs cid (concat wins) < 2 ^ 32"
  shows "sum_list (map (unat \<circ> wr_exec_count) (rows_of cid bs)) = total_execs cid (concat wins)"
  using assms
proof (induction wins bs rule: list_all2_induct)
  case (Cons os wins p bs)
  then have "total_execs cid os < 2 ^ 32" by simp
  note t = stats_of_execs [OF this]
  from Cons t rows_of_report [OF Cons.hyps(1)] show ?case by (auto simp: workload_row_def split: option.splits)
qed (simp add: rows_of_def total_execs_def observed_def)

lemma reports_cpu:
  assumes "list_all2 (report node) wins bs" and "total_cpu cid (concat wins) < 2 ^ 64"
  shows "sum_list (map (unat \<circ> wr_cpu_usage_usec) (rows_of cid bs)) = total_cpu cid (concat wins)"
  using assms
proof (induction wins bs rule: list_all2_induct)
  case (Cons os wins p bs)
  then have "total_cpu cid os < 2 ^ 64" by simp
  note t = stats_of_cpu [OF this]
  from Cons t rows_of_report [OF Cons.hyps(1)] show ?case by (auto simp: workload_row_def split: option.splits)
qed (simp add: rows_of_def total_cpu_def observed_def)

text \<open>
  C19: Exec counts and CPU time are conserved.  As long as the totals of a cgroup fit the
  counters, the exec counts of its rows in all batches emitted so far and of its entry in the
  active buffer add up to the number of exec events seen for it, and likewise for the CPU
  microseconds sampled.
\<close>

theorem telemetry_conserved:
  assumes "agg_run node ops (Aggregator_new now) = (bs, a)"
    and "total_execs cid (observations ops) < 2 ^ 32" and "total_cpu cid (observations ops) < 2 ^ 64"
  shows "sum_list (map (unat \<circ> wr_exec_count) (rows_of cid bs))
       + (case map_of (agg_buffers a ! agg_active a) cid of None \<Rightarrow> 0 | Some st \<Rightarrow> unat (st_exec_count st))
       = total_execs cid (observations ops)
     \<and> sum_list (map (unat \<circ> wr_cpu_usage_usec) (rows_of cid bs))
       + (case map_of (agg_buffers a ! agg_active a) cid of None \<Rightarrow> 0 | Some st \<Rightarrow> unat (st_cpu_usage_usec st))
       = total_cpu cid (observations ops)"
proof -
  obtain wins cur where w: "concat wins @ cur = observations ops" "list_all2 (report node) wins bs" "window_rep a cur"
    using agg_run_rep [OF new_rep assms(1)] by auto
  have t: "total_execs cid (concat wins) + total_execs cid cur = total_execs cid (observations ops)"
    "total_cpu cid (concat wins) + total_cpu cid cur = total_cpu cid (observations ops)"
    unfolding w(1) [symmetric] by simp_all
  have "map_of (agg_buffers a ! agg_active a) = stats_of cur" using w(3) by (simp add: window_rep_def)
  with reports_execs [OF w(2), of cid] reports_cpu [OF w(2), of cid] stats_of_execs [of cid cur] stats_of_cpu [of cid cur]
    t assms(2,3) show ?thesis by simp
qed

theorem telemetry_conserved_witness:
  "sum_list (map (unat \<circ> wr_cpu_usage_usec) (rows_of 7
     (fst (agg_run ''n'' [(sample_env, ACpu 7 5 cache_empty), (sample_env, AFlush)] (Aggregator_new 0)))))
   + (case map_of (agg_buffers (snd (agg_run ''n'' [(sample_env, ACpu 7 5 cache_empty), (sample_env, AFlush)] (Aggregator_new 0)))
          ! agg_active (snd (agg_run ''n'' [(sample_env, ACpu 7 5 cache_empty), (sample_env, AFlush)] (Aggregator_new 0)))) 7
      of None \<Rightarrow> 0 | Some st \<Rightarrow> unat (st_cpu_usage_usec st)) = 5"
proof -
  let ?ops = "[(sample_env, ACpu 7 5 cache_empty), (sample_env, AFlush)]"
  have "total_execs 7 (observations ?ops) = 0" "total_cpu 7 (observations ?ops) = 5"
    by (simp_all add: observations_def total_execs_def total_cpu_def observed_def)
  with telemetry_conserved [OF surjective_pairing, of 7 ?ops "''n''" 0] show ?thesis by simp
qed

end
