(* ===== verification/Sampler.thy ===== *)
theory Sampler
  imports Aggregator
begin

text \<open>
  The periodic sampler of \<^verbatim>\<open>statix/src/memory_sampler.rs\<close>: it reads the working set and the CPU
  counter of every leaf cgroup, turns counter values into deltas against a baseline, and feeds
  both to the aggregator.  The file system is an argument.
\<close>

section \<open>Definitions\<close>

text \<open>What the files hold during one pass, and the link count of a directory.\<close>

record fs_view =
  fv_file :: "pathbuf \<Rightarrow> file_view"
  fv_nlink :: "pathbuf \<Rightarrow> nat option"

record Sampler =
  sa_cpu_baseline :: "(u64 \<times> u64) list"
  sa_cpu_errors :: nat
  sa_task_errors :: nat

definition Sampler_new :: Sampler where
  "Sampler_new = \<lparr>sa_cpu_baseline = [], sa_cpu_errors = 0, sa_task_errors = 0\<rparr>"

definition is_leaf_cgroup :: "fs_view \<Rightarrow> pathbuf \<Rightarrow> bool" where
  "is_leaf_cgroup fs dir = (case fv_nlink fs dir of Some nlink \<Rightarrow> nlink = 2 | None \<Rightarrow> False)"

definition parent_is_leaf :: "fs_view \<Rightarrow> pathbuf \<Rightarrow> bool" where
  "parent_is_leaf fs p = (case parent p of Some dir \<Rightarrow> is_leaf_cgroup fs dir | None \<Rightarrow> False)"

definition cpu_delta :: "(u64 \<times> u64) list \<Rightarrow> u64 \<Rightarrow> u64 \<Rightarrow> u64 option \<times> (u64 \<times> u64) list" where
  "cpu_delta baseline cgroup_id current =
     (case map_of baseline cgroup_id of
        Some last_usage \<Rightarrow> (Some (sat_sub current last_usage), AList.update cgroup_id current baseline)
      | None \<Rightarrow> (None, AList.update cgroup_id current baseline))"

text \<open>The body of the blocking task of \<^verbatim>\<open>prime\<close>.\<close>

definition prime_reading :: "fs_view \<Rightarrow> u64 \<times> pathbuf \<Rightarrow> (u64 \<times> u64) option" where
  "prime_reading fs = (\<lambda>(cgroup_id, cpu_path).
     if \<not> parent_is_leaf fs cpu_path then None
     else case read_cpu_usage_usec_at cpu_path (fv_file fs cpu_path) of
            Inr usage_usec \<Rightarrow> Some (cgroup_id, word_of_nat usage_usec)
          | Inl _ \<Rightarrow> None)"

definition prime_sampler :: "fs_view \<Rightarrow> bool \<Rightarrow> CacheState \<Rightarrow> Sampler \<Rightarrow> Sampler" where
  "prime_sampler fs task_ok cache s =
     (let targets = map (\<lambda>(cgroup_id, _, cpu_path, _). (cgroup_id, cpu_path)) (for_each_sample_target cache);
          readings = (if task_ok then List.map_filter (prime_reading fs) targets else [])
      in s\<lparr>sa_cpu_baseline := fold (\<lambda>(cgroup_id, usage_usec) b. AList.update cgroup_id usage_usec b)
                                readings (sa_cpu_baseline s)\<rparr>)"

text \<open>The body of the blocking task of \<^verbatim>\<open>tick\<close>: working set and CPU counter, either may be missing.\<close>

definition tick_reading ::
  "fs_view \<Rightarrow> u64 \<times> pathbuf \<times> pathbuf \<times> pathbuf \<Rightarrow> (u64 \<times> u64 option \<times> u64 option) option" where
  "tick_reading fs = (\<lambda>(cgroup_id, mem_path, cpu_path, stat_path).
     if \<not> parent_is_leaf fs mem_path then None
     else
       let mem = (case read_memory_current_at mem_path (fv_file fs mem_path) of
                    Inr current \<Rightarrow>
                      let inactive_file = (case read_inactive_file_at (fv_file fs stat_path) of
                                             Some v \<Rightarrow> v | None \<Rightarrow> 0)
                      in Some (sat_sub (word_of_nat current) (word_of_nat inactive_file))
                  | Inl _ \<Rightarrow> None);
           usage_usec = (case read_cpu_usage_usec_at cpu_path (fv_file fs cpu_path) of
                           Inr v \<Rightarrow> Some (word_of_nat v) | Inl _ \<Rightarrow> None)
       in Some (cgroup_id, mem, usage_usec))"

definition tick_readings :: "fs_view \<Rightarrow> CacheState \<Rightarrow> (u64 \<times> u64 option \<times> u64 option) list" where
  "tick_readings fs cache = List.map_filter (tick_reading fs) (for_each_sample_target cache)"

text \<open>
  The ingest loop.  Call number \<open>k\<close> of the aggregator reads the clock and the cache as they are
  then, \<open>inp k\<close>.
\<close>

fun ingest_readings ::
  "(nat \<Rightarrow> agg_env \<times> CacheState) \<Rightarrow> nat \<Rightarrow> string \<Rightarrow> (u64 \<times> u64 option \<times> u64 option) list
   \<Rightarrow> (u64 \<times> u64) list \<Rightarrow> Aggregator \<Rightarrow> BatchPayload list \<times> (u64 \<times> u64) list \<times> Aggregator" where
  "ingest_readings inp k node [] baseline a = ([], baseline, a)"
| "ingest_readings inp k node ((cgroup_id, mem, usage_usec) # rs) baseline a =
     (let (b1, a1) = (case mem of
                        Some m \<Rightarrow> ingest_memory_sample (fst (inp k)) cgroup_id m (snd (inp k)) node a
                      | None \<Rightarrow> (None, a));
          (b2, baseline1, a2) =
            (case usage_usec of
               Some current \<Rightarrow>
                 (case cpu_delta baseline cgroup_id current of
                    (Some delta, bl) \<Rightarrow>
                      (case ingest_cpu_sample (fst (inp (k + 1))) cgroup_id delta (snd (inp (k + 1))) node a1 of
                         (b, a') \<Rightarrow> (b, bl, a'))
                  | (None, bl) \<Rightarrow> (None, bl, a1))
             | None \<Rightarrow> (None, baseline, a1));
          (bs, baseline2, a3) = ingest_readings inp (k + 2) node rs baseline1 a2
      in (List.map_filter id [b1, b2] @ bs, baseline2, a3))"

definition tick ::
  "fs_view \<Rightarrow> bool \<Rightarrow> (nat \<Rightarrow> agg_env \<times> CacheState) \<Rightarrow> CacheState \<Rightarrow> string \<Rightarrow> Sampler \<Rightarrow> Aggregator
   \<Rightarrow> BatchPayload list \<times> Sampler \<times> Aggregator" where
  "tick fs task_ok inp cache node s a =
     (let results = tick_readings fs cache;
          s1 = (if task_ok
                then s\<lparr>sa_cpu_baseline := filter (\<lambda>(cgroup_id, _). cgroup_id \<in> set (map fst results)) (sa_cpu_baseline s),
                       sa_cpu_errors := sa_cpu_errors s + length (filter (\<lambda>(_, _, u). u = None) results)\<rparr>
                else s\<lparr>sa_task_errors := sa_task_errors s + 1\<rparr>);
          readings = (if task_ok then results else []);
          (early_batches, baseline, a1) = ingest_readings inp 0 node readings (sa_cpu_baseline s1) a
      in (early_batches, s1\<lparr>sa_cpu_baseline := baseline\<rparr>, a1))"

section \<open>Readings\<close>

context sample_source
begin

text \<open>Filtering the targets of a source keeps one entry per tracked cgroup that passes.\<close>

lemma map_filter_targets_distinct:
  assumes "inv s" and f: "\<And>t r. g t = Some r \<Longrightarrow> fst r = fst t"
  shows "distinct (map fst (List.map_filter g (targets s)))"
proof -
  have "map fst (List.map_filter g ts) = map fst (filter (\<lambda>t. g t \<noteq> None) ts)" for ts
  proof (induction ts)
    case (Cons t ts)
    then show ?case using f [of t] by (cases "g t") (simp_all add: map_filter_simps)
  qed (simp add: map_filter_simps)
  then show ?thesis using targets_distinct [OF assms(1)] by (simp add: distinct_map_filter)
qed

lemma map_filter_targets_iff:
  assumes "inv s"
  shows "r \<in> set (List.map_filter g (targets s)) \<longleftrightarrow>
     (\<exists>cid dir. tracked s cid = Some dir
        \<and> g (cid, dir @ [Normal ''memory.current''], dir @ [Normal ''cpu.stat''], dir @ [Normal ''memory.stat'']) = Some r)"
proof -
  have "r \<in> set (List.map_filter g (targets s)) \<longleftrightarrow> (\<exists>t \<in> set (targets s). g t = Some r)"
    by (force simp: map_filter_def)
  also have "\<dots> \<longleftrightarrow> (\<exists>cid mem cpu stat. (cid, mem, cpu, stat) \<in> set (targets s) \<and> g (cid, mem, cpu, stat) = Some r)"
    by auto
  finally show ?thesis unfolding targets_iff [OF assms] by blast
qed

end

text \<open>The working set and the CPU counter of a directory.\<close>

definition working_set :: "fs_view \<Rightarrow> pathbuf \<Rightarrow> u64 option" where
  "working_set fs dir =
     (case read_memory_current_at (dir @ [Normal ''memory.current'']) (fv_file fs (dir @ [Normal ''memory.current''])) of
        Inl _ \<Rightarrow> None
      | Inr n \<Rightarrow> Some (sat_sub (word_of_nat n)
                   (word_of_nat (or_zero (read_inactive_file_at (fv_file fs (dir @ [Normal ''memory.stat''])))))))"

definition cpu_usage :: "fs_view \<Rightarrow> pathbuf \<Rightarrow> u64 option" where
  "cpu_usage fs dir =
     (case read_cpu_usage_usec_at (dir @ [Normal ''cpu.stat'']) (fv_file fs (dir @ [Normal ''cpu.stat''])) of
        Inl _ \<Rightarrow> None | Inr n \<Rightarrow> Some (word_of_nat n))"

lemma tick_reading_dir:
  "tick_reading fs (cid, dir @ [Normal ''memory.current''], dir @ [Normal ''cpu.stat''], dir @ [Normal ''memory.stat''])
     = (if is_leaf_cgroup fs dir then Some (cid, working_set fs dir, cpu_usage fs dir) else None)"
  by (simp add: tick_reading_def parent_is_leaf_def working_set_def cpu_usage_def or_zero_def Let_def split: sum.splits)

lemma tick_reading_fst: "tick_reading fs t = Some r \<Longrightarrow> fst r = fst t"
  by (auto simp: tick_reading_def Let_def split: prod.splits if_splits)

lemma tick_readings_distinct: "cache_ok root s \<Longrightarrow> distinct (map fst (tick_readings fs s))"
  unfolding tick_readings_def by (rule cache.map_filter_targets_distinct) (simp_all add: tick_reading_fst)

lemma tick_readings_iff:
  assumes "cache_ok root s"
  shows "(cid, m, u) \<in> set (tick_readings fs s) \<longleftrightarrow>
     (\<exists>dir. cgroup_dir root s cid = Some dir \<and> is_leaf_cgroup fs dir \<and> m = working_set fs dir \<and> u = cpu_usage fs dir)"
  unfolding tick_readings_def cache.map_filter_targets_iff [OF assms] tick_reading_dir by auto

section \<open>A tick as a run of the aggregator\<close>

fun reading_ops ::
  "(nat \<Rightarrow> agg_env \<times> CacheState) \<Rightarrow> nat \<Rightarrow> (u64 \<times> u64 option \<times> u64 option) list \<Rightarrow> (u64 \<times> u64) list
   \<Rightarrow> (agg_env \<times> agg_op) list \<times> (u64 \<times> u64) list" where
  "reading_ops inp k [] bl = ([], bl)"
| "reading_ops inp k ((cid, mem, u) # rs) bl =
     (let o1 = (case mem of Some m \<Rightarrow> [(fst (inp k), AMem cid m (snd (inp k)))] | None \<Rightarrow> []);
          (o2, bl1) = (case u of
             None \<Rightarrow> ([], bl)
           | Some c \<Rightarrow> (case cpu_delta bl cid c of
                         (Some d, b) \<Rightarrow> ([(fst (inp (k + 1)), ACpu cid d (snd (inp (k + 1))))], b)
                       | (None, b) \<Rightarrow> ([], b)));
          (os, bl2) = reading_ops inp (k + 2) rs bl1
      in (o1 @ o2 @ os, bl2))"

lemma agg_run_append:
  "agg_run node (xs @ ys) a =
     (case agg_run node xs a of (bs, a1) \<Rightarrow> case agg_run node ys a1 of (cs, a2) \<Rightarrow> (bs @ cs, a2))"
  by (induction xs arbitrary: a) (auto split: prod.splits option.splits)

lemma ingest_readings_run:
  "ingest_readings inp k node rs bl a =
     (case reading_ops inp k rs bl of (ops, bl') \<Rightarrow> case agg_run node ops a of (bs, a') \<Rightarrow> (bs, bl', a'))"
proof (induction rs arbitrary: k bl a)
  case (Cons r rs)
  obtain cid mem u where r: "r = (cid, mem, u)" by (cases r)
  show ?case
    unfolding r
    by (simp add: Cons.IH Let_def agg_run_append map_filter_simps split: option.splits prod.splits)
qed simp

lemma observations_simps [simp]:
  "observations [] = []"
  "observations (op # ops) = op_obs (snd op) @ observations ops"
  "observations (xs @ ys) = observations xs @ observations ys"
  by (simp_all add: observations_def)

lemma total_cpu_simps [simp]:
  "total_cpu cid [] = 0"
  "total_cpu cid (OMem c m l # os) = total_cpu cid os"
  "total_cpu cid (OExec c l # os) = total_cpu cid os"
  "total_cpu cid (OCpu c d l # os) = (if c = cid then unat d else 0) + total_cpu cid os"
  by (simp_all add: total_cpu_def observed_def)

lemma cpu_delta_other: "c \<noteq> cid \<Longrightarrow> map_of (snd (cpu_delta bl c v)) cid = map_of bl cid"
  by (simp add: cpu_delta_def statix_simps split: option.splits)

lemma reading_ops_other:
  "cid \<notin> set (map fst rs) \<Longrightarrow>
     map_of (snd (reading_ops inp k rs bl)) cid = map_of bl cid
     \<and> total_cpu cid (observations (fst (reading_ops inp k rs bl))) = 0"
proof (induction rs arbitrary: k bl)
  case (Cons r rs)
  obtain c mem u where r: "r = (c, mem, u)" by (cases r)
  have ne: "c \<noteq> cid" "cid \<notin> set (map fst rs)" using Cons.prems r by auto
  show ?case
    using Cons.IH [OF ne(2)] cpu_delta_other [OF ne(1), of bl] ne(1) unfolding r
    by (fastforce simp: Let_def case_prod_unfold split: option.splits)
qed simp

lemma reading_ops_cpu:
  assumes "distinct (map fst rs)" and "(cid, m, Some c) \<in> set rs"
  shows "map_of (snd (reading_ops inp k rs bl)) cid = Some c
     \<and> total_cpu cid (observations (fst (reading_ops inp k rs bl)))
       = (case map_of bl cid of None \<Rightarrow> 0 | Some l \<Rightarrow> unat c - unat l)"
  using assms
proof (induction rs arbitrary: k bl)
  case (Cons r rs)
  obtain c' mem u where r: "r = (c', mem, u)" by (cases r)
  show ?case
  proof (cases "c' = cid")
    case True
    then have e: "mem = m" "u = Some c" "cid \<notin> set (map fst rs)" using Cons.prems r by force+
    note rest = reading_ops_other [OF e(3), of inp "k + 2"]
    show ?thesis
      using rest [of "AList.update cid c bl"] unfolding r True e(1,2)
      by (auto simp: Let_def case_prod_unfold cpu_delta_def statix_simps sat_simps split: option.splits)
  next
    case False
    with Cons.prems r have p: "distinct (map fst rs)" "(cid, m, Some c) \<in> set rs" by auto
    show ?thesis
      using Cons.IH [OF p] cpu_delta_other [OF False, of bl] False unfolding r
      by (fastforce simp: Let_def case_prod_unfold split: option.splits)
  qed
qed simp

section \<open>Properties\<close>

text \<open>
  C18: What a tick reads.  In every reachable state of the cache, the readings of a tick are one
  per tracked leaf cgroup and nothing else: a directory with sub-cgroups is skipped, so that no
  usage is counted both in a parent and in a child.  The memory value is \<^verbatim>\<open>memory.current\<close> less
  the inactive page cache, floored at 0, and missing exactly when \<^verbatim>\<open>memory.current\<close> cannot be read;
  the CPU value is missing exactly when \<^verbatim>\<open>cpu.stat\<close> cannot.
\<close>

theorem tick_reads_every_leaf_once:
  assumes "cache_reachable root s"
  shows "distinct (map fst (tick_readings fs s))
     \<and> set (tick_readings fs s) =
         {(cid, map_option (\<lambda>n. word_of_nat (n - or_zero (read_inactive_file_at (fv_file fs (dir @ [Normal ''memory.stat''])))))
                  (case read_memory_current_at (dir @ [Normal ''memory.current'']) (fv_file fs (dir @ [Normal ''memory.current'']))
                   of Inl _ \<Rightarrow> None | Inr n \<Rightarrow> Some n),
           cpu_usage fs dir) | cid dir.
            cgroup_dir root s cid = Some dir \<and> fv_nlink fs dir = Some 2}"
proof -
  note ok = cache_reachable_ok [OF assms]
  have mem: "working_set fs dir = map_option (\<lambda>n. word_of_nat (n - or_zero (read_inactive_file_at (fv_file fs (dir @ [Normal ''memory.stat''])))))
                  (case read_memory_current_at (dir @ [Normal ''memory.current'']) (fv_file fs (dir @ [Normal ''memory.current'']))
                   of Inl _ \<Rightarrow> None | Inr n \<Rightarrow> Some n)" for dir
  proof -
    have i: "or_zero (read_inactive_file_at v) < 2 ^ 64" for v
      using counters_are_u64(3) [of v] by (simp add: or_zero_def split: option.split)
    show ?thesis
      using counters_are_u64(1) i by (simp add: working_set_def sat_sub_word_of_nat split: sum.split)
  qed
  show ?thesis
    using tick_readings_distinct [OF ok] unfolding mem [symmetric]
    by (auto simp: tick_readings_iff [OF ok] is_leaf_cgroup_def split: option.splits)
qed

definition sample_fs :: fs_view where
  "sample_fs = \<lparr>fv_file = (\<lambda>p. if p = [RootDir, Normal ''a'', Normal ''memory.current'']
                              then Content (str_bytes (dec_str 9 @ [newline])) else CannotOpen NotFound),
                fv_nlink = (\<lambda>_. Some 2)\<rparr>"

theorem tick_reads_every_leaf_once_witness:
  "set (tick_readings sample_fs (register_cgroup_directory [RootDir] 42 [RootDir, Normal ''a''] cache_empty)) = {(42, Some 9, None)}"
proof -
  let ?s = "register_cgroup_directory [RootDir] 42 [RootDir, Normal ''a''] cache_empty"
  have r: "cache_reachable [RootDir] ?s"
    unfolding cache_reachable_def by (rule r_into_rtranclp, rule cache_step.register)
  have d: "cgroup_dir [RootDir] ?s cid = (if cid = 42 then Some [RootDir, Normal ''a''] else None)" for cid
    by (simp add: cgroup_dir_def register_cgroup_directory_def relabel_def insert_paths_def cache_empty_def
        path_join_def strip_root_def)
  have c: "cpu_usage sample_fs [RootDir, Normal ''a''] = None" "read_inactive_file_at (CannotOpen NotFound) = None"
    by (simp_all add: sample_fs_def cpu_usage_def read_cpu_usage_usec_at_def read_inactive_file_at_def read_once_def)
  show ?thesis
    using tick_reads_every_leaf_once [OF r, of sample_fs]
    by (simp add: d c) (simp add: sample_fs_def c(2) read_memory_current_dec or_zero_def)
qed

end
