(* ===== verification/Emit.thy ===== *)
theory Emit
  imports Output Aggregator
begin

text \<open>
  The emission half of \<^verbatim>\<open>statix/src/output.rs\<close>: the HTTP client's configuration, opening the disk
  log at startup, turning a window into a JSON batch that is enqueued or printed, and the raw
  event output.  The JSON serialiser, and the check whether a text is a legal header value, are
  parameters.
\<close>

section \<open>HTTP client\<close>

record http_client =
  hc_timeout_secs :: nat
  hc_pool_idle_secs :: nat
  hc_authorization :: "string option"

text \<open>\<open>build_ok\<close> says whether the client builder succeeds; otherwise the library's default client is used.\<close>

definition init_http_client :: "(string \<Rightarrow> bool) \<Rightarrow> bool \<Rightarrow> http_client \<Rightarrow> environ \<Rightarrow> http_client" where
  "init_http_client header_value_ok build_ok default_client env =
     (let timeout_secs = read_http_timeout_secs env;
          pool_idle_secs = read_http_pool_idle_secs env;
          auth = (case var env ''STATIX_API_TOKEN'' of
                    Some token \<Rightarrow>
                      if token \<noteq> []
                      then let bearer = ''Bearer '' @ token
                           in if header_value_ok bearer then Some bearer else None
                      else None
                  | None \<Rightarrow> None)
      in if build_ok
         then \<lparr>hc_timeout_secs = timeout_secs, hc_pool_idle_secs = pool_idle_secs, hc_authorization = auth\<rparr>
         else default_client)"

section \<open>Opening the log\<close>

text \<open>
  The result: the handle if the log is enabled and could be opened, with its store, and whether
  the drainer was started, which needs the retry queue.
\<close>

definition init_wal ::
  "(bytes \<Rightarrow> u32) \<Rightarrow> recover_env \<Rightarrow> WalConfig \<Rightarrow> disk \<Rightarrow> wal_metrics \<Rightarrow> bool \<Rightarrow> (wal_handle \<times> WalInner) option \<times> bool" where
  "init_wal crc32 renv cfg d m retry_tx_set =
     (let m0 = m\<lparr>m_bytes_current := 0, m_segments_current := 0\<rparr>
      in if \<not> wc_enabled cfg then (None, False)
         else case Wal_open crc32 renv cfg d m0 of
                Inr (wal, inner) \<Rightarrow> (Some (wal, inner), retry_tx_set)
              | Inl e \<Rightarrow> (None, False))"

section \<open>Batches\<close>

definition ingest_batch :: "BatchPayload \<Rightarrow> IngestBatch" where
  "ingest_batch payload =
     \<lparr>ib_schema_version = word_of_nat SCHEMA_VERSION, ib_window_start_ns = bp_window_start_ns payload,
      ib_window_end_ns = bp_window_end_ns payload, ib_node = bp_node payload, ib_batch_id = bp_batch_id payload,
      ib_agent_version = bp_agent_version payload, ib_workloads = bp_workloads payload\<rparr>"

text \<open>The results: the lines printed, the retry queue, the log handle and the batches dropped.\<close>

definition emit_batch ::
  "(IngestBatch \<Rightarrow> string option) \<Rightarrow> environ \<Rightarrow> bool \<Rightarrow> bool \<Rightarrow> BatchPayload \<Rightarrow> bytes chan option \<Rightarrow> wal_handle option
   \<Rightarrow> string list \<times> bytes chan option \<times> wal_handle option \<times> bytes list" where
  "emit_batch to_json env rx_set locked payload tx wal =
     (case to_json (ingest_batch payload) of
        None \<Rightarrow> ([], tx, wal, [])
      | Some json \<Rightarrow>
          if is_http_ingest env then ([], enqueue_batch_json rx_set locked (str_bytes json) tx wal)
          else ([json], tx, wal, []))"

section \<open>Raw events\<close>

record RawEventJson =
  rj_kind :: u8
  rj_pid :: u32
  rj_tgid :: u32
  rj_cpu_id :: u32
  rj_cgroup_id :: u64
  rj_timestamp_ns :: u64
  rj_memory_bytes :: u64
  rj_comm :: string

definition comm_to_str :: "bytes \<Rightarrow> string" where
  "comm_to_str comm =
     (let comm_end = length (takeWhile (\<lambda>b. b \<noteq> 0) comm)
      in case from_utf8 (take comm_end comm) of Some s \<Rightarrow> s | None \<Rightarrow> ''<invalid-utf8>'')"

definition raw_event :: "StatixEvent \<Rightarrow> RawEventJson" where
  "raw_event event =
     \<lparr>rj_kind = ev_kind event, rj_pid = ev_pid event, rj_tgid = ev_tgid event, rj_cpu_id = ev_cpu_id event,
      rj_cgroup_id = ev_cgroup_id event, rj_timestamp_ns = ev_timestamp event,
      rj_memory_bytes = ev_memory_bytes event, rj_comm = comm_to_str (ev_comm event)\<rparr>"

definition emit_raw :: "(RawEventJson \<Rightarrow> string option) \<Rightarrow> StatixEvent \<Rightarrow> string list" where
  "emit_raw to_json event = (case to_json (raw_event event) of Some json \<Rightarrow> [json] | None \<Rightarrow> [])"

lemma comm_to_str_ascii:
  "(\<And>b. b \<in> set bs \<Longrightarrow> 0 < b \<and> b < 0x80) \<Longrightarrow> comm_to_str (bs @ replicate n 0) = bytes_str bs"
proof -
  assume b: "\<And>b. b \<in> set bs \<Longrightarrow> 0 < b \<and> b < 0x80"
  then have "takeWhile (\<lambda>b. b \<noteq> 0) (bs @ replicate n 0) = bs"
    by (subst takeWhile_append2) (auto simp: takeWhile_replicate)
  moreover have "valid_utf8 bs" using b by (intro valid_utf8_ascii) blast
  ultimately show ?thesis by (simp add: comm_to_str_def from_utf8_def Let_def)
qed

end
