(* ===== verification/Agent_Loop.thy ===== *)
theory Agent_Loop
  imports Sampler Emit
begin

text \<open>
  The agent's main loop, \<^verbatim>\<open>statix/src/main.rs\<close>: draining the ring buffer, the flush and eviction
  timers, the two shutdown signals, and the choice of the eBPF object
  (\<^verbatim>\<open>statix/src/ebpf_select.rs\<close>).  One branch of the \<^verbatim>\<open>select!\<close> is one step; the pod watcher, a task
  of its own, contributes events between and inside the steps.
\<close>

section \<open>Startup\<close>

definition read_node_name :: "environ \<Rightarrow> string option \<Rightarrow> string" where
  "read_node_name env hostname_file =
     (case var env ''STATIX_NODE_NAME'' of
        Some n \<Rightarrow> n
      | None \<Rightarrow>
          (case env ''NODE_NAME'' of
             Some n \<Rightarrow> n
           | None \<Rightarrow> (case hostname_file of Some s \<Rightarrow> trim s | None \<Rightarrow> ''localhost'')))"

definition check_privileges :: "nat \<Rightarrow> string + unit" where
  "check_privileges euid =
     (if euid \<noteq> 0 then Inl ''Must run as root or with CAP_BPF + CAP_PERFMON (+ CAP_SYS_ADMIN for cgroup reads).''
      else Inr ())"

definition wall_unix_ns :: "nat option \<Rightarrow> u64" where
  "wall_unix_ns since_epoch_ns = (case since_epoch_ns of Some d \<Rightarrow> word_of_nat d | None \<Rightarrow> 0)"

definition ebpf_variant :: "nat \<Rightarrow> string" where
  "ebpf_variant cpus =
     (if cpus \<le> 8 then ''statix-ebpf-small''
      else if cpus \<le> 64 then ''statix-ebpf-large'' else ''statix-ebpf-xlarge'')"

text \<open>\<open>bundle_dir\<close> is the directory compiled into the binary.\<close>

definition select_ebpf_by_cpus :: "environ \<Rightarrow> pathbuf \<Rightarrow> (pathbuf \<Rightarrow> bool) \<Rightarrow> nat \<Rightarrow> pathbuf option" where
  "select_ebpf_by_cpus env bundle_dir is_file cpus =
     (let dir = (case var env ''STATIX_BPF_DIR'' of Some d \<Rightarrow> path_of_str d | None \<Rightarrow> bundle_dir);
          path = path_join dir [Normal (ebpf_variant cpus)]
      in if is_file path then Some path else None)"

definition resolve_ebpf_path :: "environ \<Rightarrow> pathbuf \<Rightarrow> (pathbuf \<Rightarrow> bool) \<Rightarrow> nat \<Rightarrow> pathbuf option" where
  "resolve_ebpf_path env bundle_dir is_file cpus =
     (case var env ''STATIX_EBF_PATH'' of
        Some path \<Rightarrow> Some (path_of_str path)
      | None \<Rightarrow> select_ebpf_by_cpus env bundle_dir is_file cpus)"

section \<open>Draining the ring buffer\<close>

definition DRAIN_BUDGET :: nat where
  "DRAIN_BUDGET = 256"

text \<open>
  What the handling of one event reads: the clock and random bytes, the process files, and the
  pod events that the watcher handles before it.
\<close>

record event_in =
  ei_env :: agg_env
  ei_proc :: "u32 \<Rightarrow> file_view"
  ei_watch :: "watch_event list"

text \<open>
  The loop over \<^verbatim>\<open>rb.next()\<close> with \<open>drained\<close> events handled so far.  The results are the items left in
  the ring, the events printed raw, the batches emitted, the cache and the aggregator.
\<close>

fun drain_ring ::
  "(nat \<Rightarrow> event_in) \<Rightarrow> pathbuf \<Rightarrow> bool \<Rightarrow> string \<Rightarrow> nat \<Rightarrow> bytes list \<Rightarrow> CacheState \<Rightarrow> Aggregator
   \<Rightarrow> bytes list \<times> StatixEvent list \<times> BatchPayload list \<times> CacheState \<times> Aggregator" where
  "drain_ring inp root raw node drained [] cache a = ([], [], [], cache, a)"
| "drain_ring inp root raw node drained (item # ring) cache a =
     (if DRAIN_BUDGET \<le> drained then (item # ring, [], [], cache, a)
      else if length item < EVENT_SIZE then drain_ring inp root raw node drained ring cache a
      else
        let event = event_of_bytes item;
            i = inp drained;
            (r, cache1, a1) = on_statix_event (ei_env i) root (cgroup_path_from_pid (ev_pid event) (ei_proc i (ev_pid event)))
                                event node (fold watch_event_step (ei_watch i) cache) a;
            (ring', raws, bs, cache2, a2) = drain_ring inp root raw node (drained + 1) ring cache1 a1
        in (ring', (if raw then [event] else []) @ raws, (case r of Some b \<Rightarrow> [b] | None \<Rightarrow> []) @ bs, cache2, a2))"

section \<open>The select loop\<close>

record agent_loop =
  al_ring :: "bytes list"
  al_cache :: CacheState
  al_sampler :: Sampler
  al_agg :: Aggregator
  al_raw :: "StatixEvent list"
  al_batches :: "BatchPayload list"
  al_evictions :: nat
  al_shutdown :: "string option"

record flush_in =
  fi_fs :: fs_view
  fi_task_ok :: bool
  fi_inp :: "nat \<Rightarrow> agg_env \<times> CacheState"
  fi_env :: agg_env

definition sample_and_flush :: "flush_in \<Rightarrow> string \<Rightarrow> agent_loop \<Rightarrow> agent_loop" where
  "sample_and_flush i node st =
     (let (early, s, a) = tick (fi_fs i) (fi_task_ok i) (fi_inp i) (al_cache st) node (al_sampler st) (al_agg st);
          (r, a1) = flush (fi_env i) node a
      in st\<lparr>al_sampler := s, al_agg := a1,
            al_batches := al_batches st @ early @ (case r of Some b \<Rightarrow> [b] | None \<Rightarrow> [])\<rparr>)"

datatype loop_input =
    Drain "nat \<Rightarrow> event_in"
  | FlushTick flush_in
  | EvictTick "pathbuf \<Rightarrow> bool"
  | Signal string flush_in
  | RingEvent bytes
  | PodEvent watch_event

text \<open>
  The branches: ring readable or polled (both drain), the flush and eviction timers, a signal.
  The last two inputs are the kernel adding a record to the ring and the pod watcher.
\<close>

definition loop_step :: "pathbuf \<Rightarrow> bool \<Rightarrow> string \<Rightarrow> loop_input \<Rightarrow> agent_loop \<Rightarrow> agent_loop" where
  "loop_step root raw node inp st =
     (if al_shutdown st \<noteq> None then st
      else case inp of
        Drain i \<Rightarrow>
          (case drain_ring i root raw node 0 (al_ring st) (al_cache st) (al_agg st) of
             (ring, raws, bs, cache, a) \<Rightarrow>
               st\<lparr>al_ring := ring, al_raw := al_raw st @ raws, al_batches := al_batches st @ bs,
                  al_cache := cache, al_agg := a\<rparr>)
      | FlushTick i \<Rightarrow> sample_and_flush i node st
      | EvictTick exists \<Rightarrow>
          (case evict_stale_cgroups exists (al_cache st) of
             (evicted, cache) \<Rightarrow> st\<lparr>al_cache := cache, al_evictions := al_evictions st + evicted\<rparr>)
      | Signal sig i \<Rightarrow> (sample_and_flush i node st)\<lparr>al_shutdown := Some sig\<rparr>
      | RingEvent item \<Rightarrow> st\<lparr>al_ring := al_ring st @ [item]\<rparr>
      | PodEvent ev \<Rightarrow> st\<lparr>al_cache := watch_event_step ev (al_cache st)\<rparr>)"

definition loop_run :: "pathbuf \<Rightarrow> bool \<Rightarrow> string \<Rightarrow> loop_input list \<Rightarrow> agent_loop \<Rightarrow> agent_loop" where
  "loop_run root raw node inps st = fold (loop_step root raw node) inps st"

text \<open>The state in which the loop is entered: the cache bootstrapped, the sampler primed.\<close>

definition loop_start :: "pathbuf \<Rightarrow> walk_entry list \<Rightarrow> fs_view \<Rightarrow> bool \<Rightarrow> u64 \<Rightarrow> agent_loop" where
  "loop_start root entries fs prime_ok now =
     (let cache = bootstrap_existing_cgroups root entries cache_empty
      in \<lparr>al_ring = [], al_cache = cache, al_sampler = prime_sampler fs prime_ok cache Sampler_new,
          al_agg = Aggregator_new now, al_raw = [], al_batches = [], al_evictions = 0, al_shutdown = None\<rparr>)"

section \<open>Draining\<close>

fun op_event :: "agg_op \<Rightarrow> StatixEvent option" where
  "op_event (AEvent _ _ ev _) = Some ev"
| "op_event _ = None"

lemma watch_events_ok: "cache_ok root s \<Longrightarrow> cache_ok root (fold watch_event_step evs s)"
  by (induction evs arbitrary: s) (simp_all add: watch_event_step_ok)

lemma on_statix_event_cache:
  "on_statix_event env root rel ev node cache a = (r, cache', a') \<Longrightarrow>
     (cache_ok root cache \<longrightarrow> cache_ok root cache')
     \<and> agg_apply node (env, AEvent root rel ev cache) a = (r, a')"
  by (auto simp: on_statix_event_def Let_def on_identity_event_ok split: if_splits prod.splits)

text \<open>
  A drain handles the well-formed items of a prefix of the ring, in order, each as one event of
  the aggregator, and stops at the budget or at the end of the ring.
\<close>

text \<open>
  What a drain leaves: it has taken a prefix of the ring, run the aggregator on the records of full
  size in it, printed them if asked to, and stopped at the end of the ring or of the budget.
\<close>

definition full_events :: "bytes list \<Rightarrow> StatixEvent list" where
  "full_events items = map event_of_bytes (filter (\<lambda>i. EVENT_SIZE \<le> length i) items)"

definition drained ::
  "pathbuf \<Rightarrow> bool \<Rightarrow> string \<Rightarrow> nat \<Rightarrow> bytes list \<Rightarrow> CacheState \<Rightarrow> Aggregator
   \<Rightarrow> bytes list \<times> StatixEvent list \<times> BatchPayload list \<times> CacheState \<times> Aggregator \<Rightarrow> bool" where
  "drained root raw node d ring cache a res \<longleftrightarrow> (case res of (ring', raws, bs, cache', a') \<Rightarrow>
     \<exists>done ops. ring = done @ ring' \<and> agg_run node ops a = (bs, a')
       \<and> map (op_event \<circ> snd) ops = map Some (full_events done) \<and> raws = (if raw then full_events done else [])
       \<and> d + length ops \<le> DRAIN_BUDGET \<and> (ring' = [] \<or> d + length ops = DRAIN_BUDGET)
       \<and> (cache_ok root cache \<longrightarrow> cache_ok root cache'))"

lemma drained_skip:
  assumes "drained root raw node d ring cache a res" and "length item < EVENT_SIZE"
  shows "drained root raw node d (item # ring) cache a res"
proof -
  obtain ring' raws bs cache' a' where res: "res = (ring', raws, bs, cache', a')" by (cases res) auto
  from assms(1) obtain done' ops where h: "ring = done' @ ring'" "agg_run node ops a = (bs, a')"
    "map (op_event \<circ> snd) ops = map Some (full_events done')" "raws = (if raw then full_events done' else [])"
    "d + length ops \<le> DRAIN_BUDGET" "ring' = [] \<or> d + length ops = DRAIN_BUDGET"
    "cache_ok root cache \<longrightarrow> cache_ok root cache'" unfolding drained_def res by auto
  moreover have "full_events (item # done') = full_events done'" using assms(2) by (simp add: full_events_def)
  ultimately show ?thesis
    unfolding drained_def res by (intro case_prodI exI [of _ "item # done'"] exI [of _ ops]) simp
qed

lemma drained_event:
  assumes e: "on_statix_event env root rel (event_of_bytes item) node (fold watch_event_step evs cache) a = (r, c1, a1)"
    and rest: "drained root raw node (d + 1) ring c1 a1 (ring', raws, bs, cache', a')" and size: "\<not> length item < EVENT_SIZE"
  shows "drained root raw node d (item # ring) cache a
    (ring', (if raw then [event_of_bytes item] else []) @ raws, (case r of Some b \<Rightarrow> [b] | None \<Rightarrow> []) @ bs, cache', a')"
proof -
  let ?c0 = "fold watch_event_step evs cache" and ?ev = "event_of_bytes item"
  from rest obtain done' ops where h: "ring = done' @ ring'" "agg_run node ops a1 = (bs, a')"
    "map (op_event \<circ> snd) ops = map Some (full_events done')" "raws = (if raw then full_events done' else [])"
    "d + 1 + length ops \<le> DRAIN_BUDGET" "ring' = [] \<or> d + 1 + length ops = DRAIN_BUDGET"
    "cache_ok root c1 \<longrightarrow> cache_ok root cache'" unfolding drained_def by auto
  note cev = on_statix_event_cache [OF e]
  have "agg_run node ((env, AEvent root rel ?ev ?c0) # ops) a = ((case r of Some b \<Rightarrow> [b] | None \<Rightarrow> []) @ bs, a')"
    using cev h(2) by (auto split: option.splits)
  moreover have "cache_ok root cache \<longrightarrow> cache_ok root cache'"
    using cev h(7) watch_events_ok by blast
  moreover have "full_events (item # done') = ?ev # full_events done'" using size by (simp add: full_events_def)
  ultimately show ?thesis
    using h unfolding drained_def
    by (intro case_prodI exI [of _ "item # done'"] exI [of _ "(env, AEvent root rel ?ev ?c0) # ops"]) auto
qed

lemma drain_ring_drained:
  "d \<le> DRAIN_BUDGET \<Longrightarrow> drained root raw node d ring cache a (drain_ring inp root raw node d ring cache a)"
proof (induction ring arbitrary: d cache a)
  case Nil
  then show ?case by (auto simp: drained_def full_events_def intro!: exI [of _ "[]"])
next
  case (Cons item ring)
  consider "DRAIN_BUDGET \<le> d" | "\<not> DRAIN_BUDGET \<le> d" "length item < EVENT_SIZE"
    | "\<not> DRAIN_BUDGET \<le> d" "\<not> length item < EVENT_SIZE" by blast
  then show ?case
  proof cases
    case 1
    with Cons.prems show ?thesis by (auto simp: drained_def full_events_def intro!: exI [of _ "[]"])
  next
    case 2
    with drained_skip [OF Cons.IH [OF Cons.prems]] show ?thesis by simp
  next
    case 3
    let ?ev = "event_of_bytes item" and ?i = "inp d"
    obtain r c1 a1 where e: "on_statix_event (ei_env ?i) root (cgroup_path_from_pid (ev_pid ?ev) (ei_proc ?i (ev_pid ?ev))) ?ev node
        (fold watch_event_step (ei_watch ?i) cache) a = (r, c1, a1)" by (metis prod_cases3)
    obtain ring' raws bs cache' a' where dr: "drain_ring inp root raw node (d + 1) ring c1 a1 = (ring', raws, bs, cache', a')"
      by (metis prod_cases5)
    have "drained root raw node (d + 1) ring c1 a1 (ring', raws, bs, cache', a')"
      using Cons.IH [of "d + 1" c1 a1] 3(1) unfolding dr by simp
    from drained_event [OF e this 3(2)] 3 e dr show ?thesis by (simp add: Let_def)
  qed
qed

lemma drain_ring_run:
  assumes "drain_ring inp root raw node d ring cache a = (ring', raws, bs, cache', a')" and "d \<le> DRAIN_BUDGET"
  shows "\<exists>done ops. ring = done @ ring' \<and> agg_run node ops a = (bs, a')
     \<and> map (op_event \<circ> snd) ops = map (Some \<circ> event_of_bytes) (filter (\<lambda>i. EVENT_SIZE \<le> length i) done)
     \<and> raws = (if raw then map event_of_bytes (filter (\<lambda>i. EVENT_SIZE \<le> length i) done) else [])
     \<and> d + length ops \<le> DRAIN_BUDGET \<and> (ring' = [] \<or> d + length ops = DRAIN_BUDGET)
     \<and> (cache_ok root cache \<longrightarrow> cache_ok root cache')"
  using drain_ring_drained [OF assms(2), of root raw node ring cache a inp] unfolding assms(1) drained_def full_events_def
  by (simp add: comp_def)

section \<open>CPU accounting of the loop\<close>

definition cpu_rows :: "u64 \<Rightarrow> BatchPayload list \<Rightarrow> nat" where
  "cpu_rows cid bs = sum_list (map (unat \<circ> wr_cpu_usage_usec) (rows_of cid bs))"

lemma cpu_rows_append [simp]: "cpu_rows cid (xs @ ys) = cpu_rows cid xs + cpu_rows cid ys"
  by (simp add: cpu_rows_def)

lemma cpu_rows_Nil [simp]: "cpu_rows cid [] = 0"
  by (simp add: cpu_rows_def rows_of_def)

text \<open>The window being filled holds no CPU time: every tick is followed by a flush.\<close>

definition loop_ok :: "pathbuf \<Rightarrow> u64 \<Rightarrow> agent_loop \<Rightarrow> bool" where
  "loop_ok root cid st \<longleftrightarrow> cache_ok root (al_cache st) \<and> active_len (al_agg st) < DEFAULT_MAX_KEYS
     \<and> (\<exists>cur. window_rep (al_agg st) cur \<and> total_cpu cid cur = 0)"

lemma run_cpu_rows:
  assumes "agg_run node ops a = (bs, a')" and "window_rep a os" and "active_len a < DEFAULT_MAX_KEYS"
    and "total_cpu cid os + total_cpu cid (observations ops) < 2 ^ 64"
  obtains cur where "window_rep a' cur" and "active_len a' < DEFAULT_MAX_KEYS"
    and "cpu_rows cid bs + total_cpu cid cur = total_cpu cid os + total_cpu cid (observations ops)"
proof -
  obtain wins cur where w: "concat wins @ cur = os @ observations ops" "list_all2 (report node) wins bs"
    "window_rep a' cur" "active_len a' < DEFAULT_MAX_KEYS"
    using agg_run_rep [OF assms(2,3,1)] by auto
  have t: "total_cpu cid (concat wins) + total_cpu cid cur = total_cpu cid os + total_cpu cid (observations ops)"
    using arg_cong [OF w(1), of "total_cpu cid"] by simp
  then have "cpu_rows cid bs = total_cpu cid (concat wins)"
    using reports_cpu [OF w(2), of cid] assms(4) by (simp add: cpu_rows_def)
  with t w(3,4) that show ?thesis by simp
qed

lemma event_ops_no_cpu:
  assumes "map (op_event \<circ> snd) ops = map Some evs"
  shows "total_cpu cid (observations ops) = 0"
  using assms
proof (induction ops arbitrary: evs)
  case (Cons op ops)
  then obtain ev evs' where "evs = ev # evs'" "op_event (snd op) = Some ev" by auto
  with Cons show ?case by (cases "snd op") auto
qed simp

lemma drain_step_ok:
  assumes ok: "loop_ok root cid st"
    and d: "drain_ring inp root raw node 0 (al_ring st) (al_cache st) (al_agg st) = (ring, raws, bs, cache, a)"
  shows "loop_ok root cid (st\<lparr>al_ring := ring, al_raw := r', al_batches := b', al_cache := cache, al_agg := a\<rparr>)
     \<and> cpu_rows cid bs = 0"
proof -
  obtain done' ops where h: "agg_run node ops (al_agg st) = (bs, a)"
    "map (op_event \<circ> snd) ops = map (Some \<circ> event_of_bytes) (filter (\<lambda>i. EVENT_SIZE \<le> length i) done')"
    "cache_ok root (al_cache st) \<longrightarrow> cache_ok root cache"
    using drain_ring_run [OF d] by auto
  obtain cur where c: "window_rep (al_agg st) cur" "total_cpu cid cur = 0" "active_len (al_agg st) < DEFAULT_MAX_KEYS"
    using ok by (auto simp: loop_ok_def)
  have z: "total_cpu cid (observations ops) = 0"
    using h(2) event_ops_no_cpu [of ops] by (metis map_map)
  then obtain cur' where "window_rep a cur'" "active_len a < DEFAULT_MAX_KEYS"
    "cpu_rows cid bs + total_cpu cid cur' = 0"
    using run_cpu_rows [OF h(1) c(1,3), of cid] c(2) by auto
  with ok h(3) show ?thesis by (auto simp: loop_ok_def)
qed

definition tick_cpu :: "u64 \<Rightarrow> flush_in \<Rightarrow> agent_loop \<Rightarrow> u64 option" where
  "tick_cpu cid i st =
     (if fi_task_ok i
      then Option.bind (map_of (map (\<lambda>(c, _, u). (c, u)) (tick_readings (fi_fs i) (al_cache st))) cid) id
      else None)"

lemma tick_cpu_Some: "tick_cpu cid i st = Some c \<Longrightarrow>
    fi_task_ok i \<and> (\<exists>m. (cid, m, Some c) \<in> set (tick_readings (fi_fs i) (al_cache st)))"
  by (auto simp: tick_cpu_def bind_eq_Some_conv dest!: map_of_SomeD split: if_splits)

lemma sample_and_flush_cpu:
  assumes ok: "loop_ok root cid st" and c: "tick_cpu cid i st = Some c"
    and b: "map_of (sa_cpu_baseline (al_sampler st)) cid = Some c0"
  shows "loop_ok root cid (sample_and_flush i node st)
     \<and> map_of (sa_cpu_baseline (al_sampler (sample_and_flush i node st))) cid = Some c
     \<and> (\<exists>bs. al_batches (sample_and_flush i node st) = al_batches st @ bs \<and> cpu_rows cid bs = unat c - unat c0)"
proof -
  let ?rs = "tick_readings (fi_fs i) (al_cache st)"
  let ?bl = "filter (\<lambda>(c, _). c \<in> set (map fst ?rs)) (sa_cpu_baseline (al_sampler st))"
  obtain m where m: "(cid, m, Some c) \<in> set ?rs" and task: "fi_task_ok i" using tick_cpu_Some [OF c] by blast
  have cok: "cache_ok root (al_cache st)" using ok by (simp add: loop_ok_def)
  have bl: "map_of ?bl cid = Some c0"
    using b m map_of_filter_keys [of "\<lambda>c. c \<in> set (map fst ?rs)" "sa_cpu_baseline (al_sampler st)" cid]
    by (force simp: case_prod_unfold)
  obtain ops bl' where ro: "reading_ops (fi_inp i) 0 ?rs ?bl = (ops, bl')" by (cases "reading_ops (fi_inp i) 0 ?rs ?bl")
  have cpu: "map_of bl' cid = Some c" "total_cpu cid (observations ops) = unat c - unat c0"
    using reading_ops_cpu [OF tick_readings_distinct [OF cok] m, of "fi_inp i" 0 ?bl] bl ro by simp_all
  obtain cur where w: "window_rep (al_agg st) cur" "total_cpu cid cur = 0" "active_len (al_agg st) < DEFAULT_MAX_KEYS"
    using ok by (auto simp: loop_ok_def)
  obtain bs a' where run: "agg_run node (ops @ [(fi_env i, AFlush)]) (al_agg st) = (bs, a')"
    by (cases "agg_run node (ops @ [(fi_env i, AFlush)]) (al_agg st)")
  have lt: "unat c - unat c0 < 2 ^ 64" using unat_u64_bound [of c] by (simp add: less_imp_diff_less)
  obtain cur' where w': "window_rep a' cur'" "active_len a' < DEFAULT_MAX_KEYS"
      "cpu_rows cid bs + total_cpu cid cur' = unat c - unat c0"
    using run_cpu_rows [OF run w(1,3), of cid] w(2) cpu(2) lt by auto
  obtain bs1 a1 r where s: "agg_run node ops (al_agg st) = (bs1, a1)" "flush (fi_env i) node a1 = (r, a')"
      "bs = bs1 @ (case r of None \<Rightarrow> [] | Some b \<Rightarrow> [b])"
    using run by (auto simp: agg_run_append split: prod.splits option.splits)
  obtain cur1 where "window_rep a1 cur1" using agg_run_rep [OF w(1,3) s(1)] by blast
  from flush_rep(1) [OF this s(2)] have nil: "window_rep a' []" .
  with w'(1) have "stats_of cur' = Map.empty" by (simp add: window_rep_def fun_eq_iff)
  then have "cur' = []" by (simp add: stats_of_empty_iff)
  let ?st = "sample_and_flush i node st"
  have "al_cache ?st = al_cache st" "al_agg ?st = a'" "al_batches ?st = al_batches st @ bs"
    "sa_cpu_baseline (al_sampler ?st) = bl'"
    using task ro s by (simp_all add: sample_and_flush_def tick_def Let_def ingest_readings_run split: option.splits)
  with cpu(1) w' \<open>cur' = []\<close> cok show ?thesis by (auto simp: loop_ok_def intro: exI [of _ "[]"])
qed

fun cpu_readings :: "pathbuf \<Rightarrow> bool \<Rightarrow> string \<Rightarrow> u64 \<Rightarrow> loop_input list \<Rightarrow> agent_loop \<Rightarrow> u64 option list" where
  "cpu_readings root raw node cid [] st = []"
| "cpu_readings root raw node cid (inp # inps) st =
     (if al_shutdown st \<noteq> None then []
      else (case inp of FlushTick i \<Rightarrow> [tick_cpu cid i st] | Signal _ i \<Rightarrow> [tick_cpu cid i st] | _ \<Rightarrow> [])
           @ cpu_readings root raw node cid inps (loop_step root raw node inp st))"

lemma loop_run_shutdown: "al_shutdown st \<noteq> None \<Longrightarrow> loop_run root raw node inps st = st"
  by (induction inps) (simp_all add: loop_run_def loop_step_def)

text \<open>A step that reads no counter adds no CPU time.\<close>

lemma loop_step_other:
  assumes ok: "loop_ok root cid st" and "al_shutdown st = None"
    and "\<And>i. inp \<noteq> FlushTick i" "\<And>s i. inp \<noteq> Signal s i"
  shows "loop_ok root cid (loop_step root raw node inp st)
     \<and> al_sampler (loop_step root raw node inp st) = al_sampler st
     \<and> (\<exists>bs. al_batches (loop_step root raw node inp st) = al_batches st @ bs \<and> cpu_rows cid bs = 0)"
proof (cases inp)
  case (Drain i)
  obtain ring raws bs cache a where
    d: "drain_ring i root raw node 0 (al_ring st) (al_cache st) (al_agg st) = (ring, raws, bs, cache, a)"
    by (cases "drain_ring i root raw node 0 (al_ring st) (al_cache st) (al_agg st)") auto
  from drain_step_ok [OF ok d] assms(2) show ?thesis unfolding Drain by (simp add: loop_step_def d)
qed (use assms in \<open>auto simp: loop_step_def loop_ok_def evict_eq remove_cgroups_ok watch_event_step_ok\<close>)

lemma loop_run_cpu:
  assumes "loop_ok root cid st" and "al_shutdown st = None"
    and "map_of (sa_cpu_baseline (al_sampler st)) cid = Some c0"
    and "cpu_readings root raw node cid inps st = map Some cs" and "sorted (map unat (c0 # cs))"
  shows "\<exists>bs. al_batches (loop_run root raw node inps st) = al_batches st @ bs
     \<and> cpu_rows cid bs = unat (last (c0 # cs)) - unat c0"
  using assms
proof (induction inps arbitrary: st c0 cs)
  case Nil
  then show ?case by (simp add: loop_run_def)
next
  case (Cons inp inps)
  let ?st = "loop_step root raw node inp st"
  have run: "loop_run root raw node (inp # inps) st = loop_run root raw node inps ?st" by (simp add: loop_run_def)
  consider i where "inp = FlushTick i" | sig i where "inp = Signal sig i"
    | "\<And>i. inp \<noteq> FlushTick i" "\<And>s i. inp \<noteq> Signal s i" by (cases inp) auto
  then show ?case
  proof cases
    case 3
    obtain bs where other: "loop_ok root cid ?st" "al_sampler ?st = al_sampler st"
        "al_batches ?st = al_batches st @ bs" "cpu_rows cid bs = 0"
      using loop_step_other [OF Cons.prems(1,2) 3] by blast
    have sd: "al_shutdown ?st = None" using Cons.prems(2) 3 by (cases inp) (auto simp: loop_step_def split: prod.splits)
    have "cpu_readings root raw node cid inps ?st = map Some cs"
      using Cons.prems(2,4) 3 by (cases inp) auto
    with Cons.IH [OF other(1) sd _ _ Cons.prems(5)] Cons.prems(3) other(2) obtain bs' where
      "al_batches (loop_run root raw node inps ?st) = al_batches ?st @ bs'"
      "cpu_rows cid bs' = unat (last (c0 # cs)) - unat c0" by auto
    with other(3,4) show ?thesis unfolding run by (intro exI [of _ "bs @ bs'"]) simp
  next
    case (1 i)
    then obtain c cs' where cs: "cs = c # cs'" "tick_cpu cid i st = Some c" "cpu_readings root raw node cid inps ?st = map Some cs'"
      using Cons.prems(2,4) by auto
    note sf = sample_and_flush_cpu [OF Cons.prems(1) cs(2) Cons.prems(3), of node]
    have st: "?st = sample_and_flush i node st" "al_shutdown ?st = None"
      using 1 Cons.prems(2) by (simp_all add: loop_step_def sample_and_flush_def split: prod.splits)
    have "sorted (map unat (c # cs'))" "unat c0 \<le> unat c" using Cons.prems(5) cs(1) by simp_all
    moreover from this have "unat c \<le> unat (last (c # cs'))" by (cases cs' rule: rev_cases) auto
    moreover obtain bs where b: "al_batches ?st = al_batches st @ bs" "cpu_rows cid bs = unat c - unat c0"
      using sf st(1) by auto
    moreover obtain bs' where "al_batches (loop_run root raw node inps ?st) = al_batches ?st @ bs'"
        "cpu_rows cid bs' = unat (last (c # cs')) - unat c"
      using Cons.IH [OF _ st(2) _ cs(3)] sf st(1) \<open>sorted (map unat (c # cs'))\<close> by auto
    ultimately show ?thesis unfolding run cs(1) by (intro exI [of _ "bs @ bs'"]) simp
  next
    case (2 sig i)
    then obtain c cs' where cs: "cs = c # cs'" "tick_cpu cid i st = Some c" "cpu_readings root raw node cid inps ?st = map Some cs'"
      using Cons.prems(2,4) by auto
    note sf = sample_and_flush_cpu [OF Cons.prems(1) cs(2) Cons.prems(3), of node]
    have sd: "al_shutdown ?st \<noteq> None" "al_batches ?st = al_batches (sample_and_flush i node st)"
      using 2 Cons.prems(2) by (simp_all add: loop_step_def)
    then have "cs' = []" using cs(3) by (cases inps) auto
    with sf sd cs(1) show ?thesis unfolding run by (auto simp: loop_run_shutdown)
  qed
qed

lemma loop_start_ok: "loop_ok root cid (loop_start root entries fs prime_ok now)"
proof -
  have "cache_ok root (bootstrap_existing_cgroups root entries cache_empty)"
    by (rule bootstrap_ok [OF cache_ok_empty])
  with new_rep [of now] show ?thesis
    by (auto simp: loop_ok_def loop_start_def Let_def intro!: exI [of _ "[]"])
qed

section \<open>Properties\<close>

text \<open>
  C10: Billed CPU time is what the kernel counted.  Take a cgroup whose counter was read when the
  sampler was primed and at every flush since, in any run of the main loop, with exec events,
  evictions, pod events and early flushes in between.  If the readings do not decrease, the CPU
  microseconds of its rows in all emitted batches add up to exactly the last reading minus the
  primed one: no interval is lost, billed twice, or left behind in a buffer.
\<close>

theorem billed_cpu_is_the_counter_span:
  assumes "map_of (sa_cpu_baseline (al_sampler (loop_start root entries fs prime_ok now))) cid = Some c0"
    and "cpu_readings root raw node cid inps (loop_start root entries fs prime_ok now) = map Some cs"
    and "sorted (map unat (c0 # cs))"
  shows "sum_list (map (unat \<circ> wr_cpu_usage_usec)
        (rows_of cid (al_batches (loop_run root raw node inps (loop_start root entries fs prime_ok now)))))
     = unat (last (c0 # cs)) - unat c0"
proof -
  let ?st = "loop_start root entries fs prime_ok now"
  have z: "al_shutdown ?st = None" "al_batches ?st = []" by (simp_all add: loop_start_def Let_def)
  from loop_run_cpu [OF loop_start_ok z(1) assms] z(2) show ?thesis by (auto simp: cpu_rows_def)
qed

definition cpu_fs :: "nat \<Rightarrow> fs_view" where
  "cpu_fs n = \<lparr>fv_file = (\<lambda>p. if p = [RootDir, Normal ''a'', Normal ''cpu.stat'']
                 then Content (str_bytes (''usage_usec '' @ dec_str n @ [newline] @ [])) else CannotOpen NotFound),
               fv_nlink = (\<lambda>_. Some 2)\<rparr>"

definition sample_flush :: "nat \<Rightarrow> flush_in" where
  "sample_flush n = \<lparr>fi_fs = cpu_fs n, fi_task_ok = True, fi_inp = (\<lambda>_. (sample_env, cache_empty)), fi_env = sample_env\<rparr>"

definition sample_start :: agent_loop where
  "sample_start = loop_start [RootDir] [\<lparr>we_is_dir = True, we_ino = Some 42, we_rel = [Normal ''a'']\<rparr>] (cpu_fs 5) True 0"

lemma cpu_fs_read:
  "n < 2 ^ 64 \<Longrightarrow> read_cpu_usage_usec_at [RootDir, Normal ''a'', Normal ''cpu.stat'']
     (fv_file (cpu_fs n) [RootDir, Normal ''a'', Normal ''cpu.stat'']) = Inr n"
  using read_cpu_usage_dec [of n "[]"] by (simp add: cpu_fs_def)

lemma sample_start_targets: "for_each_sample_target (al_cache sample_start) =
    [(42, [RootDir, Normal ''a'', Normal ''memory.current''], [RootDir, Normal ''a'', Normal ''cpu.stat''],
      [RootDir, Normal ''a'', Normal ''memory.stat''])]"
proof -
  have "al_cache sample_start = register_cgroup_directory [RootDir] 42 [RootDir, Normal ''a''] cache_empty"
    by (simp add: sample_start_def loop_start_def bootstrap_existing_cgroups_def walk_cgroup_def map_filter_simps Let_def)
  moreover have "for_each_sample_target (register_cgroup_directory [RootDir] 42 [RootDir, Normal ''a''] cache_empty) =
    [(42, [RootDir, Normal ''a'', Normal ''memory.current''], [RootDir, Normal ''a'', Normal ''cpu.stat''],
      [RootDir, Normal ''a'', Normal ''memory.stat''])]" by code_simp
  ultimately show ?thesis by simp
qed

lemma cpu_fs_leaf: "parent_is_leaf (cpu_fs n) (p @ [Normal f])" "parent_is_leaf (cpu_fs n) [RootDir, Normal ''a'', Normal f]"
  by (simp_all add: parent_is_leaf_def is_leaf_cgroup_def cpu_fs_def parent_def)

lemma sample_readings:
  assumes "n < 2 ^ 64"
  shows "tick_readings (cpu_fs n) (al_cache sample_start) = [(42, None, Some (word_of_nat n))]"
proof -
  have "fv_file (cpu_fs n) [RootDir, Normal ''a'', Normal ''memory.current''] = CannotOpen NotFound"
    by (simp add: cpu_fs_def)
  then show ?thesis
    using cpu_fs_read [OF assms]
    by (simp add: tick_readings_def sample_start_targets map_filter_simps tick_reading_def cpu_fs_leaf
        read_memory_current_at_def read_once_def Let_def)
qed

theorem billed_cpu_is_the_counter_span_witness:
  "sum_list (map (unat \<circ> wr_cpu_usage_usec)
     (rows_of 42 (al_batches (loop_run [RootDir] False ''n'' [FlushTick (sample_flush 9)] sample_start)))) = 4"
proof -
  have b: "map_of (sa_cpu_baseline (al_sampler sample_start)) 42 = Some 5"
    using cpu_fs_read [of 5] sample_start_targets
    by (simp add: sample_start_def loop_start_def Let_def prime_sampler_def map_filter_simps prime_reading_def
        cpu_fs_leaf Sampler_new_def)
  have sd: "al_shutdown sample_start = None" by (simp add: sample_start_def loop_start_def Let_def)
  have "tick_cpu 42 (sample_flush 9) sample_start = Some 9"
    using sample_readings [of 9] by (simp add: tick_cpu_def sample_flush_def)
  then have r: "cpu_readings [RootDir] False ''n'' 42 [FlushTick (sample_flush 9)] sample_start = map Some [9]"
    using sd by simp
  have "sorted (map unat [5 :: u64, 9])" by simp
  from billed_cpu_is_the_counter_span [OF b [unfolded sample_start_def] r [unfolded sample_start_def] this]
  show ?thesis unfolding sample_start_def by simp
qed

text \<open>
  Draining is bounded and in order.  One wake-up takes a prefix of the ring buffer, skips the
  records too short to be events, and hands every other record of the prefix, in order, to the
  aggregator; it handles at most 256 events and leaves nothing behind unless it handled exactly
  256, so that a burst cannot starve the timers and no event is passed over.
\<close>

theorem drain_is_bounded_and_in_order:
  assumes "drain_ring inp root raw node 0 ring cache a = (ring', raws, bs, cache', a')"
  shows "\<exists>taken ops. ring = taken @ ring' \<and> agg_run node ops a = (bs, a')
     \<and> map (op_event \<circ> snd) ops = map (Some \<circ> event_of_bytes) (filter (\<lambda>i. 64 \<le> length i) taken)
     \<and> raws = (if raw then map event_of_bytes (filter (\<lambda>i. 64 \<le> length i) taken) else [])
     \<and> length ops \<le> 256 \<and> (ring' = [] \<or> length ops = 256)"
proof -
  have "(0 :: nat) \<le> DRAIN_BUDGET" by simp
  from drain_ring_run [OF assms this] show ?thesis
    unfolding EVENT_SIZE_def DRAIN_BUDGET_def add_0 by blast
qed

definition idle_in :: event_in where
  "idle_in = \<lparr>ei_env = sample_env, ei_proc = (\<lambda>_. CannotOpen NotFound), ei_watch = []\<rparr>"

theorem drain_is_bounded_and_in_order_witness:
  "\<exists>taken. [[1 :: u8, 2]] = taken @ fst (drain_ring (\<lambda>_. idle_in) [RootDir] True ''n'' 0 [[1, 2]] cache_empty (Aggregator_new 0))
     \<and> filter (\<lambda>i. 64 \<le> length i) taken = []"
proof -
  obtain ring' raws bs cache' a' where d: "drain_ring (\<lambda>_. idle_in) [RootDir] True ''n'' 0 [[1, 2]] cache_empty (Aggregator_new 0)
      = (ring', raws, bs, cache', a')" by (cases "drain_ring (\<lambda>_. idle_in) [RootDir] True ''n'' 0 [[1, 2]] cache_empty (Aggregator_new 0)") auto
  then have "raws = []" by (simp add: DRAIN_BUDGET_def EVENT_SIZE_def)
  with drain_is_bounded_and_in_order [OF d] d show ?thesis by auto
qed

end
