(* ===== verification/Agent_Main.thy ===== *)
theory Agent_Main
  imports Pipeline Agent_Loop
begin

text \<open>
  The agent as a process: \<^verbatim>\<open>main\<close> of \<^verbatim>\<open>statix/src/main.rs\<close> with the handles of its background tasks, loading
  the eBPF object (\<^verbatim>\<open>loader.rs\<close>, \<^verbatim>\<open>bpf_memlock.rs\<close>), the verification tool (\<^verbatim>\<open>bin/verify_ebpf.rs\<close>), and the
  start of the pod watcher.  The eBPF library, the Kubernetes client and the system calls are
  parameters whose results are sums.  Theorems: an agent that starts on the disk a crashed one
  left resumes the delivery pipeline with the frames that were on disk; the process runs the
  select loop as long as its tasks live, and panics when one of them has ended.
\<close>

section \<open>Loading the eBPF object\<close>

record ('bpf, 'prog, 'map) aya =
  ay_load :: "bytes \<Rightarrow> string + 'bpf"
  ay_program :: "'bpf \<Rightarrow> string \<Rightarrow> 'prog option"
  ay_tracepoint :: "'prog \<Rightarrow> string + 'prog"
  ay_load_program :: "'prog \<Rightarrow> 'bpf \<Rightarrow> string + 'bpf"
  ay_attach :: "'prog \<Rightarrow> string \<Rightarrow> string \<Rightarrow> 'bpf \<Rightarrow> string + 'bpf"
  ay_map :: "'bpf \<Rightarrow> string \<Rightarrow> 'map option"
  ay_ring_buf :: "'map \<Rightarrow> string + 'map"
  ay_percpu_array :: "'map \<Rightarrow> string + 'map"

text \<open>\<open>rc\<close> is the result of \<^verbatim>\<open>setrlimit\<close>, \<open>os_error\<close> the text of the error it left.\<close>

definition bump_memlock_rlimit :: "int \<Rightarrow> string \<Rightarrow> string + unit" where
  "bump_memlock_rlimit rc os_error = (if rc \<noteq> 0 then Inl os_error else Inr ())"

definition quoted :: "string \<Rightarrow> string" where
  "quoted s = [CHR 0x27] @ s @ [CHR 0x27]"

definition attach_sched_process_exec :: "('bpf, 'prog, 'map) aya \<Rightarrow> 'bpf \<Rightarrow> string + 'bpf" where
  "attach_sched_process_exec lib bpf =
     try_then (ok_or (''BPF program '' @ quoted ''statix_sched_process_exec'' @ '' not found in ELF'')
                (ay_program lib bpf ''statix_sched_process_exec'')) (\<lambda>p.
     try_then (ay_tracepoint lib p) (\<lambda>program.
     try_then (ay_load_program lib program bpf) (\<lambda>bpf1.
     ay_attach lib program ''sched'' ''sched_process_exec'' bpf1)))"

definition load_and_attach ::
  "('bpf, 'prog, 'map) aya \<Rightarrow> (pathbuf \<Rightarrow> string + bytes) \<Rightarrow> string + unit \<Rightarrow> pathbuf \<Rightarrow> string + 'bpf" where
  "load_and_attach lib read_file memlock ebpf_path =
     try_then (case memlock of Inl e \<Rightarrow> Inl (''failed to raise RLIMIT_MEMLOCK for BPF maps: '' @ e) | Inr u \<Rightarrow> Inr u) (\<lambda>_.
     try_then (read_file ebpf_path) (\<lambda>bytes.
     try_then (ay_load lib bytes) (\<lambda>bpf.
     attach_sched_process_exec lib bpf)))"

definition get_events_ring_buf :: "('bpf, 'prog, 'map) aya \<Rightarrow> 'bpf \<Rightarrow> string + 'map" where
  "get_events_ring_buf lib bpf =
     try_then (ok_or (''Ring buffer map '' @ quoted ''EVENTS'' @ '' not found in BPF object'') (ay_map lib bpf ''EVENTS''))
       (ay_ring_buf lib)"

definition take_ring_drops_map :: "('bpf, 'prog, 'map) aya \<Rightarrow> 'bpf \<Rightarrow> string + 'map" where
  "take_ring_drops_map lib bpf =
     try_then (ok_or (''Per-CPU map '' @ quoted ''RING_DROPS'' @ '' not found in BPF object'') (ay_map lib bpf ''RING_DROPS''))
       (ay_percpu_array lib)"

text \<open>The verification tool: the text it prints, or the error it exits with.\<close>

definition verify_run ::
  "('bpf, 'prog, 'map) aya \<Rightarrow> (pathbuf \<Rightarrow> string + bytes) \<Rightarrow> string + unit \<Rightarrow> string list \<Rightarrow> string + string" where
  "verify_run lib read_file memlock args =
     try_then (ok_or ''usage: statix-ebpf-verify <elf-path>'' (if 1 < length args then Some (args ! 1) else None)) (\<lambda>path.
     try_then memlock (\<lambda>_.
     try_then (read_file (path_of_str path)) (\<lambda>bytes.
     try_then (ay_load lib bytes) (\<lambda>_.
     Inr (''kernel verifier accepted '' @ path)))))"

section \<open>The pod watcher\<close>

text \<open>The steps of the Kubernetes library are parameters.\<close>

definition k8s_client ::
  "environ \<Rightarrow> string + 'client \<Rightarrow> (string \<Rightarrow> string + 'kubeconfig) \<Rightarrow> ('kubeconfig \<Rightarrow> string + 'config)
   \<Rightarrow> ('config \<Rightarrow> string + 'client) \<Rightarrow> string + 'client" where
  "k8s_client env try_default read_from from_custom_kubeconfig try_from =
     (case dev_kubeconfig env of
        None \<Rightarrow> try_default
      | Some path \<Rightarrow>
          try_then (read_from path) (\<lambda>kubeconfig.
          try_then (from_custom_kubeconfig kubeconfig) try_from))"

datatype 'client watcher_task = WatchDisabled | WatchFailed string | Watching 'client

definition spawn_k8s_watcher :: "environ \<Rightarrow> string + 'client \<Rightarrow> 'client watcher_task" where
  "spawn_k8s_watcher env client =
     (if \<not> k8s_configured env then WatchDisabled
      else case client of Inr c \<Rightarrow> Watching c | Inl e \<Rightarrow> WatchFailed e)"

section \<open>Start of the agent\<close>

text \<open>What the start reads from outside, in the order it is read.\<close>

record ('bpf, 'prog, 'map, 'client) boot_in =
  bi_header_ok :: "string \<Rightarrow> bool"
  bi_build_ok :: bool
  bi_default_client :: http_client
  bi_euid :: nat
  bi_bundle_dir :: pathbuf
  bi_is_file :: "pathbuf \<Rightarrow> bool"
  bi_cpus :: nat
  bi_no_object :: string
  bi_hostname :: "string option"
  bi_path_of :: "string \<Rightarrow> path"
  bi_renv :: recover_env
  bi_disk :: disk
  bi_metrics :: wal_metrics
  bi_aya :: "('bpf, 'prog, 'map) aya"
  bi_read_file :: "pathbuf \<Rightarrow> string + bytes"
  bi_memlock :: "string + unit"
  bi_async_fd :: "'map \<Rightarrow> string + unit"
  bi_now :: u64
  bi_client :: "string + 'client"
  bi_root :: pathbuf
  bi_entries :: "walk_entry list"
  bi_fs :: fs_view
  bi_prime_ok :: bool
  bi_sigterm_ok :: bool

text \<open>The state at the start of the select loop.\<close>

record 'client booted =
  bt_client :: http_client
  bt_retry :: "(bytes chan \<times> retry_worker) option"
  bt_wal :: "(wal_handle \<times> WalInner) option"
  bt_drainer :: bool
  bt_window_secs :: nat
  bt_node :: string
  bt_raw_events :: bool
  bt_in_k8s :: bool
  bt_watcher :: "'client watcher_task"
  bt_loop :: agent_loop

text \<open>Starting ends with an error, or with a panic if the signal handler cannot be installed.\<close>

datatype boot_error = Bail string | BootPanic string

definition bail :: "string + 'a \<Rightarrow> boot_error + 'a" where
  "bail r = (case r of Inl e \<Rightarrow> Inl (Bail e) | Inr x \<Rightarrow> Inr x)"

definition agent_boot ::
  "(bytes \<Rightarrow> u32) \<Rightarrow> environ \<Rightarrow> ('bpf, 'prog, 'map, 'client) boot_in \<Rightarrow> boot_error + 'client booted" where
  "agent_boot crc32 env i =
     (let client = init_http_client (bi_header_ok i) (bi_build_ok i) (bi_default_client i) env;
          http = var env ''STATIX_INGEST_URL'' \<noteq> None;
          retry = (if http then Some (channel RETRY_QUEUE_CAPACITY, init_retry_worker env) else None)
      in try_then (bail (check_privileges (bi_euid i))) (\<lambda>_.
         try_then (bail (ok_or (bi_no_object i) (resolve_ebpf_path env (bi_bundle_dir i) (bi_is_file i) (bi_cpus i)))) (\<lambda>ebpf_path.
         let window_secs = read_env_u64 env ''STATIX_WINDOW_SECS'' 10;
             node = read_node_name env (bi_hostname i);
             raw_events = (var env ''STATIX_RAW_EVENTS'' = Some ''1'');
             (wal, drainer) = (if http
                               then init_wal crc32 (bi_renv i) (WalConfig_from_env (bi_path_of i) env) (bi_disk i)
                                      (bi_metrics i) (retry \<noteq> None)
                               else (None, False))
         in try_then (bail (load_and_attach (bi_aya i) (bi_read_file i) (bi_memlock i) ebpf_path)) (\<lambda>bpf.
            try_then (bail (take_ring_drops_map (bi_aya i) bpf)) (\<lambda>_.
            try_then (bail (get_events_ring_buf (bi_aya i) bpf)) (\<lambda>ring_buf.
            try_then (bail (bi_async_fd i ring_buf)) (\<lambda>_.
            if bi_sigterm_ok i
            then Inr \<lparr>bt_client = client, bt_retry = retry, bt_wal = wal, bt_drainer = drainer,
                      bt_window_secs = window_secs, bt_node = node, bt_raw_events = raw_events,
                      bt_in_k8s = k8s_configured env, bt_watcher = spawn_k8s_watcher env (bi_client i),
                      bt_loop = loop_start (bi_root i) (bi_entries i) (bi_fs i) (bi_prime_ok i) (bi_now i)\<rparr>
            else Inl (BootPanic ''failed to install SIGTERM handler''))))))))"

section \<open>The process\<close>

text \<open>
  The select loop with its task handles.  \<open>JoinHandle\<close>: the task runs, has ended, or its result
  has been taken by an await that completed.
\<close>

datatype task_end = TaskReturned | TaskPanicked string

datatype join_handle = Running | Ended task_end | Taken

datatype agent_exit = ExitErr string | ExitPanic

record agent_proc =
  ap_loop :: agent_loop
  ap_k8s :: join_handle
  ap_monitor :: join_handle
  ap_watcher_panics :: nat
  ap_monitor_panics :: nat
  ap_exit :: "agent_exit option"

text \<open>
  The first four inputs are branches of the select, the last two the ends of the tasks.  The
  readiness of the ring can fail, which ends the process with an error.
\<close>

datatype proc_input =
    LoopBranch loop_input
  | RingFailed string
  | WatcherBranch
  | MonitorBranch
  | WatcherEnds task_end
  | MonitorEnds task_end

text \<open>
  A second await of a handle whose result has been taken is answered by the runtime: \<open>again\<close> is the
  result, or None for a panic.
\<close>

definition await_handle :: "task_end option \<Rightarrow> join_handle \<Rightarrow> task_end option" where
  "await_handle again h = (case h of Ended r \<Rightarrow> Some r | _ \<Rightarrow> again)"

fun is_panic :: "task_end \<Rightarrow> bool" where
  "is_panic TaskReturned = False"
| "is_panic (TaskPanicked _) = True"

text \<open>
  The branch of the select completes the handle, which takes its result; the body then awaits the
  handle again, counts a panic of the task, and replaces the handle: the watcher is spawned again,
  the monitor replaced by a task that never ends.  What a second await of a completed handle gives is
  \<open>again\<close>: the contract of a future only says that it may panic, and tokio's handle does (\<open>None\<close>).
\<close>

definition watcher_handle :: "'client watcher_task \<Rightarrow> join_handle" where
  "watcher_handle t = (case t of Watching _ \<Rightarrow> Running | _ \<Rightarrow> Ended TaskReturned)"

definition watcher_branch :: "task_end option \<Rightarrow> 'client watcher_task \<Rightarrow> agent_proc \<Rightarrow> agent_proc" where
  "watcher_branch again respawned p =
     (let p1 = p\<lparr>ap_k8s := Taken\<rparr>
      in case await_handle again (ap_k8s p1) of
           None \<Rightarrow> p1\<lparr>ap_exit := Some ExitPanic\<rparr>
         | Some r \<Rightarrow> p1\<lparr>ap_watcher_panics := ap_watcher_panics p1 + (if is_panic r then 1 else 0),
                       ap_k8s := watcher_handle respawned\<rparr>)"

definition monitor_branch :: "task_end option \<Rightarrow> agent_proc \<Rightarrow> agent_proc" where
  "monitor_branch again p =
     (let p1 = p\<lparr>ap_monitor := Taken\<rparr>
      in case await_handle again (ap_monitor p1) of
           None \<Rightarrow> p1\<lparr>ap_exit := Some ExitPanic\<rparr>
         | Some r \<Rightarrow> p1\<lparr>ap_monitor_panics := ap_monitor_panics p1 + (if is_panic r then 1 else 0),
                       ap_monitor := Running\<rparr>)"

definition has_ended :: "join_handle \<Rightarrow> bool" where
  "has_ended h \<longleftrightarrow> (case h of Ended _ \<Rightarrow> True | _ \<Rightarrow> False)"

definition proc_running :: "agent_proc \<Rightarrow> bool" where
  "proc_running p \<longleftrightarrow> ap_exit p = None \<and> al_shutdown (ap_loop p) = None"

text \<open>
  \<open>client\<close> is what the next spawn of the watcher gets from the Kubernetes library.  A branch is
  taken only if its future is ready; an input whose branch is not is skipped.
\<close>

definition proc_step ::
  "task_end option \<Rightarrow> environ \<Rightarrow> pathbuf \<Rightarrow> bool \<Rightarrow> string \<Rightarrow> proc_input \<times> (string + 'client) \<Rightarrow> agent_proc \<Rightarrow> agent_proc" where
  "proc_step again env root raw node inp p =
     (if \<not> proc_running p then p
      else case fst inp of
        LoopBranch i \<Rightarrow> p\<lparr>ap_loop := loop_step root raw node i (ap_loop p)\<rparr>
      | RingFailed e \<Rightarrow> p\<lparr>ap_exit := Some (ExitErr e)\<rparr>
      | WatcherBranch \<Rightarrow>
          if k8s_configured env \<and> has_ended (ap_k8s p) then watcher_branch again (spawn_k8s_watcher env (snd inp)) p else p
      | MonitorBranch \<Rightarrow> if has_ended (ap_monitor p) then monitor_branch again p else p
      | WatcherEnds r \<Rightarrow> if ap_k8s p = Running then p\<lparr>ap_k8s := Ended r\<rparr> else p
      | MonitorEnds r \<Rightarrow> if ap_monitor p = Running then p\<lparr>ap_monitor := Ended r\<rparr> else p)"

definition proc_run ::
  "task_end option \<Rightarrow> environ \<Rightarrow> pathbuf \<Rightarrow> bool \<Rightarrow> string \<Rightarrow> (proc_input \<times> (string + 'client)) list \<Rightarrow> agent_proc \<Rightarrow> agent_proc" where
  "proc_run again env root raw node inps p = fold (proc_step again env root raw node) inps p"

definition proc_start :: "'client booted \<Rightarrow> agent_proc" where
  "proc_start b = \<lparr>ap_loop = bt_loop b, ap_k8s = watcher_handle (bt_watcher b), ap_monitor = Running,
                   ap_watcher_panics = 0, ap_monitor_panics = 0, ap_exit = None\<rparr>"

section \<open>The pipeline after the start\<close>

text \<open>
  The delivery pipeline as the start leaves it; \<open>recovered\<close> records, for the statements, the payloads
  recovered from disk.
\<close>

definition boot_pipeline :: "bytes list \<Rightarrow> 'client booted \<Rightarrow> agent option" where
  "boot_pipeline recovered b =
     (case (bt_retry b, bt_wal b) of
        (Some (tx, worker), Some (wal, inner)) \<Rightarrow>
          Some \<lparr>ag_retry = tx, ag_handle = Some wal, ag_store = inner, ag_writer = WRecv, ag_drainer = DSleep,
                ag_worker = worker, ag_circuit = circuit_init, ag_emitted = recovered, ag_delivered = [],
                ag_rejected = [], ag_dropped = []\<rparr>
      | _ \<Rightarrow> None)"

lemma recover_no_pending: "recover crc32 env cfg d m = Inr w \<Longrightarrow> wi_pending_advance w = None"
  by (auto simp: recover_def empty_inner_def inner_from_recovered_def refresh_gauges_def Let_def
      split: if_splits sum.splits list.splits)

lemma agent_boot_Inr:
  assumes "agent_boot crc32 env i = Inr b" and "var env ''STATIX_INGEST_URL'' \<noteq> None"
    and "init_wal crc32 (bi_renv i) (WalConfig_from_env (bi_path_of i) env) (bi_disk i) (bi_metrics i) True = (wal, drainer)"
  shows "bt_retry b = Some (channel RETRY_QUEUE_CAPACITY, init_retry_worker env)" and "bt_wal b = wal" and "bt_drainer b = drainer"
    and "bt_loop b = loop_start (bi_root i) (bi_entries i) (bi_fs i) (bi_prime_ok i) (bi_now i)"
  using assms(1) assms(2) unfolding agent_boot_def Let_def
  by (auto simp: assms(3) try_then_Inr split: if_split_asm)

text \<open>The branches of the loop among the inputs of the process.\<close>

fun loop_branches :: "(proc_input \<times> 'c) list \<Rightarrow> loop_input list" where
  "loop_branches [] = []"
| "loop_branches ((LoopBranch i, _) # inps) = i # loop_branches inps"
| "loop_branches (_ # inps) = loop_branches inps"

fun ends_or_fails :: "proc_input \<Rightarrow> bool" where
  "ends_or_fails (RingFailed _) = True"
| "ends_or_fails (WatcherEnds _) = True"
| "ends_or_fails (MonitorEnds _) = True"
| "ends_or_fails _ = False"

lemma proc_stopped: "\<not> proc_running p \<Longrightarrow> proc_run again env root raw node inps p = p"
  by (induction inps) (simp_all add: proc_run_def proc_step_def)

lemma loop_stopped: "al_shutdown st \<noteq> None \<Longrightarrow> loop_run root raw node inps st = st"
  by (induction inps) (simp_all add: loop_run_def loop_step_def)

lemma proc_refines_loop:
  assumes "ap_k8s p = Running" and "ap_monitor p = Running" and "ap_exit p = None"
    and "\<forall>(inp, _) \<in> set inps. \<not> ends_or_fails inp"
  shows "proc_run again env root raw node inps p
     = p\<lparr>ap_loop := loop_run root raw node (loop_branches inps) (ap_loop p)\<rparr>"
  using assms
proof (induction inps arbitrary: p)
  case (Cons x inps)
  show ?case
  proof (cases "proc_running p")
    case True
    obtain inp c where x: "x = (inp, c)" by fastforce
    from True Cons.prems show ?thesis
      using Cons.IH [of "proc_step again env root raw node x p"] unfolding x proc_run_def loop_run_def
      by (cases inp) (auto simp: proc_step_def has_ended_def)
  next
    case False
    with Cons.prems(3) show ?thesis
      by (simp add: proc_stopped loop_stopped proc_running_def)
  qed
qed (simp add: proc_run_def loop_run_def)

lemma proc_ended_panics:
  assumes "proc_running p" and "inp = WatcherBranch \<and> k8s_configured env \<and> has_ended (ap_k8s p)
      \<or> inp = MonitorBranch \<and> has_ended (ap_monitor p)"
  shows "ap_exit (proc_run None env root raw node ((inp, c) # inps) p) = Some ExitPanic"
    and "ap_loop (proc_run None env root raw node ((inp, c) # inps) p) = ap_loop p"
proof -
  let ?p = "proc_step None env root raw node (inp, c) p"
  have e: "ap_exit ?p = Some ExitPanic" "ap_loop ?p = ap_loop p"
    using assms by (auto simp: proc_step_def watcher_branch_def monitor_branch_def await_handle_def Let_def)
  then have "proc_run None env root raw node inps ?p = ?p" by (intro proc_stopped) (simp add: proc_running_def)
  with e show "ap_exit (proc_run None env root raw node ((inp, c) # inps) p) = Some ExitPanic"
    and "ap_loop (proc_run None env root raw node ((inp, c) # inps) p) = ap_loop p"
    by (simp_all add: proc_run_def)
qed

lemma agent_boot_loop:
  assumes "agent_boot crc32 env i = Inr b"
  shows "bt_watcher b = spawn_k8s_watcher env (bi_client i)"
    and "bt_loop b = loop_start (bi_root i) (bi_entries i) (bi_fs i) (bi_prime_ok i) (bi_now i)"
  using assms unfolding agent_boot_def Let_def case_prod_unfold by (auto simp: try_then_Inr split: if_split_asm)

section \<open>Properties\<close>

text \<open>
  C8: A restart resumes delivery.  Let an agent die at any moment with a log holding the frames
  \<open>fss\<close>, leaving of each segment file an intact part of any length (and after it any bytes in which no
  frame reads, or no usable header at all), and let another start on that disk, with the HTTP ingest configured, the log enabled in the same
  directory, and the system calls of the recovery succeeding.  Then the new agent starts a
  delivery pipeline whose backlog is exactly the frames that lie completely in the intact parts, in order,
  so that none of them is lost silently in anything it does next; the main loop starts
  with a cache whose targets are consistent.
\<close>

theorem restart_resumes_delivery:
  assumes "wal_rep crc32 w fss k" and "crash_disk crc32 w fss cutoff (bi_disk i)" and "recover_ok (bi_renv i)"
    and "wi_cfg w = WalConfig_from_env (bi_path_of i) env" and "wc_enabled (wi_cfg w)"
    and "var env ''STATIX_INGEST_URL'' \<noteq> None" and "agent_boot crc32 env i = Inr b"
  shows "\<exists>a. boot_pipeline (map df_payload
        (concat (map2 (\<lambda>sm fs. whole_frames crc32 (cutoff (sm_seq sm)) fs) (wi_segments w) fss))) b = Some a
      \<and> agent_start crc32 a \<and> agent_reachable crc32 a \<and> bt_drainer b
      \<and> wal_holds crc32 (ag_store a)
          (concat (map2 (\<lambda>sm fs. whole_frames crc32 (cutoff (sm_seq sm)) fs) (wi_segments w) fss))
      \<and> cache_ok (bi_root i) (al_cache (bt_loop b))"
proof -
  let ?q = "concat (map2 (\<lambda>sm fs. whole_frames crc32 (cutoff (sm_seq sm)) fs) (wi_segments w) fss)"
  let ?m = "(bi_metrics i)\<lparr>m_bytes_current := 0, m_segments_current := 0\<rparr>"
  obtain w' where r: "recover crc32 (bi_renv i) (wi_cfg w) (bi_disk i) ?m = Inr w'" "wal_holds crc32 w' ?q"
    using recover_after_crash [OF assms(1-3), of ?m] by blast
  have wal: "init_wal crc32 (bi_renv i) (WalConfig_from_env (bi_path_of i) env) (bi_disk i) (bi_metrics i) True
      = (Some (\<lparr>wh_enabled = True, wh_append = channel APPEND_CHANNEL_CAPACITY\<rparr>, w'), True)"
    using r(1) assms(4,5) by (simp add: init_wal_def Wal_open_def Let_def)
  note boot = agent_boot_Inr [OF assms(7,6) wal]
  define a where "a = \<lparr>ag_retry = channel RETRY_QUEUE_CAPACITY,
      ag_handle = Some \<lparr>wh_enabled = True, wh_append = channel APPEND_CHANNEL_CAPACITY\<rparr>, ag_store = w', ag_writer = WRecv,
      ag_drainer = DSleep, ag_worker = init_retry_worker env, ag_circuit = circuit_init, ag_emitted = map df_payload ?q,
      ag_delivered = [], ag_rejected = [], ag_dropped = []\<rparr>"
  have "boot_pipeline (map df_payload ?q) b = Some a" "ag_store a = w'"
    by (simp_all add: boot_pipeline_def boot(1,2) a_def)
  moreover have start: "agent_start crc32 a"
    using r(2) recover_no_pending [OF r(1)] by (auto simp: agent_start_def a_def init_retry_worker_def Let_def)
  moreover from start have "agent_reachable crc32 a" by (auto simp: agent_reachable_def)
  moreover have "cache_ok (bi_root i) (al_cache (bt_loop b))"
    by (simp add: boot(4) loop_start_def Let_def bootstrap_ok cache_ok_empty)
  ultimately show ?thesis using boot(3) r(2) by auto
qed

definition sample_boot_environ :: environ where
  "sample_boot_environ = (\<lambda>n. if n = ''STATIX_INGEST_URL'' then Some ''http://gw/v1/ingest''
                              else if n = ''STATIX_EBF_PATH'' then Some ''/probe.o'' else None)"

definition sample_boot_in :: "(unit, unit, unit, unit) boot_in" where
  "sample_boot_in = \<lparr>bi_header_ok = (\<lambda>_. True), bi_build_ok = True,
     bi_default_client = \<lparr>hc_timeout_secs = 0, hc_pool_idle_secs = 0, hc_authorization = None\<rparr>,
     bi_euid = 0, bi_bundle_dir = [], bi_is_file = (\<lambda>_. True), bi_cpus = 4, bi_no_object = ''no object'',
     bi_hostname = None, bi_path_of = (\<lambda>_. [''wal'']), bi_renv = recover_env_ok, bi_disk = torn_disk,
     bi_metrics = no_metrics,
     bi_aya = \<lparr>ay_load = (\<lambda>_. Inr ()), ay_program = (\<lambda>_ _. Some ()), ay_tracepoint = Inr, ay_load_program = (\<lambda>_. Inr),
               ay_attach = (\<lambda>_ _ _. Inr), ay_map = (\<lambda>_ _. Some ()), ay_ring_buf = Inr, ay_percpu_array = Inr\<rparr>,
     bi_read_file = (\<lambda>_. Inr []), bi_memlock = bump_memlock_rlimit 0 [], bi_async_fd = Inr, bi_now = 0, bi_client = Inr (),
     bi_root = [], bi_entries = [], bi_fs = \<lparr>fv_file = (\<lambda>_. Content []), fv_nlink = (\<lambda>_. None)\<rparr>, bi_prime_ok = True,
     bi_sigterm_ok = True\<rparr>"

lemma sample_agent_boots: "\<exists>b. agent_boot crc32 (sample_boot_environ(''KUBERNETES_SERVICE_HOST'' := h)) (sample_boot_in\<lparr>bi_client := client\<rparr>) = Inr b"
  by (simp add: agent_boot_def sample_boot_in_def sample_boot_environ_def Let_def try_then_def bail_def ok_or_def check_privileges_def
      resolve_ebpf_path_def var_def var_with_legacy_def load_and_attach_def attach_sched_process_exec_def bump_memlock_rlimit_def
      take_ring_drops_map_def get_events_ring_buf_def split: prod.split)

lemma sample_boot_plain:
  "sample_boot_environ(''KUBERNETES_SERVICE_HOST'' := None) = sample_boot_environ"
  "sample_boot_in\<lparr>bi_client := Inr ()\<rparr> = sample_boot_in"
  by (auto simp: sample_boot_environ_def sample_boot_in_def)

theorem restart_resumes_delivery_witness:
  "\<exists>b a. agent_boot (\<lambda>_. 7) sample_boot_environ sample_boot_in = Inr b
     \<and> boot_pipeline [[1, 2]] b = Some a \<and> agent_reachable (\<lambda>_. 7) a
     \<and> wal_holds (\<lambda>_. 7) (ag_store a) [\<lparr>df_batch_seq = 0, df_payload = [1, 2]\<rparr>]"
proof -
  define cfg where "cfg = WalConfig_from_env (bi_path_of sample_boot_in) sample_boot_environ"
  have dir: "wc_dir cfg = [''wal'']" and on: "wc_enabled cfg"
    by (simp_all add: cfg_def WalConfig_from_env_def sample_boot_in_def sample_boot_environ_def var_def var_with_legacy_def Let_def)
  have i: "bi_disk sample_boot_in = torn_disk" "bi_renv sample_boot_in = recover_env_ok"
    by (simp_all add: sample_boot_in_def)
  have url: "var sample_boot_environ ''STATIX_INGEST_URL'' \<noteq> None" by (simp add: sample_boot_environ_def var_def var_with_legacy_def)
  obtain b where b: "agent_boot (\<lambda>_. 7) sample_boot_environ sample_boot_in = Inr b"
    using sample_agent_boots [of "\<lambda>_. 7" None "Inr ()"] by (auto simp: sample_boot_plain)
  from restart_resumes_delivery [OF torn_store_rep [OF dir], of "\<lambda>_. 30" sample_boot_in sample_boot_environ b,
      unfolded i torn_store_cfg torn_store_frames, OF torn_disk_crash [OF dir] recover_env_ok_ok cfg_def on url b]
  show ?thesis using b by auto
qed

text \<open>
  C21: The agent survives only as long as its background tasks.  Let the runtime panic when a task
  handle that has given its result is awaited again.  While neither the pod watcher nor the ring
  monitor ends and the ring does not fail, the process runs exactly the select loop.  But once
  one of them has ended, the watcher in a pod, the branch that is meant to restart it ends the process
  with a panic, and nothing that is in the aggregator then is ever flushed: so an agent in a pod
  whose Kubernetes client cannot be built at the start dies before it emits a batch.
\<close>

theorem agent_outlives_no_task:
  "(bt_watcher b = Watching client \<and> (\<forall>(inp, _) \<in> set inps. \<not> ends_or_fails inp) \<longrightarrow>
      ap_exit (proc_run None env root raw node inps (proc_start b)) = None
    \<and> ap_loop (proc_run None env root raw node inps (proc_start b))
        = loop_run root raw node (loop_branches inps) (bt_loop b))
   \<and> (proc_running p \<and> (inp = WatcherBranch \<and> k8s_configured env \<and> has_ended (ap_k8s p)
        \<or> inp = MonitorBranch \<and> has_ended (ap_monitor p)) \<longrightarrow>
      ap_exit (proc_run None env root raw node ((inp, c) # inps) p) = Some ExitPanic
    \<and> ap_loop (proc_run None env root raw node ((inp, c) # inps) p) = ap_loop p)
   \<and> (agent_boot crc32 env i = Inr b' \<and> k8s_configured env \<and> bi_client i = Inl e \<longrightarrow>
      ap_exit (proc_run None env root raw node ((WatcherBranch, c) # inps) (proc_start b')) = Some ExitPanic
    \<and> al_batches (ap_loop (proc_run None env root raw node ((WatcherBranch, c) # inps) (proc_start b'))) = [])"
proof (intro conjI impI; (elim conjE)?)
  assume "bt_watcher b = Watching client" "\<forall>(inp, _) \<in> set inps. \<not> ends_or_fails inp"
  then show "ap_exit (proc_run None env root raw node inps (proc_start b)) = None"
    and "ap_loop (proc_run None env root raw node inps (proc_start b)) = loop_run root raw node (loop_branches inps) (bt_loop b)"
    by (simp_all add: proc_refines_loop proc_start_def watcher_handle_def)
next
  assume "proc_running p" "inp = WatcherBranch \<and> k8s_configured env \<and> has_ended (ap_k8s p)
      \<or> inp = MonitorBranch \<and> has_ended (ap_monitor p)"
  then show "ap_exit (proc_run None env root raw node ((inp, c) # inps) p) = Some ExitPanic"
    and "ap_loop (proc_run None env root raw node ((inp, c) # inps) p) = ap_loop p"
    by (rule proc_ended_panics)+
next
  assume boot: "agent_boot crc32 env i = Inr b'" and k: "k8s_configured env" "bi_client i = Inl e"
  have b: "bt_watcher b' = WatchFailed e" "al_batches (bt_loop b') = []" "al_shutdown (bt_loop b') = None"
    using agent_boot_loop [OF boot] k by (simp_all add: spawn_k8s_watcher_def loop_start_def Let_def)
  then have r: "proc_running (proc_start b')" "has_ended (ap_k8s (proc_start b'))" "ap_loop (proc_start b') = bt_loop b'"
    by (simp_all add: proc_running_def has_ended_def proc_start_def watcher_handle_def)
  show "ap_exit (proc_run None env root raw node ((WatcherBranch, c) # inps) (proc_start b')) = Some ExitPanic"
    and "al_batches (ap_loop (proc_run None env root raw node ((WatcherBranch, c) # inps) (proc_start b'))) = []"
    using r k b(2) by (simp_all add: proc_ended_panics)
qed

text \<open>An agent in a pod that cannot build its Kubernetes client.\<close>

definition pod_environ :: environ where
  "pod_environ = sample_boot_environ(''KUBERNETES_SERVICE_HOST'' \<mapsto> ''10.0.0.1'')"

theorem agent_outlives_no_task_witness:
  "\<exists>b. agent_boot (\<lambda>_. 7) pod_environ (sample_boot_in\<lparr>bi_client := Inl ''no CA''\<rparr>) = Inr b
     \<and> ap_exit (proc_run None pod_environ [] False ''n'' [(WatcherBranch, Inr ()), (LoopBranch (RingEvent []), Inr ())]
           (proc_start b)) = Some ExitPanic"
proof -
  have k: "k8s_configured pod_environ" by (simp add: k8s_configured_def pod_environ_def)
  obtain b where b: "agent_boot (\<lambda>_. 7) pod_environ (sample_boot_in\<lparr>bi_client := Inl ''no CA''\<rparr>) = Inr b"
    unfolding pod_environ_def using sample_agent_boots by blast
  let ?i = "sample_boot_in\<lparr>bi_client := Inl ''no CA''\<rparr>"
  have "agent_boot (\<lambda>_. 7) pod_environ ?i = Inr b \<and> k8s_configured pod_environ \<and> bi_client ?i = Inl ''no CA''"
    using b k by simp
  from agent_outlives_no_task [THEN conjunct2, THEN conjunct2, rule_format, OF this]
  show ?thesis using b by blast
qed

end
