(* ===== verification/Ch_Writer.thy ===== *)
theory Ch_Writer
  imports Wire Channel Env "HOL-Library.Sublist"
begin

text \<open>
  The gateway's ClickHouse writer, \<^verbatim>\<open>statix-gateway/src/clickhouse_writer.rs\<close>: a task that takes
  rows off the ingest channel, groups them into batches, inserts each batch with bounded
  retries, and drains the channel when it is closed.  The task is a program counter and the
  steps between two of its awaits; the answers of ClickHouse and of the linger timer are inputs.
\<close>

section \<open>Rows and configuration\<close>

record MetricRow =
  mr_window_start_ns :: u64
  mr_window_end_ns :: u64
  mr_node :: string
  mr_batch_id :: string
  mr_agent_version :: string
  mr_cgroup_id :: u64
  mr_namespace :: "string option"
  mr_pod :: "string option"
  mr_container :: "string option"
  mr_k8s_resolved :: bool
  mr_memory_bytes_max :: u64
  mr_memory_bytes_last :: u64
  mr_exec_count :: u32
  mr_sample_count :: u32
  mr_cpu_usage_usec :: u64
  mr_cpu_request_millicores :: u64
  mr_memory_request_bytes :: u64
  mr_cpu_limit_millicores :: u64
  mr_memory_limit_bytes :: u64

definition from_ingest :: "IngestBatch \<Rightarrow> WorkloadRow \<Rightarrow> MetricRow" where
  "from_ingest batch w =
     \<lparr>mr_window_start_ns = ib_window_start_ns batch, mr_window_end_ns = ib_window_end_ns batch,
      mr_node = ib_node batch, mr_batch_id = ib_batch_id batch, mr_agent_version = ib_agent_version batch,
      mr_cgroup_id = wr_cgroup_id w, mr_namespace = wr_namespace w, mr_pod = wr_pod w,
      mr_container = wr_container w, mr_k8s_resolved = wr_k8s_resolved w,
      mr_memory_bytes_max = wr_memory_bytes_max w, mr_memory_bytes_last = wr_memory_bytes_last w,
      mr_exec_count = wr_exec_count w, mr_sample_count = wr_sample_count w,
      mr_cpu_usage_usec = wr_cpu_usage_usec w, mr_cpu_request_millicores = wr_cpu_request_millicores w,
      mr_memory_request_bytes = wr_memory_request_bytes w, mr_cpu_limit_millicores = wr_cpu_limit_millicores w,
      mr_memory_limit_bytes = wr_memory_limit_bytes w\<rparr>"

definition MIN_CHANNEL_SIZE :: nat where "MIN_CHANNEL_SIZE = 1024"
definition MAX_INSERT_RETRIES :: nat where "MAX_INSERT_RETRIES = 5"
definition INITIAL_BACKOFF_MS :: nat where "INITIAL_BACKOFF_MS = 100"
definition MAX_BACKOFF_MS :: nat where "MAX_BACKOFF_MS = 2000"

definition ingest_channel_capacity :: "environ \<Rightarrow> nat" where
  "ingest_channel_capacity env = max (read_env_usize env ''STATIX_INGEST_CHANNEL_SIZE'' 8192) MIN_CHANNEL_SIZE"

definition read_batch_max :: "environ \<Rightarrow> nat" where
  "read_batch_max env = max 64 (min 16384 (read_env_usize env ''STATIX_CH_BATCH_MAX'' 1024))"

definition read_linger :: "environ \<Rightarrow> nat" where
  "read_linger env = max 1 (min 1000 (read_env_u64 env ''STATIX_CH_LINGER_MS'' 50))"

definition read_insert_timeout :: "environ \<Rightarrow> nat" where
  "read_insert_timeout env = max 1 (min 30 (read_env_u64 env ''STATIX_CH_INSERT_TIMEOUT_SECS'' 3))"

definition rand_jitter_ms :: "nat \<Rightarrow> nat \<Rightarrow> nat" where
  "rand_jitter_ms subsec_nanos base_ms =
     (let span = base_ms * 30 div 100 in if span = 0 then 0 else subsec_nanos mod (span + 1))"

section \<open>The task\<close>

text \<open>
  Waiting for the first row; filling a batch; inserting a batch (attempts made, backoff); the
  same two phases of the final drain; stopped.  The flag of an insertion says whether it belongs
  to the drain, and if so whether it is the last one.
\<close>

datatype after_insert = BackToFill | BackToDrain | ThenStop

datatype ch_pc =
    Starting
  | Receiving
  | Filling "MetricRow list"
  | Inserting "MetricRow list" nat nat after_insert
  | Draining "MetricRow list"
  | Stopped

text \<open>
  The channel, the number of live senders, the health flag, the metrics, and, for the
  statements, the rows inserted and dropped in order.
\<close>

record ch_writer =
  cw_rx :: "MetricRow chan"
  cw_senders :: nat
  cw_healthy :: bool
  cw_pc :: ch_pc
  cw_batch_max :: nat
  cw_rows_total :: nat
  cw_errors_total :: nat
  cw_dropped_total :: nat
  cw_inserted :: "MetricRow list"
  cw_finished :: "MetricRow list"

definition spawn_writer :: "environ \<Rightarrow> ch_writer" where
  "spawn_writer env =
     \<lparr>cw_rx = channel (ingest_channel_capacity env), cw_senders = 1, cw_healthy = False, cw_pc = Starting,
      cw_batch_max = read_batch_max env, cw_rows_total = 0, cw_errors_total = 0, cw_dropped_total = 0,
      cw_inserted = [], cw_finished = []\<rparr>"

definition ping_ready :: "bool \<Rightarrow> ch_writer \<Rightarrow> ch_writer" where
  "ping_ready ok w = w\<lparr>cw_healthy := ok, cw_pc := Receiving\<rparr>"

text \<open>\<^verbatim>\<open>recv_many\<close> takes what is buffered, up to a limit; on an empty buffer it waits while a sender lives.\<close>

definition recv_many :: "nat \<Rightarrow> ch_writer \<Rightarrow> (MetricRow list \<times> ch_writer) option" where
  "recv_many room w =
     (let rows = take room (ch_buf (cw_rx w))
      in if rows = [] \<and> 0 < cw_senders w then None
         else Some (rows, w\<lparr>cw_rx := (cw_rx w)\<lparr>ch_buf := drop room (ch_buf (cw_rx w))\<rparr>\<rparr>))"

text \<open>
  The answers of a step: whether the ping succeeds, whether the linger time is over, and whether
  ClickHouse accepts the insert in time.
\<close>

record ch_in =
  ci_ping :: bool
  ci_linger_over :: bool
  ci_insert_ok :: bool

definition start_insert :: "MetricRow list \<Rightarrow> after_insert \<Rightarrow> ch_writer \<Rightarrow> ch_writer" where
  "start_insert batch k w = w\<lparr>cw_pc := Inserting batch 0 INITIAL_BACKOFF_MS k\<rparr>"

text \<open>When the task ends its receiver is dropped, which closes the channel for the senders.\<close>

definition stop_task :: "ch_writer \<Rightarrow> ch_writer" where
  "stop_task w = w\<lparr>cw_pc := Stopped, cw_rx := (cw_rx w)\<lparr>ch_closed := True\<rparr>\<rparr>"

fun resume :: "after_insert \<Rightarrow> ch_writer \<Rightarrow> ch_writer" where
  "resume BackToFill w = w\<lparr>cw_pc := Receiving\<rparr>"
| "resume BackToDrain w = w\<lparr>cw_pc := Draining []\<rparr>"
| "resume ThenStop w = stop_task w"

text \<open>One pass of the retry loop of \<^verbatim>\<open>flush_with_retry\<close>.\<close>

definition insert_attempt :: "bool \<Rightarrow> MetricRow list \<Rightarrow> nat \<Rightarrow> nat \<Rightarrow> after_insert \<Rightarrow> ch_writer \<Rightarrow> ch_writer" where
  "insert_attempt ok batch attempt backoff_ms k w =
     (if ok
      then resume k (w\<lparr>cw_healthy := True, cw_rows_total := cw_rows_total w + length batch,
                       cw_inserted := cw_inserted w @ batch, cw_finished := cw_finished w @ batch\<rparr>)
      else
        let w1 = w\<lparr>cw_healthy := False, cw_errors_total := cw_errors_total w + 1\<rparr>
        in if MAX_INSERT_RETRIES \<le> attempt + 1
           then resume k (w1\<lparr>cw_dropped_total := cw_dropped_total w1 + length batch,
                              cw_finished := cw_finished w1 @ batch\<rparr>)
           else w1\<lparr>cw_pc := Inserting batch (attempt + 1) (min (backoff_ms * 2) MAX_BACKOFF_MS) k\<rparr>)"

text \<open>One step of the task; \<open>None\<close> means that it waits, or has stopped.\<close>

definition ch_step :: "ch_in \<Rightarrow> ch_writer \<Rightarrow> ch_writer option" where
  "ch_step i w =
     (case cw_pc w of
        Starting \<Rightarrow> Some (ping_ready (ci_ping i) w)
      | Receiving \<Rightarrow>
          (case recv_many 1 w of
             None \<Rightarrow> None
           | Some (rows, w1) \<Rightarrow> Some (w1\<lparr>cw_pc := if rows = [] then Draining [] else Filling rows\<rparr>))
      | Filling batch \<Rightarrow>
          if cw_batch_max w \<le> length batch \<or> ci_linger_over i then Some (start_insert batch BackToFill w)
          else (case recv_many (cw_batch_max w - length batch) w of
                  None \<Rightarrow> None
                | Some (rows, w1) \<Rightarrow>
                    Some (if rows = [] then start_insert batch BackToFill w1
                          else w1\<lparr>cw_pc := Filling (batch @ rows)\<rparr>))
      | Inserting batch attempt backoff_ms k \<Rightarrow> Some (insert_attempt (ci_insert_ok i) batch attempt backoff_ms k w)
      | Draining batch \<Rightarrow>
          if cw_batch_max w \<le> length batch then Some (start_insert batch BackToDrain w)
          else (case recv_many (cw_batch_max w - length batch) w of
                  None \<Rightarrow> None
                | Some (rows, w1) \<Rightarrow>
                    if rows = []
                    then Some (if batch = [] then stop_task w1 else start_insert batch ThenStop w1)
                    else if cw_batch_max w \<le> length (batch @ rows) then Some (start_insert (batch @ rows) BackToDrain w1)
                    else Some (w1\<lparr>cw_pc := Draining (batch @ rows)\<rparr>))
      | Stopped \<Rightarrow> None)"

section \<open>Accounting\<close>

fun in_hand :: "ch_pc \<Rightarrow> MetricRow list" where
  "in_hand (Filling b) = b"
| "in_hand (Inserting b _ _ _) = b"
| "in_hand (Draining b) = b"
| "in_hand _ = []"

text \<open>The phases after the channel was found closed, and those after the last receive.\<close>

fun in_drain :: "ch_pc \<Rightarrow> bool" where
  "in_drain (Draining _) = True"
| "in_drain (Inserting _ _ _ k) = (k \<noteq> BackToFill)"
| "in_drain Stopped = True"
| "in_drain _ = False"

fun at_end :: "ch_pc \<Rightarrow> bool" where
  "at_end (Inserting _ _ _ k) = (k = ThenStop)"
| "at_end Stopped = True"
| "at_end _ = False"

fun pc_ok :: "nat \<Rightarrow> ch_pc \<Rightarrow> bool" where
  "pc_ok m (Filling b) = (b \<noteq> [] \<and> length b \<le> m)"
| "pc_ok m (Inserting b n t k) = (b \<noteq> [] \<and> length b \<le> m \<and> n < MAX_INSERT_RETRIES \<and> t \<le> MAX_BACKOFF_MS)"
| "pc_ok m (Draining b) = (length b < m)"
| "pc_ok m _ = True"

definition ch_ok :: "ch_writer \<Rightarrow> bool" where
  "ch_ok w \<longleftrightarrow>
     0 < cw_batch_max w
     \<and> pc_ok (cw_batch_max w) (cw_pc w)
     \<and> cw_rows_total w = length (cw_inserted w)
     \<and> cw_rows_total w + cw_dropped_total w = length (cw_finished w)
     \<and> subseq (cw_inserted w) (cw_finished w)
     \<and> (in_drain (cw_pc w) \<longrightarrow> cw_senders w = 0) \<and> (at_end (cw_pc w) \<longrightarrow> ch_buf (cw_rx w) = [])
     \<and> (ch_closed (cw_rx w) \<longleftrightarrow> cw_pc w = Stopped)"

lemma read_batch_max_bounds: "64 \<le> read_batch_max env" "read_batch_max env \<le> 16384"
  by (simp_all add: read_batch_max_def)

lemma spawn_writer_ok: "ch_ok (spawn_writer env)"
  using read_batch_max_bounds(1) [of env] by (simp add: ch_ok_def spawn_writer_def channel_def)

lemma recv_many_Some:
  "recv_many room w = Some (rows, w') \<longleftrightarrow>
     rows = take room (ch_buf (cw_rx w)) \<and> (rows = [] \<longrightarrow> cw_senders w = 0)
     \<and> w' = w\<lparr>cw_rx := (cw_rx w)\<lparr>ch_buf := drop room (ch_buf (cw_rx w))\<rparr>\<rparr>"
  by (auto simp: recv_many_def Let_def)

lemma insert_attempt_ok:
  assumes "ch_ok w" and "cw_pc w = Inserting b n t k"
  shows "ch_ok (insert_attempt ok b n t k w)"
  using assms list_emb_append_mono [of "(=)" "cw_inserted w" "cw_finished w" b b]
  by (cases k)
     (auto simp: ch_ok_def insert_attempt_def stop_task_def Let_def MAX_BACKOFF_MS_def intro: list_emb_append2 subseq_rev_drop_many)

lemma ch_step_ok: "ch_step i w = Some w' \<Longrightarrow> ch_ok w \<Longrightarrow> ch_ok w'"
proof (cases "cw_pc w")
  case (Inserting b n t k)
  assume "ch_step i w = Some w'" "ch_ok w"
  then show ?thesis using Inserting insert_attempt_ok by (auto simp: ch_step_def)
qed (auto simp: ch_step_def ch_ok_def ping_ready_def start_insert_def stop_task_def recv_many_Some MAX_INSERT_RETRIES_def
       MAX_BACKOFF_MS_def INITIAL_BACKOFF_MS_def split: option.splits if_splits)

text \<open>A step moves rows from the buffer through the batch to the finished rows, in order.\<close>

definition flow :: "ch_writer \<Rightarrow> MetricRow list" where
  "flow w = cw_finished w @ in_hand (cw_pc w) @ ch_buf (cw_rx w)"

lemma resume_fields [simp]:
  "in_hand (cw_pc (resume k w)) = []" "cw_finished (resume k w) = cw_finished w"
  "ch_buf (cw_rx (resume k w)) = ch_buf (cw_rx w)" "cw_senders (resume k w) = cw_senders w"
  "cw_batch_max (resume k w) = cw_batch_max w" "ch_cap (cw_rx (resume k w)) = ch_cap (cw_rx w)"
  by (cases k; simp add: stop_task_def)+

lemma ch_step_flow: "ch_step i w = Some w' \<Longrightarrow> flow w' = flow w"
  by (cases "cw_pc w")
     (auto simp: ch_step_def flow_def ping_ready_def start_insert_def stop_task_def recv_many_Some insert_attempt_def Let_def
        split: option.splits if_splits)

lemma ch_step_senders: "ch_step i w = Some w' \<Longrightarrow> cw_senders w' = cw_senders w \<and> cw_batch_max w' = cw_batch_max w
    \<and> ch_cap (cw_rx w') = ch_cap (cw_rx w)"
  by (cases "cw_pc w")
     (auto simp: ch_step_def ping_ready_def start_insert_def stop_task_def recv_many_Some insert_attempt_def Let_def
        split: option.splits if_splits)

section \<open>Termination of the drain\<close>

fun ch_weight :: "ch_pc \<Rightarrow> nat" where
  "ch_weight Starting = 9"
| "ch_weight Receiving = 8"
| "ch_weight (Filling _) = 14"
| "ch_weight (Inserting _ n _ BackToFill) = 13 - n"
| "ch_weight (Inserting _ n _ BackToDrain) = 13 - n"
| "ch_weight (Inserting _ n _ ThenStop) = 5 - n"
| "ch_weight (Draining _) = 7"
| "ch_weight Stopped = 0"

definition drain_measure :: "ch_writer \<Rightarrow> nat" where
  "drain_measure w = 8 * length (ch_buf (cw_rx w)) + ch_weight (cw_pc w)"

lemma drain_progress:
  assumes "ch_ok w" and "cw_senders w = 0" and "cw_pc w \<noteq> Stopped"
  shows "\<exists>w'. ch_step i w = Some w' \<and> drain_measure w' < drain_measure w"
proof (cases "cw_pc w")
  case (Inserting b n t k)
  then show ?thesis
    using assms by (cases k)
      (auto simp: ch_step_def drain_measure_def insert_attempt_def stop_task_def Let_def ch_ok_def MAX_INSERT_RETRIES_def)
next
  case (Draining b)
  show ?thesis
  proof (cases "ch_buf (cw_rx w)")
    case Nil
    then show ?thesis
      using assms Draining by (auto simp: ch_step_def drain_measure_def recv_many_def start_insert_def stop_task_def Let_def ch_ok_def)
  next
    case (Cons x xs)
    have "length b < cw_batch_max w" using assms(1) Draining by (simp add: ch_ok_def)
    then obtain m where "cw_batch_max w - length b = Suc m" by (metis Suc_diff_Suc)
    with Cons show ?thesis
      using assms Draining by (auto simp: ch_step_def drain_measure_def recv_many_def start_insert_def stop_task_def Let_def ch_ok_def)
  qed
next
  case (Filling b)
  show ?thesis
  proof (cases "cw_batch_max w \<le> length b \<or> ci_linger_over i \<or> ch_buf (cw_rx w) = []")
    case True
    then show ?thesis
      using assms Filling by (auto simp: ch_step_def drain_measure_def recv_many_def start_insert_def stop_task_def Let_def)
  next
    case False
    then obtain x xs m where "ch_buf (cw_rx w) = x # xs" "cw_batch_max w - length b = Suc m"
      by (metis Suc_diff_Suc list.exhaust not_le)
    with False show ?thesis
      using assms Filling by (auto simp: ch_step_def drain_measure_def recv_many_def start_insert_def stop_task_def Let_def)
  qed
next
  case Receiving
  then show ?thesis
    using assms by (cases "ch_buf (cw_rx w)") (auto simp: ch_step_def drain_measure_def recv_many_def Let_def)
qed (use assms in \<open>auto simp: ch_step_def drain_measure_def ping_ready_def\<close>)

fun ch_run :: "ch_in list \<Rightarrow> ch_writer \<Rightarrow> ch_writer" where
  "ch_run [] w = w"
| "ch_run (i # ins) w = (case ch_step i w of None \<Rightarrow> w | Some w' \<Rightarrow> ch_run ins w')"

lemma ch_run_drains:
  "ch_ok w \<Longrightarrow> cw_senders w = 0 \<Longrightarrow> drain_measure w \<le> length ins \<Longrightarrow>
     cw_pc (ch_run ins w) = Stopped \<and> cw_finished (ch_run ins w) = flow w \<and> ch_ok (ch_run ins w)"
proof (induction ins arbitrary: w)
  case Nil
  then have "cw_pc w = Stopped"
    using drain_progress [of w] by fastforce
  with Nil.prems show ?case by (simp add: ch_ok_def flow_def)
next
  case (Cons i ins)
  show ?case
  proof (cases "cw_pc w = Stopped")
    case True
    with Cons.prems show ?thesis by (simp add: ch_step_def ch_ok_def flow_def)
  next
    case False
    obtain w' where w': "ch_step i w = Some w'" "drain_measure w' < drain_measure w"
      using drain_progress [OF Cons.prems(1,2) False] by blast
    with Cons.IH [of w'] Cons.prems ch_step_ok [OF w'(1)] ch_step_flow [OF w'(1)] ch_step_senders [OF w'(1)]
    show ?thesis by simp
  qed
qed

end
