(* ===== verification/Gateway.thy ===== *)
theory Gateway
  imports Ch_Writer
begin

text \<open>
  The gateway's write path: configuration (\<^verbatim>\<open>config.rs\<close>), the ingest handler
  (\<^verbatim>\<open>routes/ingest.rs\<close>), health and readiness (\<^verbatim>\<open>main.rs\<close>), and the summary query
  (\<^verbatim>\<open>routes/query.rs\<close>), over the writer task of the theory Ch_Writer.
\<close>

section \<open>Configuration\<close>

record Config =
  cf_api_port :: nat
  cf_api_token :: "string option"
  cf_expected_bearer :: "string option"
  cf_clickhouse_url :: string
  cf_clickhouse_user :: string
  cf_clickhouse_password :: string

definition env_string :: "environ \<Rightarrow> string \<Rightarrow> string \<Rightarrow> string" where
  "env_string env name dflt = (case env name of Some s \<Rightarrow> if s \<noteq> [] then s else dflt | None \<Rightarrow> dflt)"

text \<open>\<open>None\<close> is the exit of the process with status 1.\<close>

definition env_api_port :: "environ \<Rightarrow> nat option" where
  "env_api_port env =
     (case var env ''STATIX_API_PORT'' of
        None \<Rightarrow> Some 3000
      | Some s \<Rightarrow> (case parse_u16 s of Some 0 \<Rightarrow> None | Some port \<Rightarrow> Some port | None \<Rightarrow> None))"

definition Config_from_env :: "environ \<Rightarrow> Config option" where
  "Config_from_env env =
     (let api_token = (case var env ''STATIX_API_TOKEN'' of Some s \<Rightarrow> if s \<noteq> [] then Some s else None | None \<Rightarrow> None);
          bearer = map_option (\<lambda>t. ''Bearer '' @ t) api_token
      in map_option (\<lambda>port.
           \<lparr>cf_api_port = port, cf_api_token = api_token, cf_expected_bearer = bearer,
            cf_clickhouse_url = env_string env ''CLICKHOUSE_URL'' ''http://localhost:8123'',
            cf_clickhouse_user = env_string env ''CLICKHOUSE_USER'' ''default'',
            cf_clickhouse_password = (case env ''CLICKHOUSE_PASSWORD'' of Some p \<Rightarrow> p | None \<Rightarrow> [])\<rparr>)
         (env_api_port env))"

section \<open>Errors\<close>

datatype GatewayError =
    PrometheusInstall string
  | Http string
  | TaskJoin string
  | DrainTimeout nat
  | ClickHouse string

definition status_code :: "GatewayError \<Rightarrow> nat" where
  "status_code e = 500"

section \<open>State\<close>

text \<open>
  The shared state of the handlers with the counters they increment.  \<open>gw_accepted\<close> lists, for the
  statements, the rows of the batches that were answered with 200.
\<close>

record gateway =
  gw_writer :: ch_writer
  gw_expected_bearer :: "string option"
  gw_channel_capacity :: nat
  gw_requests :: "(nat \<times> nat) list"
  gw_503_total :: nat
  gw_unhealthy_rejects :: nat
  gw_channel_full :: nat
  gw_accepted :: "MetricRow list"

type_synonym response = "nat \<times> string"

definition MIN_SCHEMA_VERSION :: u32 where "MIN_SCHEMA_VERSION = 2"
definition MAX_SCHEMA_VERSION :: u32 where "MAX_SCHEMA_VERSION = 4"

section \<open>Ingest\<close>

definition record_ingest_metrics :: "nat \<Rightarrow> gateway \<Rightarrow> gateway" where
  "record_ingest_metrics status g =
     g\<lparr>gw_requests := AList.update status
         (Suc (case map_of (gw_requests g) status of Some n \<Rightarrow> n | None \<Rightarrow> 0)) (gw_requests g),
       gw_503_total := (if status = 503 then gw_503_total g + 1 else gw_503_total g)\<rparr>"

text \<open>
  \<^verbatim>\<open>try_reserve_many\<close> reserves all slots or none; the rows are then sent into them.  The channel is
  closed when the writer task has ended and dropped its receiver.  The sends into the reserved
  slots are one step here; on several threads the rows of batches that are sent at the same
  time may interleave in the channel, each batch in its own order.
\<close>

definition ingest_inner :: "IngestBatch \<Rightarrow> gateway \<Rightarrow> response \<times> gateway" where
  "ingest_inner batch g =
     (let w = gw_writer g
      in if ib_schema_version batch < MIN_SCHEMA_VERSION \<or> MAX_SCHEMA_VERSION < ib_schema_version batch
         then ((400, ''Unsupported schema_version='' @ dec_str (unat (ib_schema_version batch))
                     @ ''. Expected 2..=4.''), g)
         else if \<not> cw_healthy w
         then ((503, ''ClickHouse unavailable; retry later.''), g\<lparr>gw_unhealthy_rejects := gw_unhealthy_rejects g + 1\<rparr>)
         else if ib_workloads batch = [] then ((200, []), g)
         else if ch_closed (cw_rx w) then ((503, ''Writer unavailable.''), g)
         else if capacity (cw_rx w) < length (ib_workloads batch)
         then ((503, ''Ingest buffer full. Retry later.''), g\<lparr>gw_channel_full := gw_channel_full g + 1\<rparr>)
         else
           let rows = map (from_ingest batch) (ib_workloads batch)
           in ((200, []), g\<lparr>gw_writer := w\<lparr>cw_rx := (cw_rx w)\<lparr>ch_buf := ch_buf (cw_rx w) @ rows\<rparr>\<rparr>,
                             gw_accepted := gw_accepted g @ rows\<rparr>))"

text \<open>\<open>auth\<close> is the text of the \<^verbatim>\<open>Authorization\<close> header, if there is one and it is visible ASCII.\<close>

definition ingest_handler :: "string option \<Rightarrow> IngestBatch \<Rightarrow> gateway \<Rightarrow> response \<times> gateway" where
  "ingest_handler auth batch g =
     (if (case gw_expected_bearer g of Some expected_bearer \<Rightarrow> auth \<noteq> Some expected_bearer | None \<Rightarrow> False)
      then ((401, []), record_ingest_metrics 401 g)
      else case ingest_inner batch g of
             (resp, g1) \<Rightarrow> (resp, record_ingest_metrics (fst resp) g1))"

section \<open>Health and readiness\<close>

definition READY_CHANNEL_FULL_THRESHOLD_PCT :: nat where
  "READY_CHANNEL_FULL_THRESHOLD_PCT = 80"

definition ingest_channel_over_threshold :: "nat \<Rightarrow> nat \<Rightarrow> nat \<Rightarrow> bool" where
  "ingest_channel_over_threshold remaining slots threshold_pct =
     (if slots = 0 then False
      else let free_pct = min (remaining * 100) (2 ^ 64 - 1) div slots
           in free_pct < 100 - threshold_pct)"

definition health_check :: "gateway \<Rightarrow> nat" where
  "health_check g = (if ch_closed (cw_rx (gw_writer g)) then 503 else 200)"

definition readiness_check :: "gateway \<Rightarrow> nat" where
  "readiness_check g =
     (if ch_closed (cw_rx (gw_writer g)) then 503
      else if \<not> cw_healthy (gw_writer g) then 503
      else if ingest_channel_over_threshold (capacity (cw_rx (gw_writer g))) (gw_channel_capacity g)
                READY_CHANNEL_FULL_THRESHOLD_PCT then 503
      else 200)"

text \<open>The gauge set by the depth sampler, a task that holds a sender of its own.\<close>

definition mpsc_depth :: "gateway \<Rightarrow> nat" where
  "mpsc_depth g = gw_channel_capacity g - capacity (cw_rx (gw_writer g))"

section \<open>Lifetime\<close>

text \<open>
  At startup the writer's own sender is cloned into the depth sampler and into the router's
  state.  At shutdown the router and then the writer's own sender are dropped.
\<close>

definition gateway_start :: "environ \<Rightarrow> Config \<Rightarrow> gateway" where
  "gateway_start env cfg =
     (let w = spawn_writer env
      in \<lparr>gw_writer = w\<lparr>cw_senders := cw_senders w + 2\<rparr>, gw_expected_bearer = cf_expected_bearer cfg,
          gw_channel_capacity = ingest_channel_capacity env, gw_requests = [], gw_503_total = 0,
          gw_unhealthy_rejects = 0, gw_channel_full = 0, gw_accepted = []\<rparr>)"

definition drop_senders :: "nat \<Rightarrow> gateway \<Rightarrow> gateway" where
  "drop_senders n g = g\<lparr>gw_writer := (gw_writer g)\<lparr>cw_senders := cw_senders (gw_writer g) - n\<rparr>\<rparr>"

inductive gw_step :: "gateway \<Rightarrow> gateway \<Rightarrow> bool" where
  request: "1 < cw_senders (gw_writer g) \<Longrightarrow> gw_step g (snd (ingest_handler auth batch g))"
| task: "ch_step i (gw_writer g) = Some w \<Longrightarrow> gw_step g (g\<lparr>gw_writer := w\<rparr>)"
| shutdown: "cw_senders (gw_writer g) = 3 \<Longrightarrow> gw_step g (drop_senders 2 g)"

inductive_cases gw_stepE: "gw_step g g'"

definition gw_reachable :: "environ \<Rightarrow> Config \<Rightarrow> gateway \<Rightarrow> bool" where
  "gw_reachable env cfg g \<longleftrightarrow> gw_step\<^sup>*\<^sup>* (gateway_start env cfg) g"

section \<open>Summary query\<close>

definition cutoff_ns_from_hours :: "u64 \<Rightarrow> u64 \<Rightarrow> u64" where
  "cutoff_ns_from_hours now_ns hours = sat_sub now_ns (sat_mul hours 3600 * 1000000000)"

record WorkloadSummaryRow =
  ws_cgroup_id :: u64
  ws_namespace :: "string option"
  ws_pod :: "string option"
  ws_container :: "string option"
  ws_peak_memory :: u64
  ws_total_execs :: u64
  ws_total_cpu_usec :: u64

text \<open>\<open>query\<close> is ClickHouse's answer to the summary query with the given cutoff.\<close>

definition workloads_summary ::
  "(u64 \<Rightarrow> string + WorkloadSummaryRow list) \<Rightarrow> u64 \<Rightarrow> u64 option \<Rightarrow> nat + WorkloadSummaryRow list" where
  "workloads_summary query now_ns hours_param =
     (let hours = (case hours_param of Some h \<Rightarrow> h | None \<Rightarrow> 24);
          cutoff_ns = cutoff_ns_from_hours now_ns hours
      in case query cutoff_ns of
           Inr rows \<Rightarrow> Inr rows
         | Inl e \<Rightarrow> Inl (status_code (ClickHouse (''hours='' @ dec_str (unat hours) @ '': '' @ e))))"

section \<open>Invariant\<close>

definition gw_ok :: "gateway \<Rightarrow> bool" where
  "gw_ok g \<longleftrightarrow> ch_ok (gw_writer g) \<and> chan_ok (cw_rx (gw_writer g)) \<and> gw_accepted g = flow (gw_writer g)
     \<and> 1 \<le> cw_senders (gw_writer g) \<and> cw_batch_max (gw_writer g) \<le> 16384"

lemma push_rows_ok:
  assumes "gw_ok g" and "length rows \<le> capacity (cw_rx (gw_writer g))"
  shows "gw_ok (g\<lparr>gw_writer := (gw_writer g)\<lparr>cw_rx := (cw_rx (gw_writer g))\<lparr>ch_buf := ch_buf (cw_rx (gw_writer g)) @ rows\<rparr>\<rparr>,
                  gw_accepted := gw_accepted g @ rows\<rparr>)"
proof -
  have "\<not> at_end (cw_pc (gw_writer g))"
    using assms(1) by (cases "cw_pc (gw_writer g)") (auto simp: gw_ok_def ch_ok_def)
  with assms show ?thesis by (auto simp: gw_ok_def ch_ok_def flow_def chan_ok_def capacity_def)
qed

lemma ingest_inner_ok:
  assumes "gw_ok g" and "ingest_inner batch g = (resp, g')"
  shows "gw_ok g'"
proof -
  have same: "gw_ok (g\<lparr>gw_unhealthy_rejects := n\<rparr>)" "gw_ok (g\<lparr>gw_channel_full := n\<rparr>)" for n
    using assms(1) by (simp_all add: gw_ok_def)
  show ?thesis
    using assms same push_rows_ok [OF assms(1), of "map (from_ingest batch) (ib_workloads batch)"]
    unfolding ingest_inner_def Let_def by (auto split: if_split_asm)
qed

lemma record_ingest_metrics_fields [simp]:
  "gw_writer (record_ingest_metrics st g) = gw_writer g" "gw_accepted (record_ingest_metrics st g) = gw_accepted g"
  by (simp_all add: record_ingest_metrics_def)

lemma gw_ok_metrics [simp]: "gw_ok (record_ingest_metrics st g) = gw_ok g"
  by (simp add: gw_ok_def)

lemma ingest_handler_ok: "gw_ok g \<Longrightarrow> gw_ok (snd (ingest_handler auth batch g))"
  by (auto simp: ingest_handler_def dest: ingest_inner_ok split: prod.splits option.splits)

lemma recv_shrinks: "ch_step i w = Some w' \<Longrightarrow> chan_ok (cw_rx w) \<Longrightarrow> chan_ok (cw_rx w')"
  by (cases "cw_pc w")
     (auto simp: ch_step_def chan_ok_def ping_ready_def start_insert_def stop_task_def recv_many_Some insert_attempt_def Let_def
        split: option.splits if_splits)

lemma gw_step_ok: "gw_step g g' \<Longrightarrow> gw_ok g \<Longrightarrow> gw_ok g'"
proof (induction rule: gw_step.induct)
  case (task i g w)
  then show ?case
    using ch_step_ok [OF task(1)] ch_step_flow [OF task(1)] ch_step_senders [OF task(1)] recv_shrinks [OF task(1)]
    by (simp add: gw_ok_def)
next
  case (shutdown g)
  then have "\<not> in_drain (cw_pc (gw_writer g))" by (auto simp: gw_ok_def ch_ok_def)
  with shutdown show ?case by (auto simp: gw_ok_def drop_senders_def ch_ok_def flow_def)
qed (simp add: ingest_handler_ok)

lemma gateway_start_ok: "gw_ok (gateway_start env cfg)"
  using spawn_writer_ok [of env] read_batch_max_bounds(2) [of env]
  by (simp add: gw_ok_def gateway_start_def Let_def ch_ok_def spawn_writer_def flow_def chan_ok_def channel_def)

interpretation gw_sys: step_system "\<lambda>g. g = gateway_start env cfg" gw_step gw_ok for env cfg
  by unfold_locales (simp_all add: gateway_start_ok gw_step_ok)

lemma gw_reachable_ok: "gw_reachable env cfg g \<Longrightarrow> gw_ok g"
  unfolding gw_reachable_def by (rule gw_sys.reach_inv [OF refl])

lemma ingest_handler_cap: "ch_cap (cw_rx (gw_writer (snd (ingest_handler auth batch g)))) = ch_cap (cw_rx (gw_writer g))"
  by (auto simp: ingest_handler_def ingest_inner_def Let_def split: option.splits)

lemma gw_step_cap: "gw_step g g' \<Longrightarrow> ch_cap (cw_rx (gw_writer g')) = ch_cap (cw_rx (gw_writer g))"
  by (erule gw_stepE) (auto simp: ingest_handler_cap drop_senders_def dest: ch_step_senders)

interpretation gw_cap: step_system "\<lambda>g. g = gateway_start env cfg" gw_step
  "\<lambda>g. ch_cap (cw_rx (gw_writer g)) = ingest_channel_capacity env" for env cfg
  by unfold_locales (simp_all add: gateway_start_def spawn_writer_def channel_def gw_step_cap Let_def)

lemma gw_reachable_cap: "gw_reachable env cfg g \<Longrightarrow> ch_cap (cw_rx (gw_writer g)) = ingest_channel_capacity env"
  unfolding gw_reachable_def by (rule gw_cap.reach_inv [OF refl])

lemma ingest_handler_spec:
  "(let status = fst (fst (ingest_handler auth batch g)); g' = snd (ingest_handler auth batch g);
        unauthorised = (\<exists>b. gw_expected_bearer g = Some b \<and> auth \<noteq> Some b);
        supported = (2 \<le> unat (ib_schema_version batch) \<and> unat (ib_schema_version batch) \<le> 4);
        rx = cw_rx (gw_writer g); n = length (ib_workloads batch)
    in status = (if unauthorised then 401 else if \<not> supported then 400
                 else if \<not> cw_healthy (gw_writer g) then 503 else if n = 0 then 200
                 else if ch_closed rx \<or> ch_cap rx < length (ch_buf rx) + n then 503 else 200)
       \<and> gw_writer g' = (gw_writer g)\<lparr>cw_rx := rx\<lparr>ch_buf := ch_buf rx @
            (if status = 200 then map (from_ingest batch) (ib_workloads batch) else [])\<rparr>\<rparr>
       \<and> gw_accepted g' = gw_accepted g @ (if status = 200 then map (from_ingest batch) (ib_workloads batch) else []))"
proof -
  have v: "ib_schema_version batch < MIN_SCHEMA_VERSION \<or> MAX_SCHEMA_VERSION < ib_schema_version batch
      \<longleftrightarrow> \<not> (2 \<le> unat (ib_schema_version batch) \<and> unat (ib_schema_version batch) \<le> 4)"
    by (auto simp: MIN_SCHEMA_VERSION_def MAX_SCHEMA_VERSION_def word_less_nat_alt)
  have c: "ib_workloads batch \<noteq> [] \<Longrightarrow> capacity ch < length (ib_workloads batch)
      \<longleftrightarrow> ch_cap ch < length (ch_buf ch) + length (ib_workloads batch)" for ch :: "MetricRow chan"
    by (cases "ib_workloads batch") (auto simp: capacity_def)
  show ?thesis
    unfolding ingest_handler_def ingest_inner_def v Let_def
    by (cases "ib_workloads batch = []"; cases "gw_expected_bearer g") (simp_all add: c)
qed

section \<open>Properties\<close>

text \<open>
  C11: Ingest is all or nothing.  The status is decided in the order: 401 for a missing or wrong
  bearer token, 400 for a schema version outside 2 to 4, 503 while ClickHouse is unhealthy, 200
  for an empty batch, 503 if the writer is gone or the channel has fewer free slots than the
  batch has rows, 200 otherwise.  Exactly with a 200 the rows of the batch, each with the
  batch's window, node and ID, are queued, in order and together; otherwise nothing is.
\<close>

theorem ingest_is_all_or_nothing:
  "(let status = fst (fst (ingest_handler auth batch g)); g' = snd (ingest_handler auth batch g);
        unauthorised = (\<exists>b. gw_expected_bearer g = Some b \<and> auth \<noteq> Some b);
        supported = (2 \<le> unat (ib_schema_version batch) \<and> unat (ib_schema_version batch) \<le> 4);
        rx = cw_rx (gw_writer g); n = length (ib_workloads batch)
    in status = (if unauthorised then 401 else if \<not> supported then 400
                 else if \<not> cw_healthy (gw_writer g) then 503 else if n = 0 then 200
                 else if ch_closed rx \<or> ch_cap rx < length (ch_buf rx) + n then 503 else 200)
       \<and> gw_writer g' = (gw_writer g)\<lparr>cw_rx := rx\<lparr>ch_buf := ch_buf rx @
            (if status = 200 then map (from_ingest batch) (ib_workloads batch) else [])\<rparr>\<rparr>
       \<and> gw_accepted g' = gw_accepted g @ (if status = 200 then map (from_ingest batch) (ib_workloads batch) else []))"
  by (rule ingest_handler_spec)

text \<open>
  C12: Accepted rows are stored or counted as dropped, in order.  In every state the gateway can
  reach, the rows of all batches answered with 200 are, in the order they arrived: those the
  writer is done with, then those of the batch in hand, then those in the channel.  The rows
  inserted into ClickHouse are a subsequence of the finished ones, the insert counter equals
  their number, and the drop counter the number of the others.
\<close>

theorem accepted_rows_are_accounted:
  assumes "gw_reachable env cfg g"
  shows "gw_accepted g = cw_finished (gw_writer g) @ in_hand (cw_pc (gw_writer g)) @ ch_buf (cw_rx (gw_writer g))
     \<and> subseq (cw_inserted (gw_writer g)) (cw_finished (gw_writer g))
     \<and> cw_rows_total (gw_writer g) = length (cw_inserted (gw_writer g))
     \<and> cw_dropped_total (gw_writer g) = length (cw_finished (gw_writer g)) - length (cw_inserted (gw_writer g))
     \<and> length (ch_buf (cw_rx (gw_writer g))) \<le> ch_cap (cw_rx (gw_writer g))"
  using gw_reachable_ok [OF assms] by (auto simp: gw_ok_def flow_def ch_ok_def chan_ok_def)

definition sample_config :: Config where
  "sample_config = \<lparr>cf_api_port = 3000, cf_api_token = None, cf_expected_bearer = None, cf_clickhouse_url = [],
     cf_clickhouse_user = [], cf_clickhouse_password = []\<rparr>"

definition no_env :: environ where
  "no_env = (\<lambda>_. None)"

definition sample_row :: WorkloadRow where
  "sample_row = \<lparr>wr_cgroup_id = 7, wr_namespace = None, wr_pod = None, wr_container = None, wr_k8s_resolved = False,
     wr_memory_bytes_max = 1, wr_memory_bytes_last = 1, wr_exec_count = 0, wr_sample_count = 1, wr_cpu_usage_usec = 0,
     wr_cpu_request_millicores = 0, wr_memory_request_bytes = 0, wr_cpu_limit_millicores = 0, wr_memory_limit_bytes = 0\<rparr>"

definition sample_batch :: IngestBatch where
  "sample_batch = \<lparr>ib_schema_version = 4, ib_window_start_ns = 0, ib_window_end_ns = 10, ib_node = ''n'',
     ib_batch_id = ''b'', ib_agent_version = ''0.1.0'', ib_workloads = [sample_row]\<rparr>"

text \<open>A gateway that has pinged ClickHouse, and one that has then accepted one batch.\<close>

definition ready_gateway :: gateway where
  "ready_gateway = (let g = gateway_start no_env sample_config in g\<lparr>gw_writer := ping_ready True (gw_writer g)\<rparr>)"

definition sample_gateway :: gateway where
  "sample_gateway = snd (ingest_handler None sample_batch ready_gateway)"

lemma ready_gateway_reachable: "gw_reachable no_env sample_config ready_gateway"
proof -
  have "gw_step (gateway_start no_env sample_config) ready_gateway"
    unfolding ready_gateway_def Let_def
    by (rule gw_step.task [of "\<lparr>ci_ping = True, ci_linger_over = False, ci_insert_ok = True\<rparr>"])
       (simp add: ch_step_def gateway_start_def spawn_writer_def Let_def)
  then show ?thesis unfolding gw_reachable_def by blast
qed

lemma sample_gateway_reachable: "gw_reachable no_env sample_config sample_gateway"
proof -
  have "gw_step ready_gateway sample_gateway"
    unfolding sample_gateway_def
    by (rule gw_step.request) (simp add: ready_gateway_def ping_ready_def gateway_start_def spawn_writer_def Let_def)
  with ready_gateway_reachable show ?thesis unfolding gw_reachable_def by (rule rtranclp.rtrancl_into_rtrancl)
qed

lemma sample_gateway_writer:
  "length (ch_buf (cw_rx (gw_writer sample_gateway))) = 1" "cw_senders (gw_writer sample_gateway) = 3"
  by (simp_all add: sample_gateway_def ready_gateway_def gateway_start_def spawn_writer_def ping_ready_def channel_def ingest_handler_def
      ingest_inner_def sample_config_def sample_batch_def MIN_SCHEMA_VERSION_def MAX_SCHEMA_VERSION_def capacity_def
      ingest_channel_capacity_def MIN_CHANNEL_SIZE_def Let_def)

theorem accepted_rows_are_accounted_witness:
  "gw_accepted sample_gateway = cw_finished (gw_writer sample_gateway) @ in_hand (cw_pc (gw_writer sample_gateway))
     @ ch_buf (cw_rx (gw_writer sample_gateway))"
  using accepted_rows_are_accounted [OF sample_gateway_reachable] by blast

text \<open>
  Batches and retries are bounded.  A batch being filled or inserted has between 1 and
  16384 rows, whatever the environment says, at most five insert attempts are made for it, and
  the wait between two of them is at most two seconds plus 30 percent.
\<close>

theorem inserts_are_bounded:
  assumes "gw_reachable env cfg g"
  shows "(cw_pc (gw_writer g) = Filling b \<longrightarrow> b \<noteq> [] \<and> length b \<le> 16384)
     \<and> (cw_pc (gw_writer g) = Inserting b attempt backoff k \<longrightarrow>
          b \<noteq> [] \<and> length b \<le> 16384 \<and> attempt < 5 \<and> backoff + rand_jitter_ms nanos backoff \<le> 2600)"
proof -
  have ok: "pc_ok (cw_batch_max (gw_writer g)) (cw_pc (gw_writer g))" "cw_batch_max (gw_writer g) \<le> 16384"
    using gw_reachable_ok [OF assms] by (simp_all add: gw_ok_def ch_ok_def)
  have j: "rand_jitter_ms nanos t \<le> t * 30 div 100" for t
    by (simp add: rand_jitter_ms_def Let_def less_Suc_eq_le [symmetric] del: less_Suc_eq_le)
  show ?thesis
  proof (intro conjI impI)
    assume "cw_pc (gw_writer g) = Inserting b attempt backoff k"
    with ok have h: "b \<noteq> []" "length b \<le> 16384" "attempt < 5" "backoff \<le> 2000"
      by (simp_all add: MAX_INSERT_RETRIES_def MAX_BACKOFF_MS_def)
    have "backoff * 30 div 100 \<le> 600" using h(4) by (simp add: div_le_mono [of "backoff * 30" 60000 100, simplified])
    with h j [of backoff] show "b \<noteq> []" "length b \<le> 16384" "attempt < 5" "backoff + rand_jitter_ms nanos backoff \<le> 2600"
      by simp_all
  qed (use ok in auto)
qed

text \<open>Two steps later the row of the sample batch is being inserted.\<close>

definition inserting_gateway :: gateway where
  "inserting_gateway =
     (let i = \<lparr>ci_ping = True, ci_linger_over = True, ci_insert_ok = True\<rparr>
      in sample_gateway\<lparr>gw_writer := the (ch_step i (the (ch_step i (gw_writer sample_gateway))))\<rparr>)"

lemma inserting_gateway_reachable:
  "gw_reachable no_env sample_config inserting_gateway"
  "cw_pc (gw_writer inserting_gateway) = Inserting [from_ingest sample_batch sample_row] 0 100 BackToFill"
proof -
  let ?i = "\<lparr>ci_ping = True, ci_linger_over = True, ci_insert_ok = True\<rparr>"
  have w: "ch_buf (cw_rx (gw_writer sample_gateway)) = [from_ingest sample_batch sample_row]"
    "cw_pc (gw_writer sample_gateway) = Receiving"
    by (simp_all add: sample_gateway_def ready_gateway_def gateway_start_def spawn_writer_def ping_ready_def channel_def ingest_handler_def
        ingest_inner_def sample_batch_def sample_config_def MIN_SCHEMA_VERSION_def MAX_SCHEMA_VERSION_def capacity_def
        ingest_channel_capacity_def MIN_CHANNEL_SIZE_def Let_def)
  obtain w1 where s1: "ch_step ?i (gw_writer sample_gateway) = Some w1" "cw_pc w1 = Filling [from_ingest sample_batch sample_row]"
    using w by (simp add: ch_step_def recv_many_def Let_def)
  obtain w2 where s2: "ch_step ?i w1 = Some w2" "cw_pc w2 = Inserting [from_ingest sample_batch sample_row] 0 100 BackToFill"
    using s1(2) by (simp add: ch_step_def start_insert_def INITIAL_BACKOFF_MS_def)
  have g: "inserting_gateway = (sample_gateway\<lparr>gw_writer := w1\<rparr>)\<lparr>gw_writer := w2\<rparr>"
    using s1(1) s2(1) by (simp add: inserting_gateway_def)
  have "gw_step sample_gateway (sample_gateway\<lparr>gw_writer := w1\<rparr>)" using s1(1) by (rule gw_step.task)
  moreover have "gw_step (sample_gateway\<lparr>gw_writer := w1\<rparr>) inserting_gateway"
    unfolding g by (rule gw_step.task [of ?i]) (simp add: s2(1))
  ultimately show "gw_reachable no_env sample_config inserting_gateway"
    using sample_gateway_reachable unfolding gw_reachable_def by (meson rtranclp.rtrancl_into_rtrancl)
  show "cw_pc (gw_writer inserting_gateway) = Inserting [from_ingest sample_batch sample_row] 0 100 BackToFill"
    using s2(2) by (simp add: g)
qed

theorem inserts_are_bounded_witness:
  "cw_pc (gw_writer inserting_gateway) = Inserting [from_ingest sample_batch sample_row] 0 100 BackToFill
   \<and> 100 + rand_jitter_ms 7 100 \<le> 2600"
  using inserts_are_bounded [OF inserting_gateway_reachable(1), of _ 0 100 BackToFill 7] inserting_gateway_reachable(2) by blast

text \<open>
  C20: The final drain ends and loses nothing.  Once every sender of the channel is gone, the
  writer stops after at most eight steps per buffered row and fourteen more, whatever ClickHouse
  answers, and by then every accepted row has been inserted or counted as dropped.
\<close>

theorem drain_finishes:
  assumes "gw_reachable env cfg g" and "8 * length (ch_buf (cw_rx (gw_writer g))) + 14 \<le> length ins"
  shows "(let w = ch_run ins (gw_writer (drop_senders (cw_senders (gw_writer g)) g))
          in cw_pc w = Stopped \<and> cw_finished w = gw_accepted g
             \<and> cw_rows_total w + cw_dropped_total w = length (gw_accepted g))"
proof -
  let ?w = "gw_writer (drop_senders (cw_senders (gw_writer g)) g)"
  have g: "gw_ok g" by (rule gw_reachable_ok [OF assms(1)])
  then have "ch_ok ?w" "cw_senders ?w = 0" "flow ?w = gw_accepted g"
    by (simp_all add: gw_ok_def ch_ok_def drop_senders_def flow_def)
  moreover have "drain_measure ?w \<le> length ins"
  proof -
    have "ch_weight pc \<le> 14" for pc by (induction pc rule: ch_weight.induct) auto
    from this [of "cw_pc (gw_writer g)"] assms(2) show ?thesis by (simp add: drain_measure_def drop_senders_def)
  qed
  ultimately have r: "cw_pc (ch_run ins ?w) = Stopped" "cw_finished (ch_run ins ?w) = gw_accepted g" "ch_ok (ch_run ins ?w)"
    using ch_run_drains [of ?w ins] by simp_all
  then show ?thesis unfolding Let_def by (simp add: ch_ok_def)
qed

theorem drain_finishes_witness:
  "cw_pc (ch_run (replicate 22 \<lparr>ci_ping = True, ci_linger_over = True, ci_insert_ok = False\<rparr>)
      (gw_writer (drop_senders (cw_senders (gw_writer sample_gateway)) sample_gateway))) = Stopped"
proof -
  have "8 * length (ch_buf (cw_rx (gw_writer sample_gateway))) + 14
      \<le> length (replicate 22 \<lparr>ci_ping = True, ci_linger_over = True, ci_insert_ok = False\<rparr>)"
    by (simp add: sample_gateway_writer)
  from drain_finishes [OF sample_gateway_reachable this] show ?thesis by (simp add: Let_def)
qed

text \<open>
  The depth sampler keeps a sender of the ingest channel for the life of the process: in every
  reachable state, after the shutdown signal too, the channel is open, so the writer is never
  in its final drain.
\<close>

lemma writer_never_stops:
  assumes "gw_reachable env cfg g"
  shows "1 \<le> cw_senders (gw_writer g) \<and> \<not> in_drain (cw_pc (gw_writer g)) \<and> cw_pc (gw_writer g) \<noteq> Stopped
     \<and> health_check g = 200"
  using gw_reachable_ok [OF assms] by (auto simp: gw_ok_def ch_ok_def health_check_def)

definition idle_down :: "gateway \<Rightarrow> bool" where
  "idle_down g \<longleftrightarrow> \<not> cw_healthy (gw_writer g) \<and> cw_pc (gw_writer g) = Receiving
     \<and> ch_buf (cw_rx (gw_writer g)) = [] \<and> 1 \<le> cw_senders (gw_writer g)"

lemma idle_down_step: "gw_step g g' \<Longrightarrow> idle_down g \<Longrightarrow> idle_down g'"
  by (erule gw_stepE)
     (auto simp: idle_down_def ingest_handler_def ingest_inner_def Let_def ch_step_def recv_many_def drop_senders_def
        split: option.splits if_splits)

interpretation idle: step_system idle_down gw_step idle_down
  by unfold_locales (simp_all add: idle_down_step)

text \<open>
  C37: An idle gateway that lost ClickHouse stays down.  The health flag is set by the startup ping
  and by inserts only, and the handler refuses every batch while it is unset: once the writer
  is idle with an empty channel and an unset flag, no sequence of requests and steps sets it
  again; readiness answers 503, and every batch is answered with 401 if its token is wrong, else with 400 if its
  schema version is outside 2 to 4, else with 503, and none of its rows is kept.
\<close>

theorem idle_unhealthy_gateway_stays_down:
  assumes "gw_step\<^sup>*\<^sup>* g g'" and "\<not> cw_healthy (gw_writer g)" and "cw_pc (gw_writer g) = Receiving"
    and "ch_buf (cw_rx (gw_writer g)) = []" and "1 \<le> cw_senders (gw_writer g)"
  shows "\<not> cw_healthy (gw_writer g') \<and> readiness_check g' = 503
     \<and> fst (fst (ingest_handler auth batch g')) =
         (if \<exists>t. gw_expected_bearer g' = Some t \<and> auth \<noteq> Some t then 401
          else if unat (ib_schema_version batch) < 2 \<or> 4 < unat (ib_schema_version batch) then 400
          else 503)
     \<and> gw_accepted (snd (ingest_handler auth batch g')) = gw_accepted g'"
proof -
  have "idle_down g'" using idle.run_inv [OF _ assms(1)] assms(2-) by (simp add: idle_down_def)
  then have "\<not> cw_healthy (gw_writer g')" by (simp add: idle_down_def)
  moreover from this have "readiness_check g' = 503" by (simp add: readiness_check_def)
  ultimately show ?thesis using ingest_handler_spec [of auth batch g'] by (auto simp: Let_def)
qed

definition idle_gateway :: gateway where
  "idle_gateway = (let g = gateway_start no_env sample_config in g\<lparr>gw_writer := ping_ready False (gw_writer g)\<rparr>)"

theorem idle_unhealthy_gateway_stays_down_witness:
  "readiness_check (snd (ingest_handler None sample_batch idle_gateway)) = 503
   \<and> fst (fst (ingest_handler None (sample_batch\<lparr>ib_schema_version := 9\<rparr>) (snd (ingest_handler None sample_batch idle_gateway)))) \<in> {400, 401}"
proof -
  have i: "\<not> cw_healthy (gw_writer idle_gateway)" "cw_pc (gw_writer idle_gateway) = Receiving"
      "ch_buf (cw_rx (gw_writer idle_gateway)) = []" "cw_senders (gw_writer idle_gateway) = 3"
    by (simp_all add: idle_gateway_def Let_def ping_ready_def gateway_start_def spawn_writer_def channel_def)
  then have "gw_step\<^sup>*\<^sup>* idle_gateway (snd (ingest_handler None sample_batch idle_gateway))"
    by (intro r_into_rtranclp gw_step.request) simp
  from idle_unhealthy_gateway_stays_down [OF this i(1,2,3), of None "sample_batch\<lparr>ib_schema_version := 9\<rparr>"] i(4)
  show ?thesis by simp
qed

text \<open>
  Readiness is lost above 80 percent.  For a channel whose slot count times 100 fits 64 bits,
  the readiness threshold is exceeded exactly when more than four fifths of the slots are used.
\<close>

theorem readiness_threshold_exact:
  assumes "remaining \<le> slots" and "slots * 100 < 2 ^ 64" and "0 < slots"
  shows "ingest_channel_over_threshold remaining slots READY_CHANNEL_FULL_THRESHOLD_PCT
     \<longleftrightarrow> 4 * slots < 5 * (slots - remaining)"
proof -
  have "min (remaining * 100) (2 ^ 64 - 1) = remaining * 100" using assms by (simp add: min_def)
  then have "ingest_channel_over_threshold remaining slots READY_CHANNEL_FULL_THRESHOLD_PCT
      \<longleftrightarrow> remaining * 100 div slots < 20"
    using assms(3) by (simp add: ingest_channel_over_threshold_def READY_CHANNEL_FULL_THRESHOLD_PCT_def Let_def)
  also have "\<dots> \<longleftrightarrow> remaining * 100 < 20 * slots" using assms(3) by (simp add: div_less_iff_less_mult)
  finally show ?thesis using assms(1) by auto
qed

theorem readiness_threshold_exact_witness:
  "ingest_channel_over_threshold 1000 8192 READY_CHANNEL_FULL_THRESHOLD_PCT"
  using readiness_threshold_exact [of 1000 8192] by simp

text \<open>
  The lookback of the summary query wraps.  Up to 5124095 hours the cutoff is the current
  time minus the hours, floored at 0; for one hour more the product overflows 64 bits and the
  585-year lookback becomes one of about 25 minutes.
\<close>

theorem summary_cutoff_wraps:
  "(unat hours \<le> 5124095 \<longrightarrow> unat (cutoff_ns_from_hours now hours) = unat now - unat hours * 3600000000000)
   \<and> unat (cutoff_ns_from_hours now 5124096) = unat now - 1526290448384"
proof (intro conjI impI)
  assume h: "unat hours \<le> 5124095"
  have m: "unat (sat_mul hours 3600) = unat hours * 3600" using h by (simp add: unat_sat_mul min_def)
  have "unat (sat_mul hours 3600 * 1000000000) = unat hours * 3600 * 1000000000"
    using h m by (simp add: unat_word_ariths)
  then show "unat (cutoff_ns_from_hours now hours) = unat now - unat hours * 3600000000000"
    by (simp add: cutoff_ns_from_hours_def unat_sat_sub)
next
  have "sat_mul 5124096 3600 * 1000000000 = (1526290448384 :: u64)" by (simp add: sat_mul_def)
  then show "unat (cutoff_ns_from_hours now 5124096) = unat now - 1526290448384"
    by (simp add: cutoff_ns_from_hours_def unat_sat_sub)
qed

theorem summary_cutoff_wraps_witness:
  "unat (cutoff_ns_from_hours 100000000000000 24) = 13600000000000"
  using summary_cutoff_wraps [of 24 100000000000000] by simp

end
