(* ===== verification/Dash_Cache.thy ===== *)
theory Dash_Cache
  imports Statix_Prelude "HOL-Library.AList"
begin

text \<open>
  The response cache and the request cap of the dashboard,
  \<^verbatim>\<open>statix-gateway/src/routes/dashboard/cache.rs\<close>.  An \<^verbatim>\<open>Instant\<close> is a number of nanoseconds of the
  monotonic clock; every operation reads it once, and \<open>elapsed\<close> saturates at zero as in Rust.  The
  hash map is the list of its entries in iteration order.  A poisoned lock is a field of the
  state.  Theorems: a hit is the last body stored under its key and no older than the time to
  live, a pinned body cannot be evicted before that, the size is bounded by the configured one
  or by the number of pinned entries plus one, and the limiter's admissions are bounded in
  every interval.
\<close>

section \<open>Cache\<close>

record Entry =
  en_stored_at :: nat
  en_body :: string
  en_pinned :: bool

record TtlCache =
  tc_inner :: "(string \<times> Entry) list"
  tc_poisoned :: bool
  tc_ttl :: nat
  tc_max_entries :: nat
  tc_hits :: u64
  tc_misses :: u64

definition TtlCache_new :: "nat \<Rightarrow> nat \<Rightarrow> TtlCache" where
  "TtlCache_new ttl max_entries =
     \<lparr>tc_inner = [], tc_poisoned = False, tc_ttl = ttl, tc_max_entries = max max_entries 4,
      tc_hits = 0, tc_misses = 0\<rparr>"

text \<open>\<open>e.stored_at.elapsed() <= ttl\<close>\<close>

definition fresh :: "nat \<Rightarrow> nat \<Rightarrow> Entry \<Rightarrow> bool" where
  "fresh ttl now e \<longleftrightarrow> now - en_stored_at e \<le> ttl"

definition cache_get :: "nat \<Rightarrow> string \<Rightarrow> TtlCache \<Rightarrow> string option \<times> TtlCache" where
  "cache_get now key c =
     (if tc_poisoned c then (None, c)
      else case map_of (tc_inner c) key of
             None \<Rightarrow> (None, c)
           | Some entry \<Rightarrow>
               if fresh (tc_ttl c) now entry
               then (Some (en_body entry), c\<lparr>tc_hits := tc_hits c + 1\<rparr>)
               else (None, c\<lparr>tc_misses := tc_misses c + 1\<rparr>))"

text \<open>The first entry with the least time of storing among the entries that are not pinned.\<close>

fun oldest_unpinned :: "(string \<times> Entry) list \<Rightarrow> (string \<times> nat) option" where
  "oldest_unpinned [] = None"
| "oldest_unpinned ((k, e) # m) =
     (if en_pinned e then oldest_unpinned m
      else case oldest_unpinned m of
             None \<Rightarrow> Some (k, en_stored_at e)
           | Some (k', t) \<Rightarrow> if t < en_stored_at e then Some (k', t) else Some (k, en_stored_at e))"

definition evict_one :: "(string \<times> Entry) list \<Rightarrow> (string \<times> Entry) list" where
  "evict_one m = (case oldest_unpinned m of Some (k, _) \<Rightarrow> AList.delete k m | None \<Rightarrow> m)"

definition retain_live :: "nat \<Rightarrow> nat \<Rightarrow> (string \<times> Entry) list \<Rightarrow> (string \<times> Entry) list" where
  "retain_live ttl now m = filter (\<lambda>(_, e). fresh ttl now e \<or> en_pinned e) m"

text \<open>
  The source reads the clock for each entry it retains and again for the new one; here one reading stands
  for all of them, which the lock held from the first to the last makes nearly equal.
\<close>

definition cache_put :: "nat \<Rightarrow> string \<Rightarrow> string \<Rightarrow> bool \<Rightarrow> TtlCache \<Rightarrow> TtlCache" where
  "cache_put now key body pinned c =
     (if tc_poisoned c then c
      else
        let m = retain_live (tc_ttl c) now (tc_inner c);
            m' = (if tc_max_entries c \<le> length m \<and> map_of m key = None then evict_one m else m)
        in c\<lparr>tc_inner := AList.update key \<lparr>en_stored_at = now, en_body = body, en_pinned = pinned\<rparr> m'\<rparr>)"

section \<open>Rate limiter\<close>

record RateLimiter =
  rl_started :: nat
  rl_count :: nat
  rl_poisoned :: bool
  rl_max_per_window :: nat
  rl_window :: nat

definition RateLimiter_new :: "nat \<Rightarrow> nat \<Rightarrow> nat \<Rightarrow> RateLimiter" where
  "RateLimiter_new now max_per_window window =
     \<lparr>rl_started = now, rl_count = 0, rl_poisoned = False, rl_max_per_window = max max_per_window 1,
      rl_window = window\<rparr>"

text \<open>\<open>count\<close> is below \<open>max_per_window\<close>, a \<^verbatim>\<open>u32\<close>, when it is incremented, so it never wraps.\<close>

definition allow :: "nat \<Rightarrow> RateLimiter \<Rightarrow> bool \<times> RateLimiter" where
  "allow now rl =
     (if rl_poisoned rl then (True, rl)
      else
        let rl' = (if rl_window rl \<le> now - rl_started rl then rl\<lparr>rl_started := now, rl_count := 0\<rparr> else rl)
        in if rl_max_per_window rl' \<le> rl_count rl' then (False, rl')
           else (True, rl'\<lparr>rl_count := rl_count rl' + 1\<rparr>))"

section \<open>Runs\<close>

text \<open>
  Any interleaving of the handlers is, for the cache, a sequence of lookups and stores; for the
  limiter it is a sequence of calls.
\<close>

datatype cache_op = Get nat string | Put nat string string bool

fun cache_apply :: "cache_op \<Rightarrow> TtlCache \<Rightarrow> TtlCache" where
  "cache_apply (Get now key) c = snd (cache_get now key c)"
| "cache_apply (Put now key body pinned) c = cache_put now key body pinned c"

definition cache_run :: "cache_op list \<Rightarrow> TtlCache \<Rightarrow> TtlCache" where
  "cache_run ops c = fold cache_apply ops c"

text \<open>The specification: the last store under a key.\<close>

fun last_put :: "string \<Rightarrow> cache_op list \<Rightarrow> Entry option" where
  "last_put key [] = None"
| "last_put key (Get now k # ops) = last_put key ops"
| "last_put key (Put now k body pinned # ops) =
     (case last_put key ops of
        Some e \<Rightarrow> Some e
      | None \<Rightarrow> if k = key then Some \<lparr>en_stored_at = now, en_body = body, en_pinned = pinned\<rparr> else None)"

fun limiter_run :: "nat list \<Rightarrow> RateLimiter \<Rightarrow> bool list \<times> RateLimiter" where
  "limiter_run [] rl = ([], rl)"
| "limiter_run (t # ts) rl =
     (case allow t rl of (ok, rl1) \<Rightarrow> case limiter_run ts rl1 of (oks, rl2) \<Rightarrow> (ok # oks, rl2))"

definition admitted :: "nat list \<Rightarrow> RateLimiter \<Rightarrow> nat" where
  "admitted ts rl = length (filter id (fst (limiter_run ts rl)))"

section \<open>Lemmas on the cache\<close>

lemma cache_get_fields [simp]:
  "tc_inner (snd (cache_get now key c)) = tc_inner c" "tc_poisoned (snd (cache_get now key c)) = tc_poisoned c"
  "tc_ttl (snd (cache_get now key c)) = tc_ttl c" "tc_max_entries (snd (cache_get now key c)) = tc_max_entries c"
  by (simp_all add: cache_get_def split: option.splits)

lemma cache_put_fields [simp]:
  "tc_poisoned (cache_put now key body pinned c) = tc_poisoned c" "tc_ttl (cache_put now key body pinned c) = tc_ttl c"
  "tc_max_entries (cache_put now key body pinned c) = tc_max_entries c"
  by (simp_all add: cache_put_def Let_def)

lemma oldest_unpinned_in:
  "oldest_unpinned m = Some (k, t) \<Longrightarrow> \<exists>e. (k, e) \<in> set m \<and> \<not> en_pinned e \<and> en_stored_at e = t"
  by (induction m arbitrary: k t rule: oldest_unpinned.induct) (fastforce split: if_splits option.splits prod.splits)+

lemma oldest_unpinned_None: "oldest_unpinned m = None \<longleftrightarrow> (\<forall>(k, e) \<in> set m. en_pinned e)"
  by (induction m rule: oldest_unpinned.induct) (auto split: option.splits)

lemma oldest_unpinned_least:
  "oldest_unpinned m = Some (k, t) \<Longrightarrow> (k', e) \<in> set m \<Longrightarrow> \<not> en_pinned e \<Longrightarrow> t \<le> en_stored_at e"
proof (induction m arbitrary: k t rule: oldest_unpinned.induct)
  case (2 k0 e0 m)
  show ?case
  proof (cases "oldest_unpinned m")
    case None
    with 2(3-5) None [unfolded oldest_unpinned_None] show ?thesis by (auto split: if_splits)
  next
    case (Some kt)
    with 2 show ?thesis by (cases kt) (fastforce split: if_splits)
  qed
qed simp

lemma retain_live_keys: "distinct (map fst m) \<Longrightarrow> distinct (map fst (retain_live ttl now m))"
  by (simp add: retain_live_def distinct_map_filter)

lemma map_of_retain_live:
  assumes "distinct (map fst m)"
  shows "map_of (retain_live ttl now m) k =
    (case map_of m k of Some e \<Rightarrow> if fresh ttl now e \<or> en_pinned e then Some e else None | None \<Rightarrow> None)"
  using assms unfolding retain_live_def
  by (induction m) (auto split: option.splits simp: map_of_eq_None_iff rev_image_eqI)

lemma map_of_evict_one:
  assumes "distinct (map fst m)"
  shows "map_of (evict_one m) k = map_of m k \<or>
    (map_of (evict_one m) k = None \<and> (\<exists>e. map_of m k = Some e \<and> \<not> en_pinned e))"
proof (cases "oldest_unpinned m")
  case (Some kt)
  then obtain k1 t e where o: "oldest_unpinned m = Some (k1, t)" "(k1, e) \<in> set m" "\<not> en_pinned e"
    by (cases kt) (use oldest_unpinned_in in blast)
  then have "map_of m k1 = Some e" using assms by simp
  with o show ?thesis by (cases "k = k1") (auto simp: evict_one_def AList.delete_conv')
qed (simp add: evict_one_def)

lemma evict_one_keys: "distinct (map fst m) \<Longrightarrow> distinct (map fst (evict_one m))"
  by (simp add: evict_one_def AList.distinct_delete split: option.splits prod.splits)

definition ttl_cache_ok :: "TtlCache \<Rightarrow> bool" where
  "ttl_cache_ok c \<longleftrightarrow> distinct (map fst (tc_inner c)) \<and> \<not> tc_poisoned c"

lemma cache_put_lookup:
  assumes "ttl_cache_ok c"
  shows "ttl_cache_ok (cache_put now key body pinned c)"
    and "map_of (tc_inner (cache_put now key body pinned c)) key = Some \<lparr>en_stored_at = now, en_body = body, en_pinned = pinned\<rparr>"
    and "k \<noteq> key \<Longrightarrow> map_of (tc_inner (cache_put now key body pinned c)) k = map_of (tc_inner c) k \<or>
      (map_of (tc_inner (cache_put now key body pinned c)) k = None \<and> (\<exists>e. map_of (tc_inner c) k = Some e \<and> \<not> en_pinned e))"
proof -
  let ?m = "retain_live (tc_ttl c) now (tc_inner c)"
  have d: "distinct (map fst (tc_inner c))" "distinct (map fst ?m)" using assms retain_live_keys by (auto simp: ttl_cache_ok_def)
  then show "ttl_cache_ok (cache_put now key body pinned c)"
    using assms evict_one_keys [OF d(2)] by (simp add: ttl_cache_ok_def cache_put_def Let_def AList.distinct_update)
  show "map_of (tc_inner (cache_put now key body pinned c)) key = Some \<lparr>en_stored_at = now, en_body = body, en_pinned = pinned\<rparr>"
    using assms by (simp add: ttl_cache_ok_def cache_put_def Let_def AList.update_conv')
  show "map_of (tc_inner (cache_put now key body pinned c)) k = map_of (tc_inner c) k \<or>
      (map_of (tc_inner (cache_put now key body pinned c)) k = None \<and> (\<exists>e. map_of (tc_inner c) k = Some e \<and> \<not> en_pinned e))"
    if "k \<noteq> key"
  proof -
    have e: "map_of ?m k = map_of (tc_inner c) k \<or>
        (map_of ?m k = None \<and> (\<exists>e. map_of (tc_inner c) k = Some e \<and> \<not> en_pinned e))"
      unfolding map_of_retain_live [OF d(1)] by (cases "map_of (tc_inner c) k") simp_all
    show ?thesis
      using assms that map_of_evict_one [OF d(2), of k] e
      by (cases "map_of (tc_inner c) k") (auto simp: ttl_cache_ok_def cache_put_def Let_def AList.update_conv')
  qed
qed

section \<open>The contract of a response cache\<close>

text \<open>
  What the handlers rely on: lookups change no content, a body just stored is found, and a store
  under another key can only make an entry disappear.
\<close>

locale response_cache =
  fixes ok :: "'c \<Rightarrow> bool"
    and lookup :: "nat \<Rightarrow> string \<Rightarrow> 'c \<Rightarrow> string option \<times> 'c"
    and store :: "nat \<Rightarrow> string \<Rightarrow> string \<Rightarrow> bool \<Rightarrow> 'c \<Rightarrow> 'c"
  assumes lookup_ok: "ok c \<Longrightarrow> ok (snd (lookup now key c))"
    and store_ok: "ok c \<Longrightarrow> ok (store now key body pinned c)"
    and lookup_pure: "fst (lookup now key (snd (lookup now' key' c))) = fst (lookup now key c)"
    and lookup_store: "ok c \<Longrightarrow> fst (lookup now key (store now key body pinned c)) = Some body"
    and lookup_other: "ok c \<Longrightarrow> key \<noteq> key' \<Longrightarrow>
          fst (lookup now key (store now' key' body pinned c)) \<in> {None, fst (lookup now key c)}"
begin

text \<open>A handler that looks a key up and stores what it computed on a miss answers the next equal request.\<close>

lemma miss_then_store:
  assumes "ok c" and "lookup now key c = (hit, c1)"
  shows "fst (lookup now key (case hit of Some _ \<Rightarrow> c1 | None \<Rightarrow> store now key body pinned c1))
    = Some (case hit of Some b \<Rightarrow> b | None \<Rightarrow> body)"
proof (cases hit)
  case None
  then show ?thesis using lookup_store [OF lookup_ok [OF assms(1)]] assms(2) by (metis option.simps(4) snd_conv)
next
  case (Some b)
  then show ?thesis using lookup_pure [of now key now key c] assms(2) by simp
qed

end

lemma cache_get_content: "tc_inner c = tc_inner c' \<Longrightarrow> tc_poisoned c = tc_poisoned c' \<Longrightarrow> tc_ttl c = tc_ttl c' \<Longrightarrow>
    fst (cache_get now key c) = fst (cache_get now key c')"
  by (simp add: cache_get_def split: option.splits)

interpretation ttl: response_cache ttl_cache_ok cache_get cache_put
proof
  fix c now now' key key' body pinned
  show "ttl_cache_ok c \<Longrightarrow> ttl_cache_ok (snd (cache_get now key c))" by (simp add: ttl_cache_ok_def)
  show "fst (cache_get now key (snd (cache_get now' key' c))) = fst (cache_get now key c)"
    by (rule cache_get_content) simp_all
  assume ok: "ttl_cache_ok c"
  show "ttl_cache_ok (cache_put now key body pinned c)" by (rule cache_put_lookup(1) [OF ok])
  show "fst (cache_get now key (cache_put now key body pinned c)) = Some body"
    using cache_put_lookup(1,2) [OF ok, where now = now and key = key and body = body and pinned = pinned]
    by (simp add: cache_get_def ttl_cache_ok_def fresh_def)
  assume "key \<noteq> key'"
  from cache_put_lookup(3) [OF ok this, where now = now' and body = body and pinned = pinned] ok
  show "fst (cache_get now key (cache_put now' key' body pinned c)) \<in> {None, fst (cache_get now key c)}"
    by (auto simp: cache_get_def ttl_cache_ok_def split: option.splits)
qed

lemma last_put_append:
  "last_put key (ops @ ops') = (case last_put key ops' of Some e \<Rightarrow> Some e | None \<Rightarrow> last_put key ops)"
  by (induction key ops rule: last_put.induct) (auto split: option.splits)

lemma cache_run_snoc: "cache_run (ops @ [op]) c = cache_apply op (cache_run ops c)"
  by (simp add: cache_run_def)

lemma cache_run_fields [simp]:
  "tc_ttl (cache_run ops c) = tc_ttl c" "tc_max_entries (cache_run ops c) = tc_max_entries c"
proof (induction ops rule: rev_induct)
  case (snoc op ops)
  { case 1 from snoc show ?case by (cases op) (simp_all add: cache_run_snoc) }
  { case 2 from snoc show ?case by (cases op) (simp_all add: cache_run_snoc) }
qed (simp_all add: cache_run_def)

text \<open>Simulation: an entry of the cache is the last store under its key; only unpinned ones may be missing.\<close>

lemma cache_run_last_put:
  "ttl_cache_ok (cache_run ops (TtlCache_new ttl n)) \<and>
   (map_of (tc_inner (cache_run ops (TtlCache_new ttl n))) k = last_put k ops \<or>
    map_of (tc_inner (cache_run ops (TtlCache_new ttl n))) k = None \<and> (\<exists>e. last_put k ops = Some e \<and> \<not> en_pinned e))"
proof (induction ops rule: rev_induct)
  case Nil
  show ?case by (simp add: cache_run_def TtlCache_new_def ttl_cache_ok_def)
next
  case (snoc op ops)
  show ?case
  proof (cases op)
    case (Get now key)
    with snoc show ?thesis by (simp add: cache_run_snoc last_put_append ttl_cache_ok_def)
  next
    case (Put now key body pinned)
    note l = cache_put_lookup [OF conjunct1 [OF snoc], where now = now and key = key and body = body and pinned = pinned]
    show ?thesis
    proof (cases "k = key")
      case True
      with Put l show ?thesis by (simp add: cache_run_snoc last_put_append)
    next
      case False
      with Put l(1) l(3) [OF False] snoc show ?thesis by (auto simp: cache_run_snoc last_put_append)
    qed
  qed
qed

section \<open>Lemmas on the limiter\<close>

text \<open>
  While no window ends, the calls share one budget.  Within an interval shorter than the window
  at most one call starts a new one.
\<close>

definition budget :: "RateLimiter \<Rightarrow> nat" where
  "budget rl = rl_max_per_window rl - rl_count rl"

lemma allow_fields [simp]:
  "rl_poisoned (snd (allow t rl)) = rl_poisoned rl" "rl_max_per_window (snd (allow t rl)) = rl_max_per_window rl"
  "rl_window (snd (allow t rl)) = rl_window rl"
  by (simp_all add: allow_def Let_def)

lemma admitted_Nil [simp]: "admitted [] rl = 0"
  by (simp add: admitted_def)

lemma admitted_Cons [simp]:
  "admitted (t # ts) rl = (if fst (allow t rl) then 1 else 0) + admitted ts (snd (allow t rl))"
  by (simp add: admitted_def split: prod.splits)

lemma admitted_in_one_window:
  assumes "\<not> rl_poisoned rl" and "\<forall>t \<in> set ts. t - rl_started rl < rl_window rl"
  shows "admitted ts rl \<le> budget rl"
  using assms
proof (induction ts arbitrary: rl)
  case (Cons t ts)
  have s: "rl_started (snd (allow t rl)) = rl_started rl"
    and b: "budget rl = (if fst (allow t rl) then 1 else 0) + budget (snd (allow t rl))"
    using Cons.prems by (auto simp: allow_def Let_def budget_def)
  show ?case using Cons.IH [of "snd (allow t rl)"] Cons.prems by (simp add: s b)
qed simp

lemma admitted_in_interval:
  assumes "\<not> rl_poisoned rl" and "sorted ts" and "\<forall>t \<in> set ts. a \<le> t \<and> t < a + rl_window rl"
  shows "admitted ts rl \<le> budget rl + rl_max_per_window rl"
  using assms
proof (induction ts arbitrary: rl)
  case (Cons t ts)
  show ?case
  proof (cases "rl_window rl \<le> t - rl_started rl")
    case True
    let ?r = "rl\<lparr>rl_started := t, rl_count := 0\<rparr>"
    have "allow t rl = allow t ?r" using Cons.prems True by (auto simp: allow_def Let_def)
    then have "admitted (t # ts) rl = admitted (t # ts) ?r" by simp
    also have "\<dots> \<le> budget ?r"
      using Cons.prems by (intro admitted_in_one_window) fastforce+
    finally show ?thesis by (simp add: budget_def)
  next
    case False
    have b: "budget rl = (if fst (allow t rl) then 1 else 0) + budget (snd (allow t rl))"
      using Cons.prems False by (auto simp: allow_def Let_def budget_def)
    show ?thesis using Cons.IH [of "snd (allow t rl)"] Cons.prems by (simp add: b)
  qed
qed simp

section \<open>Size\<close>

text \<open>
  If the pin is a function of the key, the cache holds at most its configured number of entries
  or all but one of its entries are pinned.
\<close>

definition n_pinned :: "(string \<times> Entry) list \<Rightarrow> nat" where
  "n_pinned m = length (filter (\<lambda>(_, e). en_pinned e) m)"

definition size_ok :: "(string \<Rightarrow> bool) \<Rightarrow> nat \<Rightarrow> (string \<times> Entry) list \<Rightarrow> bool" where
  "size_ok hot n m \<longleftrightarrow> (\<forall>(k, e) \<in> set m. en_pinned e = hot k) \<and> length m \<le> max n (Suc (n_pinned m))"

lemma n_pinned_simps [simp]:
  "n_pinned [] = 0" "n_pinned ((k, e) # m) = (if en_pinned e then 1 else 0) + n_pinned m"
  by (simp_all add: n_pinned_def)

lemma n_pinned_le: "n_pinned m \<le> length m"
  by (simp add: n_pinned_def)

lemma n_pinned_retain: "n_pinned (retain_live ttl now m) = n_pinned m"
  by (induction m) (auto simp: retain_live_def)

lemma length_retain: "length (retain_live ttl now m) \<le> length m"
  by (simp add: retain_live_def)

lemma update_size:
  "length (AList.update k e m) = (if map_of m k = None then Suc (length m) else length m)"
  by (induction m) auto

lemma update_pinned:
  "map_of m k = None \<Longrightarrow> n_pinned (AList.update k e m) = n_pinned m + (if en_pinned e then 1 else 0)"
  "map_of m k = Some e0 \<Longrightarrow> en_pinned e0 = en_pinned e \<Longrightarrow> n_pinned (AList.update k e m) = n_pinned m"
  by (induction m) (auto split: if_splits)

lemma delete_size:
  assumes "distinct (map fst m)" and "(k, e) \<in> set m" and "\<not> en_pinned e"
  shows "n_pinned (AList.delete k m) = n_pinned m" and "Suc (length (AList.delete k m)) = length m"
proof -
  have idle: "AList.delete k m' = m'" if "k \<notin> fst ` set m'" for m' :: "(string \<times> Entry) list"
    using that by (simp add: AList.delete_idem)
  have "n_pinned (AList.delete k m) = n_pinned m \<and> Suc (length (AList.delete k m)) = length m"
    using assms by (induction m) (auto simp: AList.delete_eq [symmetric] idle)
  then show "n_pinned (AList.delete k m) = n_pinned m" "Suc (length (AList.delete k m)) = length m" by simp_all
qed

lemma evict_one_size:
  assumes "distinct (map fst m)"
  shows "n_pinned (evict_one m) = n_pinned m"
    and "length (evict_one m) = (if n_pinned m < length m then length m - 1 else length m)"
proof -
  have "n_pinned (evict_one m) = n_pinned m \<and> length (evict_one m) = (if n_pinned m < length m then length m - 1 else length m)"
  proof (cases "oldest_unpinned m")
    case None
    then have "n_pinned m = length m" by (simp add: oldest_unpinned_None n_pinned_def case_prod_beta filter_id_conv)
    with None show ?thesis by (simp add: evict_one_def)
  next
    case (Some kt)
    then obtain k t e where o: "oldest_unpinned m = Some (k, t)" "(k, e) \<in> set m" "\<not> en_pinned e"
      by (cases kt) (use oldest_unpinned_in in blast)
    note d = delete_size [OF assms o(2,3)]
    have "n_pinned m < length m" using d n_pinned_le [of "AList.delete k m"] by linarith
    with o(1) d show ?thesis by (simp add: evict_one_def)
  qed
  then show "n_pinned (evict_one m) = n_pinned m"
    "length (evict_one m) = (if n_pinned m < length m then length m - 1 else length m)" by simp_all
qed

lemma set_evict_one: "set (evict_one m) \<subseteq> set m"
  by (auto simp: evict_one_def AList.delete_eq split: option.splits)

lemma set_update: "set (AList.update k e m) \<subseteq> insert (k, e) (set m)"
  by (induction m) auto

lemma cache_put_size:
  assumes c: "ttl_cache_ok c" and s: "size_ok hot (tc_max_entries c) (tc_inner c)" and p: "pinned = hot key"
    and n: "0 < tc_max_entries c"
  shows "size_ok hot (tc_max_entries c) (tc_inner (cache_put now key body pinned c))"
proof -
  let ?e = "\<lparr>en_stored_at = now, en_body = body, en_pinned = pinned\<rparr>"
  define m where "m = retain_live (tc_ttl c) now (tc_inner c)"
  define m' where "m' = (if tc_max_entries c \<le> length m \<and> map_of m key = None then evict_one m else m)"
  have d: "distinct (map fst m)" using c by (simp add: m_def ttl_cache_ok_def retain_live_keys)
  have r: "tc_inner (cache_put now key body pinned c) = AList.update key ?e m'"
    using c by (simp add: cache_put_def ttl_cache_ok_def m_def m'_def Let_def)
  have sub: "set m' \<subseteq> set (tc_inner c)" using set_evict_one [of m] by (auto simp: m'_def m_def retain_live_def)
  have pins: "\<forall>(k, e) \<in> set (AList.update key ?e m'). en_pinned e = hot k"
    using s sub set_update [of key ?e m'] p by (fastforce simp: size_ok_def)
  have len: "length m \<le> max (tc_max_entries c) (Suc (n_pinned m))"
    using s length_retain [of "tc_ttl c" now "tc_inner c"] by (simp add: size_ok_def m_def n_pinned_retain)
  have pm: "en_pinned e0 = en_pinned ?e" if "map_of m' key = Some e0" for e0
    using map_of_SomeD [OF that] sub s p by (auto simp: size_ok_def)
  have "length (AList.update key ?e m') \<le> max (tc_max_entries c) (Suc (n_pinned (AList.update key ?e m')))"
  proof (cases "map_of m' key")
    case (Some e0)
    then have "m' = m" by (auto simp: m'_def map_of_eq_None_iff dest!: map_of_SomeD subsetD [OF set_evict_one] split: if_splits intro: rev_image_eqI)
    then show ?thesis using len Some update_pinned(2) [OF Some, of ?e] pm [OF Some] by (simp add: update_size)
  next
    case None
    show ?thesis
      using None len n n_pinned_le [of m] evict_one_size [OF d] update_pinned(1) [OF None, of ?e]
      by (auto simp: m'_def update_size split: if_splits)
  qed
  with pins show ?thesis by (simp add: r size_ok_def)
qed

lemma TtlCache_new_fields [simp]:
  "tc_ttl (TtlCache_new ttl n) = ttl" "tc_max_entries (TtlCache_new ttl n) = max n 4"
  by (simp_all add: TtlCache_new_def)

lemma cache_run_size:
  assumes "\<forall>now k body pinned. Put now k body pinned \<in> set ops \<longrightarrow> pinned = hot k"
  shows "size_ok hot (max n 4) (tc_inner (cache_run ops (TtlCache_new ttl n)))"
  using assms
proof (induction ops rule: rev_induct)
  case Nil
  show ?case by (simp add: cache_run_def TtlCache_new_def size_ok_def)
next
  case (snoc op ops)
  have m: "tc_max_entries (cache_run ops (TtlCache_new ttl n)) = max n 4" by simp
  show ?case
  proof (cases op)
    case (Get now key)
    with snoc show ?thesis by (simp add: cache_run_snoc)
  next
    case (Put now key body pinned)
    with snoc.prems have p: "pinned = hot key" by auto
    have "size_ok hot (max n 4) (tc_inner (cache_run ops (TtlCache_new ttl n)))"
      using snoc by (metis butlast_snoc in_set_butlastD)
    then show ?thesis
      using cache_put_size [of "cache_run ops (TtlCache_new ttl n)" hot pinned key now body] p Put
        conjunct1 [OF cache_run_last_put] by (simp add: cache_run_snoc m)
  qed
qed

lemma last_put_in: "last_put k ops = Some e \<Longrightarrow> Put (en_stored_at e) k (en_body e) (en_pinned e) \<in> set ops"
  by (induction k ops rule: last_put.induct) (auto split: option.splits if_splits)

lemma last_put_None: "last_put k ops = None \<longleftrightarrow> (\<forall>now body pinned. Put now k body pinned \<notin> set ops)"
  by (induction k ops rule: last_put.induct) (auto split: option.splits)

lemma limiter_run_snd [simp]: "snd (limiter_run (t # ts) rl) = snd (limiter_run ts (snd (allow t rl)))"
  by (simp split: prod.splits)

lemma limiter_run_fields:
  "rl_poisoned (snd (limiter_run ts rl)) = rl_poisoned rl" "rl_window (snd (limiter_run ts rl)) = rl_window rl"
  "rl_max_per_window (snd (limiter_run ts rl)) = rl_max_per_window rl"
proof (induction ts arbitrary: rl)
  case (Cons t ts)
  { case 1 show ?case unfolding limiter_run_snd by (simp add: Cons) }
  { case 2 show ?case unfolding limiter_run_snd by (simp add: Cons) }
  { case 3 show ?case unfolding limiter_run_snd by (simp add: Cons) }
qed simp_all

lemma limiter_started: "rl_started rl \<le> u \<Longrightarrow> \<forall>t \<in> set ts. t \<le> u \<Longrightarrow> rl_started (snd (limiter_run ts rl)) \<le> u"
proof (induction ts arbitrary: rl)
  case (Cons t ts)
  then have "rl_started (snd (allow t rl)) \<le> u" by (simp add: allow_def Let_def)
  with Cons show ?case unfolding limiter_run_snd by simp
qed simp

lemma sorted_le_last: "sorted xs \<Longrightarrow> x \<in> set xs \<Longrightarrow> x \<le> last (xs :: nat list)"
  by (induction xs) (auto split: if_splits)

section \<open>Properties\<close>

text \<open>
  C23: What the dashboard cache serves.  After any sequence of lookups and stores, a hit is the
  body stored last under that key, and it was stored at most the time to live ago; and a
  pinned body is served until then, whatever was stored under other keys in between.
\<close>

theorem cache_serves_last_fresh_store:
  "(fst (cache_get now key (cache_run ops (TtlCache_new ttl n))) = Some body \<longrightarrow>
      (\<exists>e. last_put key ops = Some e \<and> en_body e = body \<and> now - en_stored_at e \<le> ttl))
   \<and> (last_put key ops = Some e \<and> en_pinned e \<and> now - en_stored_at e \<le> ttl \<longrightarrow>
      fst (cache_get now key (cache_run ops (TtlCache_new ttl n))) = Some (en_body e))"
proof -
  let ?c = "cache_run ops (TtlCache_new ttl n)"
  note r = cache_run_last_put [of ops ttl n key]
  have p: "\<not> tc_poisoned ?c" using r by (simp add: ttl_cache_ok_def)
  show ?thesis using r by (cases "last_put key ops") (auto simp: cache_get_def p fresh_def split: option.splits)
qed

definition sample_ops :: "cache_op list" where
  "sample_ops = [Put 0 ''hot'' ''A'' True, Put 1 ''q1'' ''B'' False, Put 2 ''q2'' ''C'' False, Put 3 ''q3'' ''D'' False,
     Put 4 ''q4'' ''E'' False, Get 5 ''q1'', Put 6 ''q4'' ''F'' False]"

theorem cache_serves_last_fresh_store_witness:
  "fst (cache_get 7 ''hot'' (cache_run sample_ops (TtlCache_new 10 4))) = Some ''A''
   \<and> fst (cache_get 7 ''q1'' (cache_run sample_ops (TtlCache_new 10 4))) = None"
proof -
  have "last_put ''hot'' sample_ops = Some \<lparr>en_stored_at = 0, en_body = ''A'', en_pinned = True\<rparr>"
    by (simp add: sample_ops_def)
  then have "fst (cache_get 7 ''hot'' (cache_run sample_ops (TtlCache_new 10 4))) = Some ''A''"
    using cache_serves_last_fresh_store [of 7 "''hot''" sample_ops 10 4 "''A''" "\<lparr>en_stored_at = 0, en_body = ''A'', en_pinned = True\<rparr>"]
    by simp
  moreover have "fst (cache_get 7 ''q1'' (cache_run sample_ops (TtlCache_new 10 4))) = None"
    by (simp add: sample_ops_def cache_run_def cache_put_def cache_get_def retain_live_def evict_one_def fresh_def
        TtlCache_new_def Let_def)
  ultimately show ?thesis ..
qed

text \<open>
  C40: The size of the dashboard cache.  If pinning depends on the key only, the pinned entries
  are exactly the keys ever stored pinned, however long ago, and the cache holds at most its
  configured number of entries or one more than the pinned ones: unpinned entries cannot make
  it grow, pinned ones can without limit.
\<close>

theorem cache_size_is_bounded_by_pins:
  assumes "\<forall>now k body pinned. Put now k body pinned \<in> set ops \<longrightarrow> pinned = hot k"
  shows "length (tc_inner (cache_run ops (TtlCache_new ttl n)))
           \<le> max (max n 4) (Suc (n_pinned (tc_inner (cache_run ops (TtlCache_new ttl n)))))
    \<and> {k. \<exists>e. map_of (tc_inner (cache_run ops (TtlCache_new ttl n))) k = Some e \<and> en_pinned e}
        = {k. \<exists>now body. Put now k body True \<in> set ops}"
proof -
  have "(\<exists>e. map_of (tc_inner (cache_run ops (TtlCache_new ttl n))) k = Some e \<and> en_pinned e)
           \<longleftrightarrow> (\<exists>now body. Put now k body True \<in> set ops)" (is "?l \<longleftrightarrow> ?r") for k
  proof
    assume ?l
    then obtain e where "last_put k ops = Some e" "en_pinned e"
      using cache_run_last_put [of ops ttl n k] by auto
    then show ?r using last_put_in [of k ops e] by auto
  next
    assume r: ?r
    then obtain e where e: "last_put k ops = Some e" using last_put_None [of k ops] by (cases "last_put k ops") auto
    then have "en_pinned e" using r last_put_in [OF e] assms by metis
    with e show ?l using cache_run_last_put [of ops ttl n k] by auto
  qed
  then show ?thesis using cache_run_size [OF assms] by (simp add: size_ok_def)
qed

theorem cache_size_is_bounded_by_pins_witness:
  "length (tc_inner (cache_run sample_ops (TtlCache_new 10 4)))
     \<le> max (max 4 4) (Suc (n_pinned (tc_inner (cache_run sample_ops (TtlCache_new 10 4)))))
   \<and> n_pinned (tc_inner (cache_run sample_ops (TtlCache_new 10 4))) = 1"
proof -
  have "\<forall>now k body pinned. Put now k body pinned \<in> set sample_ops \<longrightarrow> pinned = (k = ''hot'')"
    by (simp add: sample_ops_def)
  from cache_size_is_bounded_by_pins [OF this, of 10 4]
  have "length (tc_inner (cache_run sample_ops (TtlCache_new 10 4)))
     \<le> max (max 4 4) (Suc (n_pinned (tc_inner (cache_run sample_ops (TtlCache_new 10 4)))))" by (rule conjunct1)
  moreover have "n_pinned (tc_inner (cache_run sample_ops (TtlCache_new 10 4))) = 1" by code_simp
  ultimately show ?thesis ..
qed

text \<open>
  C32: The request cap.  Whatever calls came before, in every interval as long as the window at
  most twice the cap is admitted, at most the cap in an interval in which no new window starts,
  and the first call after a pause as long as the window is admitted.
\<close>

theorem rate_limit_bounds_every_interval:
  assumes "sorted (t0 # ts0 @ ts)" and "\<forall>t \<in> set ts. a \<le> t \<and> t < a + w"
    and "rl = snd (limiter_run ts0 (RateLimiter_new t0 m w))"
  shows "admitted ts rl \<le> 2 * max m 1
    \<and> ((\<forall>t \<in> set ts. t - rl_started rl < w) \<longrightarrow> admitted ts rl \<le> max m 1)
    \<and> (\<forall>t. last (t0 # ts0) + w \<le> t \<longrightarrow> fst (allow t rl))"
proof -
  have f: "\<not> rl_poisoned rl" "rl_window rl = w" "rl_max_per_window rl = max m 1"
    using assms(3) by (simp_all add: limiter_run_fields RateLimiter_new_def)
  have b: "budget rl \<le> max m 1" using f by (simp add: budget_def)
  have "admitted ts rl \<le> budget rl + max m 1"
    using admitted_in_interval [OF f(1), of ts a] assms(1,2) f by (simp add: sorted_append)
  moreover have "admitted ts rl \<le> budget rl" if "\<forall>t \<in> set ts. t - rl_started rl < w"
    using admitted_in_one_window [OF f(1)] that f(2) by simp
  moreover have "fst (allow t rl)" if "last (t0 # ts0) + w \<le> t" for t
  proof -
    have "sorted (t0 # ts0)" using assms(1) by (simp add: sorted_append)
    from sorted_le_last [OF this] have "\<forall>x \<in> set (t0 # ts0). x \<le> last (t0 # ts0)" by blast
    then have "rl_started rl \<le> last (t0 # ts0)"
      using limiter_started [of "RateLimiter_new t0 m w" "last (t0 # ts0)" ts0] assms(3) by (simp add: RateLimiter_new_def)
    with that f show ?thesis by (auto simp: allow_def Let_def)
  qed
  ultimately show ?thesis using b by auto
qed

theorem rate_limit_bounds_every_interval_witness:
  "admitted [9, 10, 10, 11, 12] (snd (limiter_run [1, 2] (RateLimiter_new 0 2 10))) \<le> 2 * max 2 1
   \<and> fst (allow 12 (snd (limiter_run [1, 2] (RateLimiter_new 0 2 10))))"
proof -
  have h: "sorted (0 # [1, 2] @ [9, 10, 10, 11, 12 :: nat])" "\<forall>t \<in> set [9, 10, 10, 11, 12 :: nat]. 9 \<le> t \<and> t < 9 + 10"
    by simp_all
  show ?thesis using rate_limit_bounds_every_interval [OF h refl, of 2] by simp
qed

end
