(* ===== verification/Dash_Sql.thy ===== *)
theory Dash_Sql
  imports Rust_Path
begin

text \<open>
  The query builders of the dashboard, \<^verbatim>\<open>statix-gateway/src/routes/dashboard/sql.rs\<close>, as the texts they
  build.  Theorems on the texts: the bound parameters (\<^verbatim>\<open>{name:Type}\<close>) each of them asks for.
\<close>

section \<open>Sort and order\<close>

definition CPU_MILLICORES :: string where
  "CPU_MILLICORES = ''if(w_end > w_start, cpu_usec * 1000000.0 / (w_end - w_start), 0.0)''"

datatype Sort = Cpu | Memory | MemoryPeak | Execs | LastSeen

definition Sort_parse :: "string option \<Rightarrow> Sort" where
  "Sort_parse s =
     (let t = (case s of Some x \<Rightarrow> x | None \<Rightarrow> ''cpu'')
      in if t = ''mem'' \<or> t = ''memory'' then Memory
         else if t = ''mem_peak'' \<or> t = ''memory_peak'' then MemoryPeak
         else if t = ''execs'' \<or> t = ''exec_count'' then Execs
         else if t = ''last_seen'' then LastSeen
         else Cpu)"

primrec Sort_column :: "Sort \<Rightarrow> string" where
  "Sort_column Cpu = ''cpu_millicores''"
| "Sort_column Memory = ''memory_bytes_last''"
| "Sort_column MemoryPeak = ''memory_bytes_max''"
| "Sort_column Execs = ''exec_count''"
| "Sort_column LastSeen = ''window_end_ns''"

primrec Sort_as_str :: "Sort \<Rightarrow> string" where
  "Sort_as_str Cpu = ''cpu''"
| "Sort_as_str Memory = ''mem''"
| "Sort_as_str MemoryPeak = ''mem_peak''"
| "Sort_as_str Execs = ''execs''"
| "Sort_as_str LastSeen = ''last_seen''"

datatype Order = Asc | Desc

definition Order_parse :: "string option \<Rightarrow> Order" where
  "Order_parse s = (if (case s of Some x \<Rightarrow> x | None \<Rightarrow> ''desc'') = ''asc'' then Asc else Desc)"

primrec Order_keyword :: "Order \<Rightarrow> string" where
  "Order_keyword Asc = ''ASC''"
| "Order_keyword Desc = ''DESC''"

primrec Order_as_str :: "Order \<Rightarrow> string" where
  "Order_as_str Asc = ''asc''"
| "Order_as_str Desc = ''desc''"

section \<open>Queries\<close>

text \<open>A text given by its lines.\<close>

fun sql_lines :: "string list \<Rightarrow> string" where
  "sql_lines [] = []"
| "sql_lines [l] = l"
| "sql_lines (l # ls) = l @ newline # sql_lines ls"

definition quotes :: string where
  "quotes = [CHR 0x27, CHR 0x27]"

definition slash_lit :: string where
  "slash_lit = [CHR 0x27, CHR ''/'', CHR 0x27]"

definition sql_inner :: "bool \<Rightarrow> string" where
  "sql_inner node_filter =
     (let node_clause = (if node_filter then '' AND node = {node:String}'' else [])
      in sql_lines
       [''SELECT node AS n, cgroup_id AS cg,'',
        ''            max(window_start_ns)                       AS w_start,'',
        ''            argMax(window_end_ns,     window_start_ns) AS w_end,'',
        ''            argMax(namespace,         window_start_ns) AS ns,'',
        ''            argMax(pod,               window_start_ns) AS pod_name,'',
        ''            argMax(container,         window_start_ns) AS cont_name,'',
        ''            argMax(k8s_resolved,      window_start_ns) AS resolved,'',
        ''            argMax(memory_bytes_last, window_start_ns) AS mem_last,'',
        ''            argMax(memory_bytes_max,  window_start_ns) AS mem_max,'',
        ''            argMax(cpu_usage_usec,    window_start_ns) AS cpu_usec,'',
        ''            argMax(exec_count,        window_start_ns) AS execs,'',
        ''            argMax(sample_count,      window_start_ns) AS samples'',
        ''         FROM statix.workload_metrics'',
        ''         WHERE window_start_ns >= {cutoff_ns:UInt64}'' @ node_clause,
        ''         GROUP BY node, cgroup_id''])"

definition sql_filter_parts :: "bool \<Rightarrow> bool \<Rightarrow> string list" where
  "sql_filter_parts has_q unattributed_only =
     (if has_q then
        [sql_lines
          [''positionCaseInsensitive('',
           ''                concat(ifNull(ns,'' @ quotes @ ''),'' @ slash_lit @ '',ifNull(pod_name,'' @ quotes @ ''),''
             @ slash_lit @ '',ifNull(cont_name,'' @ quotes @ '')),'',
           ''                {q:String}) > 0'']]
      else []) @ (if unattributed_only then [''resolved = 0''] else [])"

fun join_and :: "string list \<Rightarrow> string" where
  "join_and [] = []"
| "join_and [p] = p"
| "join_and (p # ps) = p @ '' AND '' @ join_and ps"

definition sql_filters :: "bool \<Rightarrow> bool \<Rightarrow> string" where
  "sql_filters has_q unattributed_only =
     (let parts = sql_filter_parts has_q unattributed_only
      in if parts = [] then [] else '' WHERE '' @ join_and parts)"

definition sql_rows :: "Sort \<Rightarrow> Order \<Rightarrow> bool \<Rightarrow> bool \<Rightarrow> bool \<Rightarrow> string" where
  "sql_rows sort_by order has_q unattributed_only node_filter =
     sql_lines
      [''SELECT'',
       ''            CAST(n AS String) AS node,'',
       ''            cg          AS cgroup_id,'',
       ''            ns          AS namespace,'',
       ''            pod_name    AS pod,'',
       ''            cont_name   AS container,'',
       ''            resolved    AS k8s_resolved,'',
       ''            mem_last    AS memory_bytes_last,'',
       ''            mem_max     AS memory_bytes_max,'',
       ''            cpu_usec    AS cpu_usage_usec,'',
       ''            '' @ CPU_MILLICORES @ '' AS cpu_millicores,'',
       ''            execs       AS exec_count,'',
       ''            samples     AS sample_count,'',
       ''            w_start     AS window_start_ns,'',
       ''            w_end       AS window_end_ns'',
       ''         FROM ('' @ sql_inner node_filter @ '')'' @ sql_filters has_q unattributed_only,
       ''         ORDER BY '' @ Sort_column sort_by @ '' '' @ Order_keyword order @ '', node ASC, cgroup_id ASC'',
       ''         LIMIT {limit:UInt64}'']"

definition sql_totals :: "bool \<Rightarrow> bool \<Rightarrow> bool \<Rightarrow> string" where
  "sql_totals has_q unattributed_only node_filter =
     sql_lines
      [''SELECT'',
       ''            count()                  AS matched_count,'',
       ''            sum(mem_last)            AS memory_bytes,'',
       ''            sum(execs)               AS exec_count,'',
       ''            sum('' @ CPU_MILLICORES @ '')    AS cpu_millicores,'',
       ''            countIf(resolved = 0)    AS unattributed_count,'',
       ''            max(w_end)               AS newest_window_end_ns'',
       ''         FROM ('' @ sql_inner node_filter @ '')'' @ sql_filters has_q unattributed_only]"

definition sql_nodes :: string where
  "sql_nodes = sql_lines
     [''SELECT CAST(node AS String) AS node, max(window_end_ns) AS last_seen_ns'',
      ''     FROM statix.workload_metrics'',
      ''     WHERE window_start_ns >= {cutoff_ns:UInt64}'',
      ''     GROUP BY node'',
      ''     ORDER BY node'']"

section \<open>Bound parameters of a query text\<close>

fun placeholders :: "string \<Rightarrow> string list" where
  "placeholders [] = []"
| "placeholders (c # cs) =
     (if c = CHR ''{'' then [takeWhile (\<lambda>x. x \<noteq> CHR '':'') cs] else []) @ placeholders cs"

text \<open>Every opening brace is followed by a colon in the same piece of text.\<close>

fun closed_text :: "string \<Rightarrow> bool" where
  "closed_text [] = True"
| "closed_text (c # cs) = ((c = CHR ''{'' \<longrightarrow> CHR '':'' \<in> set cs) \<and> closed_text cs)"

lemma placeholders_append: "closed_text a \<Longrightarrow> placeholders (a @ b) = placeholders a @ placeholders b"
  by (induction a) (auto simp: takeWhile_append1 takeWhile_append2)

lemma closed_text_append: "closed_text a \<Longrightarrow> closed_text b \<Longrightarrow> closed_text (a @ b)"
  by (induction a) auto

lemma brace_free: "CHR ''{'' \<notin> set a \<Longrightarrow> placeholders a = [] \<and> closed_text a"
  by (induction a) auto

lemma sql_lines_closed: "\<forall>l \<in> set ls. closed_text l \<Longrightarrow> closed_text (sql_lines ls)"
  by (induction ls rule: sql_lines.induct) (auto simp: newline_def intro!: closed_text_append)

lemma sql_lines_placeholders:
  "\<forall>l \<in> set ls. closed_text l \<Longrightarrow> placeholders (sql_lines ls) = concat (map placeholders ls)"
  by (induction ls rule: sql_lines.induct) (auto simp: placeholders_append newline_def)

lemma sql_inner_placeholders:
  "placeholders (sql_inner nf) = ''cutoff_ns'' # (if nf then [''node''] else []) \<and> closed_text (sql_inner nf)"
  unfolding sql_inner_def Let_def by (simp add: sql_lines_placeholders sql_lines_closed del: sql_lines.simps)

lemma sql_filters_placeholders:
  "placeholders (sql_filters has_q un) = (if has_q then [''q''] else []) \<and> closed_text (sql_filters has_q un)"
  by (cases has_q; cases un) (simp_all add: sql_filters_def sql_filter_parts_def quotes_def slash_lit_def newline_def)

lemma sql_names_brace_free:
  "placeholders (Sort_column s) = [] \<and> closed_text (Sort_column s)"
  "placeholders (Order_keyword o') = [] \<and> closed_text (Order_keyword o')"
  "placeholders CPU_MILLICORES = [] \<and> closed_text CPU_MILLICORES"
  by (cases s, simp_all) (cases o', simp_all add: CPU_MILLICORES_def)

lemmas text_simps = placeholders_append closed_text_append sql_inner_placeholders sql_filters_placeholders sql_names_brace_free

lemma sql_rows_placeholders:
  "placeholders (sql_rows s o' has_q un nf) =
     ''cutoff_ns'' # (if nf then [''node''] else []) @ (if has_q then [''q''] else []) @ [''limit'']"
  unfolding sql_rows_def by (subst sql_lines_placeholders) (simp_all add: text_simps)

lemma sql_totals_placeholders:
  "placeholders (sql_totals has_q un nf) = ''cutoff_ns'' # (if nf then [''node''] else []) @ (if has_q then [''q''] else [])"
  unfolding sql_totals_def by (subst sql_lines_placeholders) (simp_all add: text_simps)

lemma sql_nodes_placeholders: "placeholders sql_nodes = [''cutoff_ns'']"
  unfolding sql_nodes_def by (subst sql_lines_placeholders) simp_all

section \<open>Names\<close>

lemma Sort_parse_as_str [simp]: "Sort_parse (Some (Sort_as_str s)) = s"
  by (cases s) (simp_all add: Sort_parse_def)

lemma Order_parse_as_str [simp]: "Order_parse (Some (Order_as_str x)) = x"
  by (cases x) (simp_all add: Order_parse_def)

end
