(* ===== verification/F64_Order.thy ===== *)
theory F64_Order
  imports F64 Complex_Main
begin

text \<open>
  Rounding and order.  The rounding of a fraction never crosses a value that has at most 53
  significant bits, so a comparison of a computed double with such a value can be decided on
  the exact fraction.
\<close>

section \<open>Values as real numbers\<close>

definition f64_val :: "nat \<Rightarrow> int \<Rightarrow> real" where
  "f64_val m e = real m * 2 powi e"

lemma two_powi [simp]: "0 \<le> e \<Longrightarrow> (2 :: real) powi e = 2 ^ nat e" "e < 0 \<Longrightarrow> (2 :: real) powi e = 1 / 2 ^ nat (- e)"
  by (simp_all add: power_int_def field_simps)

lemma scale2_val:
  assumes "scale2 (num, den) e = (n', d')" and "0 < den"
  shows "0 < d'" and "real n' / real d' = real num / real den / 2 powi e"
  using assms by (auto simp: scale2_def field_simps split: if_splits)

lemma frac_val:
  assumes "f64_frac m e = (a, b)"
  shows "0 < b" and "f64_val m e = real a / real b"
  using assms by (auto simp: f64_frac_def f64_val_def split: if_splits)

lemma f64_gt_val: "f64_gt (F64 False m e) (F64 False n f) \<longleftrightarrow> f64_val n f < f64_val m e"
proof -
  obtain a b c d where f: "f64_frac m e = (a, b)" "f64_frac n f = (c, d)" by fastforce
  note v = frac_val [OF f(1)] frac_val [OF f(2)]
  have "f64_gt (F64 False m e) (F64 False n f) \<longleftrightarrow> int c * int b < int a * int d"
    by (simp add: f64_int_frac_def f)
  also have "\<dots> \<longleftrightarrow> c * b < a * d" by (metis of_nat_less_iff of_nat_mult)
  also have "\<dots> \<longleftrightarrow> real c * real b < real a * real d" by (metis of_nat_less_iff of_nat_mult)
  also have "\<dots> \<longleftrightarrow> f64_val n f < f64_val m e" unfolding v(2) v(4) using v(1,3) by (simp add: field_simps)
  finally show ?thesis .
qed

section \<open>Rounding to an integer\<close>

lemma round_half_even_ge: "N * d \<le> n \<Longrightarrow> 0 < d \<Longrightarrow> N \<le> round_half_even (n, d)"
proof -
  assume "N * d \<le> n" "0 < d"
  then have "N \<le> n div d" by (simp add: less_eq_div_iff_mult_less_eq)
  then show ?thesis by (auto simp: round_half_even_def Let_def)
qed

lemma round_half_even_le: "n \<le> N * d \<Longrightarrow> 0 < d \<Longrightarrow> round_half_even (n, d) \<le> N"
proof -
  assume a: "n \<le> N * d" "0 < d"
  then have q: "n div d \<le> N" by (metis div_le_mono nonzero_mult_div_cancel_right less_not_refl2)
  show ?thesis
  proof (cases "n div d = N")
    case True
    then have "n = N * d" using a by (metis antisym times_div_less_eq_dividend mult.commute)
    then show ?thesis using a(2) by (simp add: round_half_even_exact)
  next
    case False
    with q show ?thesis by (auto simp: round_half_even_def Let_def)
  qed
qed

section \<open>Rounding and representable values\<close>

lemma powi_diff_le: "a \<le> b \<Longrightarrow> (2 :: real) powi a \<le> 2 powi b"
  by (simp add: power_int_increasing)

text \<open>Above the subnormal numbers a rounded value has 53 significant bits.\<close>

lemma exponent_normal:
  assumes "0 < num" and "0 < den" and "- 1074 < f64_exponent (num, den)"
  shows "2 ^ 52 * 2 powi (f64_exponent (num, den)) \<le> real num / real den"
proof -
  define e0 where "e0 = int (bit_len num) - int (bit_len den) - 53"
  obtain n' d' where sc: "scale2 (num, den) e0 = (n', d')" by fastforce
  note v = scale2_val [OF sc assms(2)]
  have e: "f64_exponent (num, den) = (if 2 ^ 53 \<le> n' div d' then e0 + 1 else e0)"
    using assms(3) sc unfolding e0_def f64_exponent_def by (auto simp: Let_def max_def split: if_splits)
  note bn = bit_len_bounds [OF assms(1)] and bd = bit_len_bounds [OF assms(2)]
  have "2 powi (e0 + 52) \<le> real num / real den"
  proof -
    have "e0 + 52 = int (bit_len num - 1) - int (bit_len den)"
      using bn by (simp add: e0_def of_nat_diff)
    then have "(2 :: real) powi (e0 + 52) = 2 powi (int (bit_len num - 1) - int (bit_len den))" by (rule arg_cong)
    also have "\<dots> = 2 ^ (bit_len num - 1) / 2 ^ bit_len den" by (simp add: power_int_diff)
    also have "\<dots> \<le> real num / real den"
    proof (rule frac_le)
      show "(2 :: real) ^ (bit_len num - 1) \<le> real num" using bn by (metis of_nat_le_iff of_nat_numeral of_nat_power)
      have "real den < real (2 ^ bit_len den)" using bd by (simp only: of_nat_less_iff)
      then show "real den \<le> 2 ^ bit_len den" by simp
    qed (use assms in auto)
    finally show ?thesis .
  qed
  moreover have "2 powi (e0 + 53) \<le> real num / real den" if "2 ^ 53 \<le> n' div d'"
  proof -
    have "2 ^ 53 * d' \<le> n'" using that v(1) by (simp add: less_eq_div_iff_mult_less_eq)
    then have "real (2 ^ 53 * d') \<le> real n'" by (simp only: of_nat_le_iff)
    then have "2 ^ 53 \<le> real n' / real d'" using v(1) by (simp add: field_simps)
    then have "2 ^ 53 * 2 powi e0 \<le> real num / real den"
      unfolding v(2) using pos_le_divide_eq [of "2 powi e0" "2 ^ 53" "real num / real den"] by simp
    then show ?thesis by (simp add: power_int_add mult.commute)
  qed
  ultimately show ?thesis by (simp add: e power_int_add field_simps)
qed

text \<open>The two directions: a fraction above, or below, a value of at most 53 bits.\<close>

lemma dyadic_at:
  assumes "e \<le> - int k"
  shows "\<exists>j. (\<forall>p. real p / 2 ^ k = real (p * 2 ^ j) * 2 powi e)
    \<and> (\<forall>num den. scale2 (num, den) e = (num * 2 ^ (k + j), den))"
proof -
  define j where "j = nat (- e) - k"
  have n: "nat (- e) = k + j" using assms by (simp add: j_def)
  have "real p / 2 ^ k = real (p * 2 ^ j) * 2 powi e" for p
    using assms n by (cases "e = 0") (simp_all add: power_add)
  moreover have "scale2 (num, den) e = (num * 2 ^ (k + j), den)" for num den
    using assms n by (cases "e = 0") (simp_all add: scale2_def)
  ultimately show ?thesis by blast
qed

lemma dyadic_below_normal:
  assumes "- int k < e" and "p < 2 ^ 53"
  shows "real p / 2 ^ k < 2 ^ 52 * 2 powi e"
proof -
  have "real p < real (2 ^ 53)" using assms(2) by (simp only: of_nat_less_iff)
  then have "real p / 2 ^ k < 2 ^ 53 / 2 ^ k" by (simp add: divide_strict_right_mono)
  also have "\<dots> = 2 ^ 52 * 2 powi (1 - int k)" by (simp add: power_int_diff)
  also have "\<dots> \<le> 2 ^ 52 * 2 powi e" using assms(1) by (intro mult_left_mono powi_diff_le) simp_all
  finally show ?thesis .
qed

lemma round_above:
  assumes "0 < num" and "0 < den" and "p < 2 ^ 53" and "k \<le> 1074" and "p * den \<le> num * 2 ^ k"
  shows "real p / 2 ^ k \<le> f64_val (round_half_even (scale2 (num, den) (f64_exponent (num, den)))) (f64_exponent (num, den))"
proof -
  define e where "e = f64_exponent (num, den)"
  show ?thesis
  proof (cases "e \<le> - int k")
    case True
    from dyadic_at [OF this] obtain j where j: "real p / 2 ^ k = real (p * 2 ^ j) * 2 powi e"
      "scale2 (num, den) e = (num * 2 ^ (k + j), den)" by blast
    have "p * 2 ^ j * den \<le> num * 2 ^ (k + j)" using assms(5) by (simp add: power_add)
    from round_half_even_ge [OF this assms(2)] show ?thesis
      unfolding e_def [symmetric] j f64_val_def by (intro mult_right_mono of_nat_mono) simp_all
  next
    case False
    obtain n' d' where sc: "scale2 (num, den) e = (n', d')" by fastforce
    note v = scale2_val [OF sc assms(2)]
    have n: "2 ^ 52 * 2 powi e \<le> real num / real den"
      using exponent_normal [OF assms(1,2)] False assms(4) unfolding e_def by simp
    then have "2 ^ 52 \<le> real n' / real d'"
      unfolding v(2) using pos_le_divide_eq [of "2 powi e" "2 ^ 52" "real num / real den"] by simp
    then have "real (2 ^ 52 * d') \<le> real n'" using v(1) by (simp add: field_simps)
    then have "2 ^ 52 * d' \<le> n'" by (simp only: of_nat_le_iff)
    from round_half_even_ge [OF this v(1)] have "real (2 ^ 52) \<le> real (round_half_even (n', d'))" by (simp only: of_nat_le_iff)
    then have "2 ^ 52 * 2 powi e \<le> f64_val (round_half_even (n', d')) e" unfolding f64_val_def by (intro mult_right_mono) simp_all
    moreover have "real p / 2 ^ k < 2 ^ 52 * 2 powi e" using False assms(3) by (intro dyadic_below_normal) simp_all
    ultimately show ?thesis unfolding e_def [symmetric] sc by simp
  qed
qed

lemma round_below:
  assumes "0 < num" and "0 < den" and "p < 2 ^ 53" and "k \<le> 1074" and "num * 2 ^ k \<le> p * den"
  shows "f64_val (round_half_even (scale2 (num, den) (f64_exponent (num, den)))) (f64_exponent (num, den)) \<le> real p / 2 ^ k"
proof -
  define e where "e = f64_exponent (num, den)"
  show ?thesis
  proof (cases "e \<le> - int k")
    case True
    from dyadic_at [OF this] obtain j where j: "real p / 2 ^ k = real (p * 2 ^ j) * 2 powi e"
      "scale2 (num, den) e = (num * 2 ^ (k + j), den)" by blast
    have "num * 2 ^ (k + j) \<le> p * 2 ^ j * den" using mult_right_mono [OF assms(5), of "2 ^ j"] by (simp add: power_add ac_simps)
    from round_half_even_le [OF this assms(2)] show ?thesis
      unfolding e_def [symmetric] j f64_val_def by (intro mult_right_mono of_nat_mono) simp_all
  next
    case False
    have n: "2 ^ 52 * 2 powi e \<le> real num / real den"
      using exponent_normal [OF assms(1,2)] False assms(4) unfolding e_def by simp
    have "real (num * 2 ^ k) \<le> real (p * den)" using assms(5) by (simp only: of_nat_le_iff)
    then have "real num / real den \<le> real p / 2 ^ k" using assms(2) by (simp add: field_simps)
    moreover have "real p / 2 ^ k < 2 ^ 52 * 2 powi e" using False assms(3) by (intro dyadic_below_normal) simp_all
    ultimately show ?thesis using n by linarith
  qed
qed

section \<open>Quotients of integers\<close>

text \<open>A non-negative double: infinite, or the value of a significand and an exponent.\<close>

fun f64_at_least :: "real \<Rightarrow> f64 \<Rightarrow> bool" where
  "f64_at_least x (F64 neg m e) = (\<not> neg \<and> x \<le> f64_val m e)"
| "f64_at_least x (F64_Inf neg) = (\<not> neg)"
| "f64_at_least x F64_NaN = False"

fun f64_at_most :: "real \<Rightarrow> f64 \<Rightarrow> bool" where
  "f64_at_most x (F64 neg m e) = (\<not> neg \<and> f64_val m e \<le> x)"
| "f64_at_most x _ = False"

lemma f64_round_above:
  assumes "0 < num" and "0 < den" and "p < 2 ^ 53" and "k \<le> 1074" and "p * den \<le> num * 2 ^ k"
  shows "f64_at_least (real p / 2 ^ k) (f64_round False (num, den))"
  using round_above [OF assms] assms(1) by (simp add: f64_round_def Let_def)

lemma f64_round_below:
  assumes "0 < den" and "p < 2 ^ 53" and "k \<le> 1074" and "num * 2 ^ k \<le> p * den"
  shows "f64_at_most (real p / 2 ^ k) (f64_round False (num, den))"
proof (cases "num = 0")
  case True
  then show ?thesis by (simp add: f64_round_def f64_val_def)
next
  case False
  define e m where "e = f64_exponent (num, den)" and "m = round_half_even (scale2 (num, den) e)"
  have v: "f64_val m e \<le> real p / 2 ^ k" using round_below [of num den p k] False assms by (simp add: e_def m_def)
  have "\<not> (0 \<le> e \<and> 2 ^ 1024 \<le> m * 2 ^ nat e)"
  proof
    assume a: "0 \<le> e \<and> 2 ^ 1024 \<le> m * 2 ^ nat e"
    then have "real (2 ^ 1024) \<le> real (m * 2 ^ nat e)" by (simp only: of_nat_le_iff)
    then have "2 ^ 1024 \<le> f64_val m e" using a by (simp add: f64_val_def)
    moreover have "real p / 2 ^ k \<le> real p" by (simp add: divide_le_eq mult_le_cancel_left1)
    moreover have "real p < real (2 ^ 53)" using assms(2) by (simp only: of_nat_less_iff)
    moreover have "real (2 ^ 53) \<le> 2 ^ 1024" by (simp add: power_increasing [of 53 1024 "2 :: real", simplified])
    ultimately show False using v by linarith
  qed
  with v False show ?thesis by (auto simp: f64_round_def Let_def e_def m_def)
qed

lemma f64_nat_val: "f64_nat (F64 neg m e) n \<Longrightarrow> \<not> neg \<and> f64_val m e = real n"
  by (auto simp: f64_nat_def f64_val_def split: if_splits)

lemma f64_of_u64_exact:
  assumes "unat n < 2 ^ 53"
  shows "f64_nat (f64_of_u64 n) (unat n)"
proof -
  have "unat n < 2 ^ 1024" using assms by (rule less_trans) simp
  then have "f64_exact (unat n)" using assms unfolding f64_exact_def by (metis mult.right_neutral power_0)
  from f64_round_exact [OF this, of 0] show ?thesis by (simp add: f64_of_u64_def)
qed

text \<open>The fraction that a division rounds.\<close>

lemma f64_div_fraction:
  assumes "f64_val n f = real c" and "0 < c"
  obtains num den where "f64_div (F64 False m e) (F64 False n f) = f64_round False (num, den)" and "0 < den"
    and "real num / real den = f64_val m e / real c"
proof -
  obtain a b c' d where f: "f64_frac m e = (a, b)" "f64_frac n f = (c', d)" by fastforce
  note v = frac_val [OF f(1)] frac_val [OF f(2)]
  have c: "real c' = real c * real d" using v(3,4) assms(1) by (simp add: field_simps)
  then have c0: "0 < c'" using assms(2) v(3) by (metis mult_pos_pos of_nat_0_less_iff)
  have "n \<noteq> 0" using assms by (cases n) (simp_all add: f64_val_def)
  then have "f64_div (F64 False m e) (F64 False n f) = f64_round False (a * d, b * c')" by (simp add: f)
  moreover have "0 < b * c'" using v(1) c0 by simp
  moreover have "real (a * d) / real (b * c') = f64_val m e / real c"
    unfolding v(2) of_nat_mult c using v(1,3) assms(2) by (simp add: field_simps)
  ultimately show ?thesis by (rule that)
qed

lemma f64_div_above:
  assumes "f64_at_least (real a) x" and "f64_nat y c" and "0 < c" and "0 < a" and "p < 2 ^ 53" and "k \<le> 1074"
    and "p * c \<le> a * 2 ^ k"
  shows "f64_at_least (real p / 2 ^ k) (f64_div x y)"
proof -
  obtain n f where y: "y = F64 False n f" using assms(2) by (auto simp: f64_nat_def)
  note yv = f64_nat_val [OF assms(2) [unfolded y]]
  show ?thesis
  proof (cases x)
    case (F64 neg m e)
    with assms(1) have x: "x = F64 False m e" "real a \<le> f64_val m e" by simp_all
    obtain num den where d: "f64_div x y = f64_round False (num, den)" "0 < den" "real num / real den = f64_val m e / real c"
      using f64_div_fraction [OF conjunct2 [OF yv] assms(3), of m e] unfolding x y by blast
    have r: "real a / real c \<le> real num / real den" unfolding d(3) using x(2) by (simp add: divide_right_mono)
    moreover have "0 < real a / real c" using assms(3,4) by simp
    ultimately have "0 < real num / real den" by linarith
    then have "0 < num" by (cases num) simp_all
    have "real (p * c) \<le> real (a * 2 ^ k)" using assms(7) by (simp only: of_nat_le_iff)
    then have "real p \<le> real a / real c * 2 ^ k" using assms(3) by (simp add: field_simps)
    also have "\<dots> \<le> real num / real den * 2 ^ k" using r by (intro mult_right_mono) simp_all
    finally have "real (p * den) \<le> real (num * 2 ^ k)" using d(2) by (simp add: field_simps)
    then have "p * den \<le> num * 2 ^ k" by (simp only: of_nat_le_iff)
    then show ?thesis unfolding d(1) using f64_round_above \<open>0 < num\<close> d(2) assms(5,6) by blast
  qed (use assms(1) y in simp_all)
qed

lemma f64_div_below:
  assumes "f64_at_most (real a) x" and "f64_nat y c" and "0 < c" and "p < 2 ^ 53" and "k \<le> 1074" and "a * 2 ^ k \<le> p * c"
  shows "f64_at_most (real p / 2 ^ k) (f64_div x y)"
proof -
  obtain n f where y: "y = F64 False n f" using assms(2) by (auto simp: f64_nat_def)
  note yv = f64_nat_val [OF assms(2) [unfolded y]]
  obtain m e where x: "x = F64 False m e" "f64_val m e \<le> real a" using assms(1) by (cases x) simp_all
  obtain num den where d: "f64_div x y = f64_round False (num, den)" "0 < den" "real num / real den = f64_val m e / real c"
    using f64_div_fraction [OF conjunct2 [OF yv] assms(3), of m e] unfolding x y by blast
  have "real num / real den * 2 ^ k \<le> real a / real c * 2 ^ k"
    unfolding d(3) using x(2) by (intro mult_right_mono divide_right_mono) simp_all
  moreover have "real (a * 2 ^ k) \<le> real (p * c)" using assms(6) by (simp only: of_nat_le_iff)
  then have "real a / real c * 2 ^ k \<le> real p" using assms(3) by (simp add: field_simps)
  ultimately have "real num / real den * 2 ^ k \<le> real p" by linarith
  then have "real (num * 2 ^ k) \<le> real (p * den)" using d(2) by (simp add: field_simps)
  then have "num * 2 ^ k \<le> p * den" by (simp only: of_nat_le_iff)
  then show ?thesis unfolding d(1) using f64_round_below d(2) assms(4,5) by blast
qed

text \<open>The comparison with an integer.\<close>

lemma f64_gt_nat:
  assumes "f64_nat y c"
  shows "f64_at_least x z \<Longrightarrow> real c < x \<Longrightarrow> f64_gt z y" and "f64_at_most (real c) z \<Longrightarrow> \<not> f64_gt z y"
proof -
  obtain n f where y: "y = F64 False n f" using assms by (auto simp: f64_nat_def)
  note v = f64_nat_val [OF assms [unfolded y]]
  have g: "f64_gt (F64 False m e) y \<longleftrightarrow> real c < f64_val m e" for m e
    unfolding y f64_gt_val conjunct2 [OF v] by (rule refl)
  have i: "f64_gt (F64_Inf False) y" unfolding y by simp
  show "f64_gt z y" if a: "f64_at_least x z" and l: "real c < x"
  proof (cases z)
    case (F64 neg m e)
    with a have "z = F64 False m e" "x \<le> f64_val m e" by simp_all
    with l g show ?thesis by (simp del: f64_gt.simps)
  qed (use a i in \<open>simp_all del: f64_gt.simps\<close>)
  show "\<not> f64_gt z y" if a: "f64_at_most (real c) z"
  proof (cases z)
    case (F64 neg m e)
    with a have "z = F64 False m e" "f64_val m e \<le> real c" by simp_all
    with g show ?thesis by (simp del: f64_gt.simps)
  qed (use a in simp_all)
qed

end
