(* ===== verification/Dashboard.thy ===== *)
theory Dashboard
  imports Gateway Dash_Cache Dash_Sql F64_Order
begin

text \<open>
  The read tier of the gateway, \<^verbatim>\<open>statix-gateway/src/routes/dashboard/mod.rs\<close>: its configuration, the
  normalised query and its cache key, and the three handlers.  ClickHouse, the JSON serialiser
  and the file system are parameters.  Texts are UTF-8; the Unicode tables behind \<^verbatim>\<open>trim\<close> and
  \<^verbatim>\<open>to_lowercase\<close> are a parameter too.
\<close>

section \<open>Constants and configuration\<close>

definition DEFAULT_RANGE_SECS :: u64 where "DEFAULT_RANGE_SECS = 300"
definition MIN_RANGE_SECS :: u64 where "MIN_RANGE_SECS = 60"
definition MAX_RANGE_SECS :: u64 where "MAX_RANGE_SECS = 3600"
definition DEFAULT_LIMIT :: nat where "DEFAULT_LIMIT = 100"
definition DEFAULT_MAX_LIMIT :: nat where "DEFAULT_MAX_LIMIT = 500"
definition DEFAULT_CACHE_MS :: nat where "DEFAULT_CACHE_MS = 2000"
definition DEFAULT_RATE_LIMIT_PER_MIN :: nat where "DEFAULT_RATE_LIMIT_PER_MIN = 600"
definition CACHE_ENTRIES :: nat where "CACHE_ENTRIES = 64"
definition MAX_Q_LEN :: nat where "MAX_Q_LEN = 64"
definition NODE_STALE_SECS :: nat where "NODE_STALE_SECS = 60"

record DashboardConfig =
  dc_enabled :: bool
  dc_dir :: "pathbuf option"
  dc_cache_ttl :: nat
  dc_max_limit :: nat
  dc_rate_limit_per_min :: nat

text \<open>The time to live is in nanoseconds.\<close>

definition DashboardConfig_from_env :: "environ \<Rightarrow> DashboardConfig" where
  "DashboardConfig_from_env env =
     \<lparr>dc_enabled = var env ''STATIX_DASHBOARD_ENABLED'' \<notin> {Some ''0'', Some ''false'', Some ''no'', Some ''off''},
      dc_dir = (case var env ''STATIX_DASHBOARD_DIR'' of
                  Some s \<Rightarrow> if s \<noteq> [] then Some (path_of_str s) else None
                | None \<Rightarrow> None),
      dc_cache_ttl = min (read_env_u64 env ''STATIX_DASHBOARD_CACHE_MS'' DEFAULT_CACHE_MS) 60000 * 1000000,
      dc_max_limit = max 10 (min (read_env_usize env ''STATIX_DASHBOARD_MAX_LIMIT'' DEFAULT_MAX_LIMIT) 5000),
      dc_rate_limit_per_min =
        max 10 (min (read_env_u64 env ''STATIX_DASHBOARD_RATE_LIMIT_PER_MIN'' DEFAULT_RATE_LIMIT_PER_MIN) 1000000)\<rparr>"

text \<open>The dashboard with the counters its handlers increment.\<close>

record Dashboard =
  db_config :: DashboardConfig
  db_state_cache :: TtlCache
  db_health_cache :: TtlCache
  db_limiter :: RateLimiter
  db_rate_limited_total :: nat
  db_cache_hits_total :: nat
  db_cache_misses_total :: nat
  db_errors_total :: nat

definition Dashboard_new :: "nat \<Rightarrow> DashboardConfig \<Rightarrow> Dashboard" where
  "Dashboard_new now config =
     (let ttl = dc_cache_ttl config
      in \<lparr>db_config = config, db_state_cache = TtlCache_new ttl CACHE_ENTRIES, db_health_cache = TtlCache_new ttl 4,
          db_limiter = RateLimiter_new now (dc_rate_limit_per_min config) (60 * 1000000000),
          db_rate_limited_total = 0, db_cache_hits_total = 0, db_cache_misses_total = 0, db_errors_total = 0\<rparr>)"

section \<open>Queries\<close>

record StateParams =
  sp_range_secs :: "u64 option"
  sp_sort :: "string option"
  sp_order :: "string option"
  sp_q :: "string option"
  sp_node :: "string option"
  sp_unattributed :: "bool option"
  sp_limit :: "nat option"

record NormalizedQuery =
  nq_range_secs :: u64
  nq_sort :: Sort
  nq_order :: Order
  nq_q :: "string option"
  nq_node :: "string option"
  nq_unattributed :: bool
  nq_limit :: nat

text \<open>Characters of UTF-8 text: a byte that does not continue a character starts one.\<close>

definition char_start :: "char \<Rightarrow> bool" where
  "char_start c \<longleftrightarrow> \<not> utf8_cont (word_of_nat (of_char c))"

definition chars_count :: "string \<Rightarrow> nat" where
  "chars_count s = length (filter char_start s)"

fun chars_take :: "nat \<Rightarrow> string \<Rightarrow> string" where
  "chars_take n [] = []"
| "chars_take n (c # cs) =
     (if char_start c then (case n of 0 \<Rightarrow> [] | Suc m \<Rightarrow> c # chars_take m cs) else c # chars_take n cs)"

record unicode =
  uc_trim :: "string \<Rightarrow> string"
  uc_to_lowercase :: "string \<Rightarrow> string"

definition keep_if :: "('a \<Rightarrow> bool) \<Rightarrow> 'a option \<Rightarrow> 'a option" where
  "keep_if p x = (case x of Some a \<Rightarrow> if p a then Some a else None | None \<Rightarrow> None)"

definition NormalizedQuery_new :: "unicode \<Rightarrow> StateParams \<Rightarrow> nat \<Rightarrow> NormalizedQuery" where
  "NormalizedQuery_new uc p max_limit =
     (let q = map_option (\<lambda>s. if MAX_Q_LEN < chars_count s then chars_take MAX_Q_LEN s else s)
                (keep_if (\<lambda>s. s \<noteq> []) (map_option (\<lambda>s. uc_to_lowercase uc (uc_trim uc s)) (sp_q p)))
      in \<lparr>nq_range_secs = max MIN_RANGE_SECS (min MAX_RANGE_SECS
            (case sp_range_secs p of Some r \<Rightarrow> r | None \<Rightarrow> DEFAULT_RANGE_SECS)),
          nq_sort = Sort_parse (sp_sort p),
          nq_order = Order_parse (sp_order p),
          nq_q = q,
          nq_node = keep_if (\<lambda>s. s \<noteq> [] \<and> chars_count s \<le> MAX_Q_LEN) (map_option (uc_trim uc) (sp_node p)),
          nq_unattributed = (case sp_unattributed p of Some b \<Rightarrow> b | None \<Rightarrow> False),
          nq_limit = max 1 (min max_limit (case sp_limit p of Some l \<Rightarrow> l | None \<Rightarrow> DEFAULT_LIMIT))\<rparr>)"

definition bool_str :: "bool \<Rightarrow> string" where
  "bool_str b = (if b then ''true'' else ''false'')"

definition or_empty :: "string option \<Rightarrow> string" where
  "or_empty x = (case x of Some s \<Rightarrow> s | None \<Rightarrow> [])"

definition cache_key :: "NormalizedQuery \<Rightarrow> string" where
  "cache_key q =
     ''r='' @ dec_str (unat (nq_range_secs q)) @ ''&s='' @ Sort_as_str (nq_sort q) @ ''&o='' @ Order_as_str (nq_order q)
     @ ''&u='' @ bool_str (nq_unattributed q) @ ''&l='' @ dec_str (nq_limit q)
     @ ''&n='' @ or_empty (nq_node q) @ ''&q='' @ or_empty (nq_q q)"

definition is_hot_view :: "NormalizedQuery \<Rightarrow> bool" where
  "is_hot_view q \<longleftrightarrow> nq_q q = None \<and> nq_node q = None \<and> \<not> nq_unattributed q"

definition filter_active :: "NormalizedQuery \<Rightarrow> bool" where
  "filter_active q \<longleftrightarrow> \<not> is_hot_view q"

definition cutoff_ns :: "NormalizedQuery \<Rightarrow> u64 \<Rightarrow> u64" where
  "cutoff_ns q now_ns = sat_sub now_ns (sat_mul (nq_range_secs q) 1000000000)"

section \<open>Rows and responses\<close>

record WorkloadLive =
  wl_node :: string
  wl_cgroup_id :: u64
  wl_namespace :: "string option"
  wl_pod :: "string option"
  wl_container :: "string option"
  wl_k8s_resolved :: bool
  wl_memory_bytes_last :: u64
  wl_memory_bytes_max :: u64
  wl_cpu_usage_usec :: u64
  wl_cpu_millicores :: f64
  wl_exec_count :: u32
  wl_sample_count :: u32
  wl_window_start_ns :: u64
  wl_window_end_ns :: u64

record TotalsRow =
  tr_matched_count :: u64
  tr_memory_bytes :: u64
  tr_exec_count :: u64
  tr_cpu_millicores :: f64
  tr_unattributed_count :: u64
  tr_newest_window_end_ns :: u64

record NodeRow =
  nr_node :: string
  nr_last_seen_ns :: u64

record Totals =
  to_workload_count :: u64
  to_matched_count :: u64
  to_cpu_millicores :: f64
  to_memory_bytes :: u64
  to_exec_count :: u64
  to_exec_rate_per_sec :: f64
  to_unattributed_count :: u64
  to_newest_window_end_ns :: u64

record StateResponse =
  sr_generated_at_ns :: u64
  sr_range_secs :: u64
  sr_sort :: string
  sr_order :: string
  sr_filter_active :: bool
  sr_returned :: nat
  sr_totals :: Totals
  sr_workloads :: "WorkloadLive list"

record GatewayHealth =
  gh_ready :: bool
  gh_mpsc_used :: nat
  gh_mpsc_capacity :: nat

record ChHealth =
  hh_healthy :: bool
  hh_query_ok :: bool

record Freshness =
  fr_newest_window_end_ns :: u64
  fr_age_secs :: f64
  fr_stale :: bool
  fr_has_data :: bool

record NodeHealth =
  nh_node :: string
  nh_last_seen_ns :: u64
  nh_age_secs :: f64
  nh_stale :: bool

record HealthResponse =
  hr_generated_at_ns :: u64
  hr_gateway :: GatewayHealth
  hr_clickhouse :: ChHealth
  hr_freshness :: Freshness
  hr_nodes :: "NodeHealth list"

section \<open>Handlers\<close>

text \<open>The wall clock: \<open>None\<close> is a clock before 1970.\<close>

definition dash_now_ns :: "nat option \<Rightarrow> u64" where
  "dash_now_ns clock = (case clock of Some nanos \<Rightarrow> word_of_nat nanos | None \<Rightarrow> 0)"

record AppState =
  as_gateway :: gateway
  as_dashboard :: Dashboard

text \<open>A response as the handlers build it: status, the headers they set, body.\<close>

type_synonym dash_response = "nat \<times> (string \<times> string) list \<times> string"

definition authorized :: "AppState \<Rightarrow> string option \<Rightarrow> bool" where
  "authorized st auth =
     (case gw_expected_bearer (as_gateway st) of None \<Rightarrow> True | Some expected \<Rightarrow> auth = Some expected)"

definition json_body :: "string \<Rightarrow> bool \<Rightarrow> dash_response" where
  "json_body body cache_hit =
     (200, [(''content-type'', ''application/json''), (''x-statix-cache'', if cache_hit then ''hit'' else ''miss''),
            (''cache-control'', ''no-store'')], body)"

definition guard :: "nat \<Rightarrow> string option \<Rightarrow> AppState \<Rightarrow> dash_response option \<times> AppState" where
  "guard now auth st =
     (let d = as_dashboard st
      in if \<not> dc_enabled (db_config d) then (Some (404, [], ''Dashboard disabled.''), st)
         else if \<not> authorized st auth then (Some (401, [], []), st)
         else case allow now (db_limiter d) of
                (True, rl) \<Rightarrow> (None, st\<lparr>as_dashboard := d\<lparr>db_limiter := rl\<rparr>\<rparr>)
              | (False, rl) \<Rightarrow>
                  (Some (429, [], ''Rate limit exceeded.''),
                   st\<lparr>as_dashboard := d\<lparr>db_limiter := rl, db_rate_limited_total := db_rate_limited_total d + 1\<rparr>\<rparr>))"

text \<open>
  A query is its text and the bound parameters.  The backend answers the three queries of the
  dashboard, and the serialiser the two responses, or fails with a message.
\<close>

datatype ch_param = PU64 u64 | PStr string

type_synonym ch_query = "string \<times> (string \<times> ch_param) list"

record dash_backend =
  bk_rows :: "ch_query \<Rightarrow> string + WorkloadLive list"
  bk_totals :: "ch_query \<Rightarrow> string + TotalsRow list"
  bk_nodes :: "ch_query \<Rightarrow> string + NodeRow list"
  bk_state_json :: "StateResponse \<Rightarrow> string + string"
  bk_health_json :: "HealthResponse \<Rightarrow> string + string"

definition filter_params :: "NormalizedQuery \<Rightarrow> (string \<times> ch_param) list" where
  "filter_params q =
     (case nq_node q of Some node \<Rightarrow> [(''node'', PStr node)] | None \<Rightarrow> [])
     @ (case nq_q q of Some t \<Rightarrow> [(''q'', PStr t)] | None \<Rightarrow> [])"

definition rows_query :: "NormalizedQuery \<Rightarrow> u64 \<Rightarrow> ch_query" where
  "rows_query q cutoff =
     (sql_rows (nq_sort q) (nq_order q) (nq_q q \<noteq> None) (nq_unattributed q) (nq_node q \<noteq> None),
      [(''cutoff_ns'', PU64 cutoff), (''limit'', PU64 (word_of_nat (nq_limit q)))] @ filter_params q)"

definition totals_query :: "NormalizedQuery \<Rightarrow> u64 \<Rightarrow> ch_query" where
  "totals_query q cutoff =
     (sql_totals (nq_q q \<noteq> None) (nq_unattributed q) (nq_node q \<noteq> None), (''cutoff_ns'', PU64 cutoff) # filter_params q)"

definition default_totals :: TotalsRow where
  "default_totals = \<lparr>tr_matched_count = 0, tr_memory_bytes = 0, tr_exec_count = 0, tr_cpu_millicores = F64 False 0 0,
     tr_unattributed_count = 0, tr_newest_window_end_ns = 0\<rparr>"

definition state_response :: "NormalizedQuery \<Rightarrow> u64 \<Rightarrow> WorkloadLive list \<Rightarrow> TotalsRow \<Rightarrow> StateResponse" where
  "state_response q generated_at_ns workloads t =
     \<lparr>sr_generated_at_ns = generated_at_ns, sr_range_secs = nq_range_secs q, sr_sort = Sort_as_str (nq_sort q),
      sr_order = Order_as_str (nq_order q), sr_filter_active = filter_active q, sr_returned = length workloads,
      sr_totals =
        \<lparr>to_workload_count = tr_matched_count t, to_matched_count = tr_matched_count t,
         to_cpu_millicores = tr_cpu_millicores t, to_memory_bytes = tr_memory_bytes t, to_exec_count = tr_exec_count t,
         to_exec_rate_per_sec =
           (if 0 < nq_range_secs q then f64_div (f64_of_u64 (tr_exec_count t)) (f64_of_u64 (nq_range_secs q))
            else F64 False 0 0),
         to_unattributed_count = tr_unattributed_count t, to_newest_window_end_ns = tr_newest_window_end_ns t\<rparr>,
      sr_workloads = workloads\<rparr>"

definition build_state :: "dash_backend \<Rightarrow> nat option \<Rightarrow> NormalizedQuery \<Rightarrow> GatewayError + string" where
  "build_state bk clock q =
     (let generated_at_ns = dash_now_ns clock; cutoff = cutoff_ns q generated_at_ns
      in case bk_rows bk (rows_query q cutoff) of
           Inl e \<Rightarrow> Inl (ClickHouse (''dashboard rows: '' @ e))
         | Inr workloads \<Rightarrow>
             (case bk_totals bk (totals_query q cutoff) of
                Inl e \<Rightarrow> Inl (ClickHouse (''dashboard totals: '' @ e))
              | Inr totals \<Rightarrow>
                  let t = (case totals of t # _ \<Rightarrow> t | [] \<Rightarrow> default_totals)
                  in case bk_state_json bk (state_response q generated_at_ns workloads t) of
                       Inr body \<Rightarrow> Inr body
                     | Inl e \<Rightarrow> Inl (ClickHouse (''dashboard serialize: '' @ e))))"

text \<open>
  The handler of the table.  \<open>state_lookup\<close> is the part up to the await of the queries and
  \<open>state_store\<close> the part after it, between which other requests run; \<open>state_handler\<close> is a request
  that runs alone.
\<close>

definition state_lookup ::
  "unicode \<Rightarrow> nat \<Rightarrow> string option \<Rightarrow> StateParams \<Rightarrow> AppState \<Rightarrow> (dash_response + NormalizedQuery) \<times> AppState" where
  "state_lookup uc now auth params st =
     (case guard now auth st of
        (Some reject, st1) \<Rightarrow> (Inl reject, st1)
      | (None, st1) \<Rightarrow>
          let d = as_dashboard st1;
              q = NormalizedQuery_new uc params (dc_max_limit (db_config d))
          in case cache_get now (cache_key q) (db_state_cache d) of
               (Some body, c) \<Rightarrow>
                 (Inl (json_body body True),
                  st1\<lparr>as_dashboard := d\<lparr>db_state_cache := c, db_cache_hits_total := db_cache_hits_total d + 1\<rparr>\<rparr>)
             | (None, c) \<Rightarrow>
                 (Inr q, st1\<lparr>as_dashboard := d\<lparr>db_state_cache := c, db_cache_misses_total := db_cache_misses_total d + 1\<rparr>\<rparr>))"

definition state_store :: "nat \<Rightarrow> NormalizedQuery \<Rightarrow> GatewayError + string \<Rightarrow> AppState \<Rightarrow> dash_response \<times> AppState" where
  "state_store now q result st =
     (let d = as_dashboard st
      in case result of
           Inr body \<Rightarrow>
             (json_body body False,
              st\<lparr>as_dashboard := d\<lparr>db_state_cache := cache_put now (cache_key q) body (is_hot_view q) (db_state_cache d)\<rparr>\<rparr>)
         | Inl e \<Rightarrow>
             ((503, [], ''ClickHouse query failed; see /api/v1/dashboard/health.''),
              st\<lparr>as_dashboard := d\<lparr>db_errors_total := db_errors_total d + 1\<rparr>\<rparr>))"

definition state_handler ::
  "unicode \<Rightarrow> dash_backend \<Rightarrow> nat \<Rightarrow> nat option \<Rightarrow> string option \<Rightarrow> StateParams \<Rightarrow> AppState \<Rightarrow> dash_response \<times> AppState" where
  "state_handler uc bk now clock auth params st =
     (case state_lookup uc now auth params st of
        (Inl resp, st1) \<Rightarrow> (resp, st1)
      | (Inr q, st1) \<Rightarrow> state_store now q (build_state bk clock q) st1)"

definition age_secs :: "u64 \<Rightarrow> u64 \<Rightarrow> f64" where
  "age_secs generated_at_ns ts =
     (if ts = 0 then F64 False 0 0 else f64_div (f64_of_u64 (sat_sub generated_at_ns ts)) (f64_of_u64 1000000000))"

definition is_stale :: "f64 \<Rightarrow> bool" where
  "is_stale age \<longleftrightarrow> f64_gt age (f64_of_u64 (word_of_nat NODE_STALE_SECS))"

definition health_response :: "AppState \<Rightarrow> u64 \<Rightarrow> NodeRow list \<Rightarrow> bool \<Rightarrow> HealthResponse" where
  "health_response st generated_at_ns nodes query_ok =
     (let w = gw_writer (as_gateway st);
          slots = gw_channel_capacity (as_gateway st);
          newest = fold max (map nr_last_seen_ns nodes) 0;
          age = age_secs generated_at_ns
      in \<lparr>hr_generated_at_ns = generated_at_ns,
          hr_gateway = \<lparr>gh_ready = (\<not> ch_closed (cw_rx w) \<and> cw_healthy w), gh_mpsc_used = slots - capacity (cw_rx w),
                        gh_mpsc_capacity = slots\<rparr>,
          hr_clickhouse = \<lparr>hh_healthy = cw_healthy w, hh_query_ok = query_ok\<rparr>,
          hr_freshness = \<lparr>fr_newest_window_end_ns = newest, fr_age_secs = age newest,
                          fr_stale = (newest \<noteq> 0 \<and> is_stale (age newest)), fr_has_data = (newest \<noteq> 0)\<rparr>,
          hr_nodes = map (\<lambda>n. \<lparr>nh_node = nr_node n, nh_last_seen_ns = nr_last_seen_ns n,
                               nh_age_secs = age (nr_last_seen_ns n), nh_stale = is_stale (age (nr_last_seen_ns n))\<rparr>) nodes\<rparr>)"

definition nodes_query :: "u64 \<Rightarrow> ch_query" where
  "nodes_query generated_at_ns =
     (sql_nodes, [(''cutoff_ns'', PU64 (sat_sub generated_at_ns (MAX_RANGE_SECS * 1000000000)))])"

definition serialize_failed :: string where
  "serialize_failed =
     ''{'' @ [CHR 0x22] @ ''error'' @ [CHR 0x22] @ '':'' @ [CHR 0x22] @ ''serialize failed'' @ [CHR 0x22] @ ''}''"

definition build_health :: "dash_backend \<Rightarrow> nat option \<Rightarrow> AppState \<Rightarrow> string" where
  "build_health bk clock st =
     (let generated_at_ns = dash_now_ns clock;
          (nodes, query_ok) = (case bk_nodes bk (nodes_query generated_at_ns) of
                                 Inr rows \<Rightarrow> (rows, True) | Inl e \<Rightarrow> ([], False))
      in case bk_health_json bk (health_response st generated_at_ns nodes query_ok) of
           Inr body \<Rightarrow> body
         | Inl e \<Rightarrow> serialize_failed)"

text \<open>The handler of the health report, again in the parts before and after the await.\<close>

definition health_lookup :: "nat \<Rightarrow> string option \<Rightarrow> AppState \<Rightarrow> dash_response option \<times> AppState" where
  "health_lookup now auth st =
     (case guard now auth st of
        (Some reject, st1) \<Rightarrow> (Some reject, st1)
      | (None, st1) \<Rightarrow>
          let d = as_dashboard st1
          in case cache_get now ''health'' (db_health_cache d) of
               (Some body, c) \<Rightarrow> (Some (json_body body True), st1\<lparr>as_dashboard := d\<lparr>db_health_cache := c\<rparr>\<rparr>)
             | (None, c) \<Rightarrow> (None, st1\<lparr>as_dashboard := d\<lparr>db_health_cache := c\<rparr>\<rparr>))"

definition health_store :: "nat \<Rightarrow> string \<Rightarrow> AppState \<Rightarrow> dash_response \<times> AppState" where
  "health_store now body st =
     (let d = as_dashboard st
      in (json_body body False,
          st\<lparr>as_dashboard := d\<lparr>db_health_cache := cache_put now ''health'' body True (db_health_cache d)\<rparr>\<rparr>))"

definition health_handler ::
  "dash_backend \<Rightarrow> nat \<Rightarrow> nat option \<Rightarrow> string option \<Rightarrow> AppState \<Rightarrow> dash_response \<times> AppState" where
  "health_handler bk now clock auth st =
     (case health_lookup now auth st of
        (Some resp, st1) \<Rightarrow> (resp, st1)
      | (None, st1) \<Rightarrow> health_store now (build_health bk clock st1) st1)"

text \<open>\<open>read_to_string\<close> is the file system, \<open>embedded\<close> the page compiled into the binary.\<close>

definition page_handler :: "(pathbuf \<Rightarrow> string + string) \<Rightarrow> string \<Rightarrow> AppState \<Rightarrow> dash_response" where
  "page_handler read_to_string embedded st =
     (let cfg = db_config (as_dashboard st)
      in if \<not> dc_enabled cfg then (404, [], ''Dashboard disabled.'')
         else
           let html = (case dc_dir cfg of
                         Some dir \<Rightarrow> (case read_to_string (path_join dir (path_of_str ''dashboard.html'')) of
                                        Inr s \<Rightarrow> s | Inl e \<Rightarrow> embedded)
                       | None \<Rightarrow> embedded)
           in (200, [(''content-type'', ''text/html; charset=utf-8'')], html))"

section \<open>Normalisation\<close>

lemma chars_take_nonempty: "s \<noteq> [] \<Longrightarrow> 0 < n \<Longrightarrow> chars_take n s \<noteq> []"
  by (cases s; cases n) auto

lemma chars_count_take: "chars_count (chars_take n s) \<le> n"
  by (induction n s rule: chars_take.induct) (auto simp: chars_count_def split: nat.splits)

definition nq_ok :: "nat \<Rightarrow> NormalizedQuery \<Rightarrow> bool" where
  "nq_ok max_limit q \<longleftrightarrow>
     60 \<le> unat (nq_range_secs q) \<and> unat (nq_range_secs q) \<le> 3600 \<and> 1 \<le> nq_limit q \<and> nq_limit q \<le> max_limit
     \<and> (\<forall>t. nq_q q = Some t \<longrightarrow> t \<noteq> [] \<and> chars_count t \<le> 64)
     \<and> (\<forall>n. nq_node q = Some n \<longrightarrow> n \<noteq> [] \<and> chars_count n \<le> 64)"

lemma clamp_range: "60 \<le> unat (max 60 (min 3600 (r :: u64))) \<and> unat (max 60 (min 3600 r)) \<le> 3600"
  by (auto simp: max_def min_def word_le_nat_alt)

lemma NormalizedQuery_new_ok: "1 \<le> max_limit \<Longrightarrow> nq_ok max_limit (NormalizedQuery_new uc p max_limit)"
  using clamp_range chars_count_take [of 64] chars_take_nonempty [of _ 64]
  by (auto simp: nq_ok_def NormalizedQuery_new_def Let_def keep_if_def MIN_RANGE_SECS_def MAX_RANGE_SECS_def MAX_Q_LEN_def
      split: option.splits if_splits)

section \<open>Cache keys\<close>

lemma amp_split: "c \<notin> set x \<Longrightarrow> c \<notin> set y \<Longrightarrow> x @ c # r = y @ c # r' \<longleftrightarrow> x = y \<and> r = r'"
  by (induction x arbitrary: y; case_tac y) auto

lemma amp_free:
  "CHR ''&'' \<notin> set (dec_str n)" "CHR ''&'' \<notin> set (Sort_as_str s)" "CHR ''&'' \<notin> set (Order_as_str x)"
  "CHR ''&'' \<notin> set (bool_str b)"
  by (simp add: dec_str_notin, cases s, simp_all) (cases x, simp_all add: bool_str_def)

lemma text_names_inject [simp]:
  "dec_str m = dec_str n \<longleftrightarrow> m = n" "Sort_as_str s = Sort_as_str s' \<longleftrightarrow> s = s'"
  "Order_as_str x = Order_as_str x' \<longleftrightarrow> x = x'" "bool_str b = bool_str b' \<longleftrightarrow> b = b'"
proof -
  show "dec_str m = dec_str n \<longleftrightarrow> m = n" by (metis digits_val_dec_str option.inject)
  show "Sort_as_str s = Sort_as_str s' \<longleftrightarrow> s = s'" by (metis Sort_parse_as_str)
  show "Order_as_str x = Order_as_str x' \<longleftrightarrow> x = x'" by (metis Order_parse_as_str)
  show "bool_str b = bool_str b' \<longleftrightarrow> b = b'" by (cases b; cases b') (simp_all add: bool_str_def)
qed

lemma or_empty_inject: "a \<noteq> Some [] \<Longrightarrow> b \<noteq> Some [] \<Longrightarrow> or_empty a = or_empty b \<longleftrightarrow> a = b"
  by (cases a; cases b) (auto simp: or_empty_def)

lemma cache_key_inject:
  assumes "CHR ''&'' \<notin> set (or_empty (nq_node q))" and "CHR ''&'' \<notin> set (or_empty (nq_node q'))"
    and "nq_ok l q" and "nq_ok l q'"
  shows "cache_key q = cache_key q' \<longleftrightarrow> q = q'"
proof
  assume k: "cache_key q = cache_key q'"
  have ne: "nq_q q \<noteq> Some []" "nq_q q' \<noteq> Some []" "nq_node q \<noteq> Some []" "nq_node q' \<noteq> Some []"
    using assms(3,4) by (auto simp: nq_ok_def)
  from k have "nq_range_secs q = nq_range_secs q' \<and> nq_sort q = nq_sort q' \<and> nq_order q = nq_order q'
      \<and> nq_unattributed q = nq_unattributed q' \<and> nq_limit q = nq_limit q'
      \<and> or_empty (nq_node q) = or_empty (nq_node q') \<and> or_empty (nq_q q) = or_empty (nq_q q')"
    using assms(1,2) by (simp add: cache_key_def amp_split amp_free flip: word_unat_eq_iff)
  with ne show "q = q'" by (simp add: or_empty_inject)
qed simp

section \<open>Handlers\<close>

definition passes :: "nat \<Rightarrow> string option \<Rightarrow> AppState \<Rightarrow> bool" where
  "passes now auth st \<longleftrightarrow>
     dc_enabled (db_config (as_dashboard st)) \<and> authorized st auth \<and> fst (allow now (db_limiter (as_dashboard st)))"

text \<open>
  The contract of the guard, in the order of the checks: the status a request is refused with, if any.
\<close>

definition refusal :: "nat \<Rightarrow> string option \<Rightarrow> AppState \<Rightarrow> nat option" where
  "refusal now auth st =
     (if \<not> dc_enabled (db_config (as_dashboard st)) then Some 404
      else if \<exists>t. gw_expected_bearer (as_gateway st) = Some t \<and> auth \<noteq> Some t then Some 401
      else if \<not> fst (allow now (db_limiter (as_dashboard st))) then Some 429
      else None)"

lemma refusal_None: "refusal now auth st = None \<longleftrightarrow> passes now auth st"
  by (auto simp: refusal_def passes_def authorized_def split: option.splits)

lemma refusal_status: "refusal now auth st = Some n \<Longrightarrow> n \<in> {401, 404, 429}"
  by (auto simp: refusal_def split: if_splits)

lemma refusal_authorized:
  "refusal now auth st =
     (if \<not> dc_enabled (db_config (as_dashboard st)) then Some 404
      else if \<not> authorized st auth then Some 401
      else if \<not> fst (allow now (db_limiter (as_dashboard st))) then Some 429
      else None)"
  by (simp add: refusal_def authorized_def split: option.splits)

lemma guard_refusal:
  assumes "guard now auth st = (r, st1)"
  shows "map_option fst r = refusal now auth st"
proof (cases "allow now (db_limiter (as_dashboard st))")
  case (Pair ok rl)
  then show ?thesis
    using assms by (cases ok) (auto simp: guard_def refusal_authorized Let_def split: if_splits)
qed

lemma guard_spec:
  assumes "guard now auth st = (r, st1)"
  shows "r = None \<longleftrightarrow> passes now auth st" and "r = Some resp \<Longrightarrow> fst resp \<in> {401, 404, 429}"
    and "as_gateway st1 = as_gateway st" and "db_state_cache (as_dashboard st1) = db_state_cache (as_dashboard st)"
    and "db_config (as_dashboard st1) = db_config (as_dashboard st)"
    and "db_health_cache (as_dashboard st1) = db_health_cache (as_dashboard st)"
  using assms by (auto simp: guard_def passes_def Let_def split: if_splits prod.splits bool.splits)

lemma health_handler_spec:
  assumes "hit = fst (cache_get now ''health'' (db_health_cache (as_dashboard st)))"
  shows "fst (fst (health_handler bk now clock auth st)) = (case refusal now auth st of Some status \<Rightarrow> status | None \<Rightarrow> 200)
     \<and> (refusal now auth st = None \<longrightarrow>
          snd (snd (fst (health_handler bk now clock auth st))) = (case hit of Some body \<Rightarrow> body | None \<Rightarrow> build_health bk clock st))
     \<and> as_gateway (snd (health_handler bk now clock auth st)) = as_gateway st"
proof -
  obtain r st1 where g: "guard now auth st = (r, st1)" by fastforce
  note s = guard_spec [OF g] and rf = guard_refusal [OF g, symmetric]
  show ?thesis
  proof (cases r)
    case None
    obtain h c where h: "cache_get now ''health'' (db_health_cache (as_dashboard st)) = (h, c)" by fastforce
    have b: "build_health bk clock (st1\<lparr>as_dashboard := d\<rparr>) = build_health bk clock st" for d
      using s(3) by (simp add: build_health_def health_response_def)
    have rf: "refusal now auth st = None" using rf None by simp
    have "health_handler bk now clock auth st = (case h of
        Some body \<Rightarrow> (json_body body True, st1\<lparr>as_dashboard := (as_dashboard st1)\<lparr>db_health_cache := c\<rparr>\<rparr>)
      | None \<Rightarrow> health_store now (build_health bk clock st) (st1\<lparr>as_dashboard := (as_dashboard st1)\<lparr>db_health_cache := c\<rparr>\<rparr>))"
      using None s(6) h by (cases h) (simp_all add: health_handler_def health_lookup_def g Let_def b)
    with s(3) h rf show ?thesis
      unfolding assms by (cases h) (simp_all add: health_store_def json_body_def Let_def)
  next
    case (Some resp)
    then show ?thesis using s(3) rf by (simp add: health_handler_def health_lookup_def g)
  qed
qed

lemma state_handler_reject:
  "refusal now auth st = Some status \<Longrightarrow> \<exists>resp st1. state_handler uc bk now clock auth params st = (resp, st1)
     \<and> fst resp = status \<and> as_gateway st1 = as_gateway st
     \<and> db_state_cache (as_dashboard st1) = db_state_cache (as_dashboard st)"
proof -
  assume n: "refusal now auth st = Some status"
  obtain r st1 where g: "guard now auth st = (r, st1)" by fastforce
  note s = guard_spec [OF g]
  from n guard_refusal [OF g] obtain resp where r: "r = Some resp" "fst resp = status" by auto
  show ?thesis using r s(3,4) by (simp add: state_handler_def state_lookup_def g)
qed

lemma state_handler_hit:
  assumes "passes now auth st" and "q = NormalizedQuery_new uc params (dc_max_limit (db_config (as_dashboard st)))"
    and "cache_get now (cache_key q) (db_state_cache (as_dashboard st)) = (Some body, c)"
  shows "\<exists>st1. state_handler uc bk now clock auth params st = (json_body body True, st1)
     \<and> as_gateway st1 = as_gateway st \<and> db_state_cache (as_dashboard st1) = c"
proof -
  obtain r st1 where g: "guard now auth st = (r, st1)" by fastforce
  note s = guard_spec [OF g]
  have "r = None" using s(1) assms(1) by simp
  then show ?thesis using s(3-5) assms(2,3) by (simp add: state_handler_def state_lookup_def g Let_def)
qed

lemma state_handler_miss:
  assumes "passes now auth st" and "q = NormalizedQuery_new uc params (dc_max_limit (db_config (as_dashboard st)))"
    and "cache_get now (cache_key q) (db_state_cache (as_dashboard st)) = (None, c)"
  shows "\<exists>resp st1. state_handler uc bk now clock auth params st = (resp, st1) \<and> as_gateway st1 = as_gateway st
     \<and> (case build_state bk clock q of
          Inr body \<Rightarrow> resp = json_body body False
            \<and> db_state_cache (as_dashboard st1) = cache_put now (cache_key q) body (is_hot_view q) c
        | Inl e \<Rightarrow> fst resp = 503 \<and> db_state_cache (as_dashboard st1) = c)"
proof -
  obtain r st1 where g: "guard now auth st = (r, st1)" by fastforce
  note s = guard_spec [OF g]
  have "r = None" using s(1) assms(1) by simp
  then show ?thesis using s(3-5) assms(2,3)
    by (cases "build_state bk clock q") (simp_all add: state_handler_def state_lookup_def state_store_def g Let_def)
qed

lemma cutoff_ns_exact:
  "nq_ok l q \<Longrightarrow> unat (cutoff_ns q now) = unat now - unat (nq_range_secs q) * 1000000000"
  by (auto simp: cutoff_ns_def sat_simps nq_ok_def)

lemma is_stale_iff: "is_stale (age_secs now ts) \<longleftrightarrow> ts \<noteq> 0 \<and> 60000000000 < unat now - unat ts"
proof -
  define d where "d = sat_sub now ts"
  have d: "unat d = unat now - unat ts" by (simp add: d_def sat_simps)
  have s: "f64_nat (f64_of_u64 (word_of_nat NODE_STALE_SECS)) 60"
    using f64_of_u64_exact [of 60] by (simp add: NODE_STALE_SECS_def)
  have g: "f64_nat (f64_of_u64 1000000000) 1000000000" using f64_of_u64_exact [of 1000000000] by simp
  have "f64_gt (f64_div (f64_of_u64 d) (f64_of_u64 1000000000)) (f64_of_u64 (word_of_nat NODE_STALE_SECS)) \<longleftrightarrow> 60000000000 < unat d"
  proof (cases "60000000000 < unat d")
    case True
    have "f64_at_least (real 60000000001) (f64_of_u64 d)"
      using f64_round_above [of "unat d" 1 60000000001 0] True by (simp add: f64_of_u64_def)
    from f64_div_above [OF this g, of 65970697666561 40]
    have "f64_at_least (65970697666561 / 2 ^ 40) (f64_div (f64_of_u64 d) (f64_of_u64 1000000000))" by simp
    with True show ?thesis using f64_gt_nat(1) [OF s] by simp
  next
    case False
    have "f64_at_most (real 60000000000) (f64_of_u64 d)"
      using f64_round_below [of 1 60000000000 0 "unat d"] False by (simp add: f64_of_u64_def)
    from f64_div_below [OF this g, of 60 0]
    have "f64_at_most (real 60) (f64_div (f64_of_u64 d) (f64_of_u64 1000000000))" by simp
    with False show ?thesis using f64_gt_nat(2) [OF s] by simp
  qed
  moreover have "\<not> is_stale (F64 False 0 0)"
    unfolding is_stale_def by (rule f64_gt_nat(2) [OF s]) (simp add: f64_val_def)
  ultimately show ?thesis by (simp add: is_stale_def age_secs_def d_def [symmetric] d)
qed

section \<open>Properties\<close>

text \<open>
  C25: The key of the dashboard cache identifies the question.  Two requests whose node filters
  contain no ampersand have the same key exactly if they normalise to the same query; the
  lookback is 60 to 3600 seconds, the row limit 1 to the configured maximum, and the texts have
  at most 64 characters.
\<close>

theorem cache_key_identifies_question:
  assumes "1 \<le> max_limit" and "q = NormalizedQuery_new uc p max_limit" and "q' = NormalizedQuery_new uc p' max_limit"
    and "CHR ''&'' \<notin> set (or_empty (nq_node q))" and "CHR ''&'' \<notin> set (or_empty (nq_node q'))"
  shows "(cache_key q = cache_key q' \<longleftrightarrow> q = q') \<and> nq_ok max_limit q
    \<and> unat (cutoff_ns q now) = unat now - unat (nq_range_secs q) * 1000000000"
proof -
  have "nq_ok max_limit q" "nq_ok max_limit q'" using NormalizedQuery_new_ok [OF assms(1)] assms(2,3) by simp_all
  then show ?thesis using cache_key_inject [OF assms(4,5)] cutoff_ns_exact by blast
qed

definition ascii_unicode :: unicode where
  "ascii_unicode = \<lparr>uc_trim = trim, uc_to_lowercase = to_ascii_lowercase\<rparr>"

definition plain_params :: StateParams where
  "plain_params = \<lparr>sp_range_secs = None, sp_sort = None, sp_order = None, sp_q = None, sp_node = None,
     sp_unattributed = None, sp_limit = None\<rparr>"

theorem cache_key_identifies_question_witness:
  "cache_key (NormalizedQuery_new ascii_unicode plain_params 500)
   \<noteq> cache_key (NormalizedQuery_new ascii_unicode (plain_params\<lparr>sp_node := Some ''a''\<rparr>) 500)"
proof -
  let ?q = "NormalizedQuery_new ascii_unicode plain_params 500"
  let ?q' = "NormalizedQuery_new ascii_unicode (plain_params\<lparr>sp_node := Some ''a''\<rparr>) 500"
  have t: "trim ''a'' = ''a''" by code_simp
  have n: "nq_node ?q = None" "nq_node ?q' = Some ''a''"
    by (simp_all add: NormalizedQuery_new_def plain_params_def ascii_unicode_def keep_if_def t chars_count_def MAX_Q_LEN_def Let_def)
  then have "?q \<noteq> ?q'" by auto
  then show ?thesis
    using cache_key_identifies_question [of 500 ?q ascii_unicode plain_params ?q' "plain_params\<lparr>sp_node := Some ''a''\<rparr>"] n
    by (simp add: or_empty_def)
qed

text \<open>Without the restriction on the node filter two different questions share a key.\<close>

lemma cache_key_collision:
  "cache_key (NormalizedQuery_new ascii_unicode (plain_params\<lparr>sp_node := Some ''a&q=b''\<rparr>) 500)
   = cache_key (NormalizedQuery_new ascii_unicode (plain_params\<lparr>sp_node := Some ''a'', sp_q := Some ''b&q=''\<rparr>) 500)"
proof -
  have t: "trim ''a&q=b'' = ''a&q=b''" "trim ''a'' = ''a''" "trim ''b&q='' = ''b&q=''"
    "to_ascii_lowercase ''b&q='' = ''b&q=''" by code_simp+
  have c: "chars_count ''a&q=b'' \<le> 64" "chars_count ''a'' \<le> 64" "\<not> 64 < chars_count ''b&q=''"
    using length_filter_le [of char_start] by (simp_all add: chars_count_def)
  show ?thesis
    by (simp add: cache_key_def NormalizedQuery_new_def plain_params_def ascii_unicode_def keep_if_def t c or_empty_def
        MAX_Q_LEN_def Let_def)
qed

text \<open>
  C31: Every query of the dashboard binds exactly the parameters its text asks for, each once,
  for every combination of sort, order and filters: text of the request reaches ClickHouse only
  as the value of a bound parameter.
\<close>

theorem queries_bind_their_parameters:
  "set (placeholders (fst (rows_query q c))) = fst ` set (snd (rows_query q c)) \<and> distinct (map fst (snd (rows_query q c)))
   \<and> distinct (placeholders (fst (rows_query q c)))
   \<and> set (placeholders (fst (totals_query q c))) = fst ` set (snd (totals_query q c)) \<and> distinct (map fst (snd (totals_query q c)))
   \<and> distinct (placeholders (fst (totals_query q c)))
   \<and> placeholders (fst (nodes_query c)) = map fst (snd (nodes_query c))"
  by (cases "nq_q q"; cases "nq_node q")
     (simp_all add: rows_query_def totals_query_def nodes_query_def filter_params_def sql_rows_placeholders
        sql_totals_placeholders sql_nodes_placeholders insert_commute)

text \<open>
  C24: The answers of the dashboard.  A request for the table or the health report is refused with 404
  if the dashboard is disabled, else with 401 if a token is configured and the request has
  another one or none, else with 429 if the cap is reached, and for no other reason.  Past these checks
  the table is answered with 503 exactly if the cache had no answer and the queries failed, and else
  with 200 and the cached or the queried body; an error is never cached, and a 200 answers the next
  equal request at that time.  The health report is always answered with 200, whatever ClickHouse
  does, and its body is the cached one or a new report.  The page is served without a token or a cap if the dashboard is enabled,
  from the configured directory if it can be read and else as compiled in.  None touches the ingest path.
\<close>

theorem dashboard_answers:
  assumes "ttl_cache_ok (db_state_cache (as_dashboard st))"
    and "state_handler uc bk now clock auth params st = (resp, st')"
    and "q = NormalizedQuery_new uc params (dc_max_limit (db_config (as_dashboard st)))"
    and "hit = fst (cache_get now (cache_key q) (db_state_cache (as_dashboard st)))"
    and "health_handler bk now clock auth st = (health, st'')"
    and "page_handler read_to_string embedded st = page"
  shows "fst resp = (case refusal now auth st of
             Some status \<Rightarrow> status
           | None \<Rightarrow> if hit = None \<and> (\<exists>e. build_state bk clock q = Inl e) then 503 else 200)
    \<and> (if fst resp = 200
        then fst (cache_get now (cache_key q) (db_state_cache (as_dashboard st'))) = Some (snd (snd resp))
          \<and> (hit = Some (snd (snd resp)) \<or> hit = None \<and> build_state bk clock q = Inr (snd (snd resp)))
        else tc_inner (db_state_cache (as_dashboard st')) = tc_inner (db_state_cache (as_dashboard st)))
    \<and> as_gateway st' = as_gateway st
    \<and> fst health = (case refusal now auth st of Some status \<Rightarrow> status | None \<Rightarrow> 200)
    \<and> (refusal now auth st = None \<longrightarrow> snd (snd health) =
          (case fst (cache_get now ''health'' (db_health_cache (as_dashboard st))) of
             Some body \<Rightarrow> body | None \<Rightarrow> build_health bk clock st))
    \<and> as_gateway st'' = as_gateway st
    \<and> fst page = (if dc_enabled (db_config (as_dashboard st)) then 200 else 404)
    \<and> (dc_enabled (db_config (as_dashboard st)) \<longrightarrow> snd (snd page) =
          (case dc_dir (db_config (as_dashboard st)) of
             None \<Rightarrow> embedded
           | Some dir \<Rightarrow> (case read_to_string (path_join dir (path_of_str ''dashboard.html'')) of Inr html \<Rightarrow> html | Inl _ \<Rightarrow> embedded)))"
proof -
  have page: "fst page = (if dc_enabled (db_config (as_dashboard st)) then 200 else 404)"
    "dc_enabled (db_config (as_dashboard st)) \<Longrightarrow> snd (snd page) =
          (case dc_dir (db_config (as_dashboard st)) of
             None \<Rightarrow> embedded
           | Some dir \<Rightarrow> (case read_to_string (path_join dir (path_of_str ''dashboard.html'')) of Inr html \<Rightarrow> html | Inl _ \<Rightarrow> embedded))"
    using assms(6) by (auto simp: page_handler_def Let_def)
  note rest = health_handler_spec [OF refl, of bk now clock auth st, unfolded assms(5) fst_conv snd_conv] page
  show ?thesis
  proof (cases "refusal now auth st")
    case (Some status)
    then have "status \<noteq> 200" using refusal_status [OF Some] by auto
    with state_handler_reject [OF Some, of uc bk clock params] Some assms(2) rest show ?thesis by simp
  next
    case ok: None
    then have True: "passes now auth st" by (simp add: refusal_None)
    obtain h c where g: "cache_get now (cache_key q) (db_state_cache (as_dashboard st)) = (h, c)" by fastforce
    have c: "ttl_cache_ok c" "tc_inner c = tc_inner (db_state_cache (as_dashboard st))"
      using assms(1) cache_get_fields [of now "cache_key q" "db_state_cache (as_dashboard st)"] g by (simp_all add: ttl_cache_ok_def)
    note served = ttl.miss_then_store [OF assms(1) g]
    show ?thesis
    proof (cases h)
      case (Some body)
      then show ?thesis
        using state_handler_hit [OF True assms(3), of body c bk clock] assms(2,4) ok g served rest by (auto simp: json_body_def)
    next
      case None
      then show ?thesis
        using state_handler_miss [OF True assms(3), of c bk clock] assms(2,4) ok g c served rest
        by (cases "build_state bk clock q") (auto simp: json_body_def)
    qed
  qed
qed

definition sample_dash_config :: DashboardConfig where
  "sample_dash_config = \<lparr>dc_enabled = True, dc_dir = None, dc_cache_ttl = 2000000000, dc_max_limit = 500, dc_rate_limit_per_min = 600\<rparr>"

definition sample_app :: AppState where
  "sample_app = \<lparr>as_gateway = gateway_start no_env sample_config, as_dashboard = Dashboard_new 0 sample_dash_config\<rparr>"

definition down_backend :: dash_backend where
  "down_backend = \<lparr>bk_rows = (\<lambda>_. Inl ''down''), bk_totals = (\<lambda>_. Inl ''down''), bk_nodes = (\<lambda>_. Inl ''down''),
     bk_state_json = (\<lambda>_. Inr ''{}''), bk_health_json = (\<lambda>_. Inr ''{}'')\<rparr>"

theorem dashboard_answers_witness:
  "fst (fst (state_handler ascii_unicode down_backend 5 (Some 9) None plain_params sample_app)) = 503
   \<and> fst (fst (health_handler down_backend 5 (Some 9) None sample_app)) = 200
   \<and> fst (page_handler (\<lambda>_. Inl []) ''page'' sample_app) = 200"
proof -
  have c: "ttl_cache_ok (db_state_cache (as_dashboard sample_app))"
    by (simp add: sample_app_def Dashboard_new_def TtlCache_new_def ttl_cache_ok_def Let_def)
  have "passes 5 None sample_app" and e: "dc_enabled (db_config (as_dashboard sample_app))"
    by (simp_all add: passes_def sample_app_def Dashboard_new_def sample_dash_config_def authorized_def gateway_start_def
        sample_config_def allow_def RateLimiter_new_def Let_def)
  then have p: "refusal 5 None sample_app = None" by (simp add: refusal_None)
  have h: "fst (cache_get 5 key (db_state_cache (as_dashboard sample_app))) = None" for key
    by (simp add: sample_app_def Dashboard_new_def TtlCache_new_def cache_get_def Let_def)
  have b: "\<exists>e. build_state down_backend (Some 9) q = Inl e" for q
    by (simp add: build_state_def down_backend_def Let_def)
  note d = dashboard_answers [OF c surjective_pairing refl refl surjective_pairing refl,
      of ascii_unicode down_backend 5 "Some 9" None plain_params "\<lambda>_. Inl []" "''page''"]
  show ?thesis using d p h b e by simp
qed

text \<open>
  C26: Staleness is exact.  Although the health report computes ages in floating point, a node is
  stale exactly if its last window ended more than 60 seconds, counted in nanoseconds, before
  the report, and the fleet is stale exactly if its newest window did; a time of zero means that
  there is no data.
\<close>

theorem staleness_is_exact:
  "hr_nodes (health_response st now nodes ok) = map (\<lambda>n. \<lparr>nh_node = nr_node n, nh_last_seen_ns = nr_last_seen_ns n,
       nh_age_secs = age_secs now (nr_last_seen_ns n),
       nh_stale = (nr_last_seen_ns n \<noteq> 0 \<and> 60000000000 < unat now - unat (nr_last_seen_ns n))\<rparr>) nodes
   \<and> (let newest = fold max (map nr_last_seen_ns nodes) 0
      in fr_stale (hr_freshness (health_response st now nodes ok)) = (newest \<noteq> 0 \<and> 60000000000 < unat now - unat newest))"
proof -
  have "is_stale (age_secs now ts) \<longleftrightarrow> ts \<noteq> 0 \<and> 60000000000 < unat now - unat ts" for ts
    by (rule is_stale_iff)
  then show ?thesis by (simp add: health_response_def Let_def)
qed

end
