(* ===== verification/Gateway_Main.thy ===== *)
theory Gateway_Main
  imports Dashboard
begin

text \<open>
  The gateway as a whole, \<^verbatim>\<open>statix-gateway/src/main.rs\<close>: start-up, the routing table over the
  handlers, and shutdown.  The HTTP library decodes requests, answers those no route matches
  and rejects bodies over the limit; its answers are parameters.  Theorems: only a request
  to the ingest route touches the ingest state, every run of the whole server is a run of the
  ingest model, and a shutdown never completes its drain.
\<close>

section \<open>Routes\<close>

datatype http_method = GET | HEAD | POST | OtherMethod string

datatype route =
    HealthCheck
  | ReadinessCheck
  | MetricsEndpoint
  | Ingest
  | WorkloadsSummary
  | DashPage
  | DashState
  | DashHealth

definition router :: "(string \<times> http_method \<times> route) list" where
  "router =
     [(''/health'', GET, HealthCheck),
      (''/ready'', GET, ReadinessCheck),
      (''/metrics'', GET, MetricsEndpoint),
      (''/ingest'', POST, Ingest),
      (''/api/v1/workloads/summary'', GET, WorkloadsSummary),
      (''/'', GET, DashPage),
      (''/dashboard'', GET, DashPage),
      (''/api/v1/dashboard/state'', GET, DashState),
      (''/api/v1/dashboard/health'', GET, DashHealth)]"

text \<open>A route for GET also serves HEAD, with the body of the response removed.\<close>

definition find_route :: "http_method \<Rightarrow> string \<Rightarrow> route option" where
  "find_route m path =
     map_option (snd \<circ> snd) (find (\<lambda>(p, m', _). p = path \<and> (m' = m \<or> m = HEAD \<and> m' = GET)) router)"

text \<open>The routes are finitely many, so that statements about all of them evaluate.\<close>

lemma UNIV_route:
  "UNIV = {HealthCheck, ReadinessCheck, MetricsEndpoint, Ingest, WorkloadsSummary, DashPage, DashState, DashHealth}"
  using route.exhaust by auto

instantiation route :: enum
begin

definition enum_route_def: "Enum.enum =
  [HealthCheck, ReadinessCheck, MetricsEndpoint, Ingest, WorkloadsSummary, DashPage, DashState, DashHealth]"

definition enum_all_route_def: "Enum.enum_all P \<longleftrightarrow> list_all P (Enum.enum :: route list)"

definition enum_ex_route_def: "Enum.enum_ex P \<longleftrightarrow> list_ex P (Enum.enum :: route list)"

instance
  by standard (auto simp: enum_route_def enum_all_route_def enum_ex_route_def UNIV_route list_all_iff list_ex_iff)

end

text \<open>Every handler has a path, no path is routed twice, and the router finds every entry of its table.\<close>

lemma router_total: "\<forall>r :: route. r \<in> (snd \<circ> snd) ` set router" "distinct (map fst router)"
  "list_all (\<lambda>(path, m, r). find_route m path = Some r) router"
  by code_simp+

definition BODY_LIMIT :: nat where
  "BODY_LIMIT = 2 * 1024 * 1024"

section \<open>Requests\<close>

record http_request =
  hq_method :: http_method
  hq_path :: string
  hq_auth :: "string option"
  hq_body :: bytes
  hq_hours :: "u64 option"
  hq_params :: StateParams

text \<open>
  What a request reads from outside: the clocks, ClickHouse, the file system, the renderer of the
  metrics, and the HTTP library: its answer where no route matches, its rejection of a body
  that is too long, and its JSON decoder, which rejects a body with a status.
\<close>

record server_env =
  se_now :: nat
  se_clock :: "nat option"
  se_unicode :: unicode
  se_backend :: dash_backend
  se_summary :: "ch_query \<Rightarrow> string + WorkloadSummaryRow list"
  se_summary_json :: "WorkloadSummaryRow list \<Rightarrow> string"
  se_read_to_string :: "pathbuf \<Rightarrow> string + string"
  se_embedded :: string
  se_render :: string
  se_fallback :: "http_method \<Rightarrow> string \<Rightarrow> dash_response"
  se_too_large :: dash_response
  se_decode :: "bytes \<Rightarrow> dash_response + IngestBatch"

definition metrics_endpoint :: "string \<Rightarrow> dash_response" where
  "metrics_endpoint rendered = (200, [(''content-type'', ''text/plain; version=0.0.4; charset=utf-8'')], rendered)"

text \<open>The extractors of the ingest handler run before its body, so before the check of the token.\<close>

definition ingest_route :: "server_env \<Rightarrow> http_request \<Rightarrow> AppState \<Rightarrow> dash_response \<times> AppState" where
  "ingest_route e rq st =
     (if BODY_LIMIT < length (hq_body rq) then (se_too_large e, st)
      else case se_decode e (hq_body rq) of
             Inl rejection \<Rightarrow> (rejection, st)
           | Inr batch \<Rightarrow>
               (case ingest_handler (hq_auth rq) batch (as_gateway st) of
                  ((status, body), g) \<Rightarrow> ((status, [], body), st\<lparr>as_gateway := g\<rparr>)))"

text \<open>The summary query, with its one parameter; its answer is \<open>se_summary\<close>.\<close>

definition SUMMARY_SQL :: string where
  "SUMMARY_SQL = sql_lines
     [[],
      ''SELECT cgroup_id, namespace, pod, container,'',
      ''       argMax(memory_bytes_max, window_start_ns) AS peak_memory,'',
      ''       sum(exec_count) AS total_execs,'',
      ''       sum(cpu_usage_usec) AS total_cpu_usec'',
      ''FROM statix.workload_metrics'',
      ''WHERE window_start_ns >= {cutoff_ns:UInt64}'',
      ''GROUP BY cgroup_id, namespace, pod, container'',
      ''ORDER BY peak_memory DESC'',
      ''LIMIT 100'',
      []]"

definition summary_query :: "u64 \<Rightarrow> ch_query" where
  "summary_query cutoff = (SUMMARY_SQL, [(''cutoff_ns'', PU64 cutoff)])"

definition summary_route :: "server_env \<Rightarrow> http_request \<Rightarrow> dash_response" where
  "summary_route e rq =
     (case workloads_summary (se_summary e \<circ> summary_query) (dash_now_ns (se_clock e)) (hq_hours rq) of
        Inr rows \<Rightarrow> (200, [(''content-type'', ''application/json'')], se_summary_json e rows)
      | Inl status \<Rightarrow> (status, [], []))"

definition call_route :: "server_env \<Rightarrow> http_request \<Rightarrow> AppState \<Rightarrow> dash_response \<times> AppState" where
  "call_route e rq st =
     (case find_route (hq_method rq) (hq_path rq) of
        None \<Rightarrow> (se_fallback e (hq_method rq) (hq_path rq), st)
      | Some HealthCheck \<Rightarrow> ((health_check (as_gateway st), [], []), st)
      | Some ReadinessCheck \<Rightarrow> ((readiness_check (as_gateway st), [], []), st)
      | Some MetricsEndpoint \<Rightarrow> (metrics_endpoint (se_render e), st)
      | Some Ingest \<Rightarrow> ingest_route e rq st
      | Some WorkloadsSummary \<Rightarrow> (summary_route e rq, st)
      | Some DashPage \<Rightarrow> (page_handler (se_read_to_string e) (se_embedded e) st, st)
      | Some DashState \<Rightarrow>
          state_handler (se_unicode e) (se_backend e) (se_now e) (se_clock e) (hq_auth rq) (hq_params rq) st
      | Some DashHealth \<Rightarrow> health_handler (se_backend e) (se_now e) (se_clock e) (hq_auth rq) st)"

definition handle_request :: "server_env \<Rightarrow> http_request \<Rightarrow> AppState \<Rightarrow> dash_response \<times> AppState" where
  "handle_request e rq st =
     (case call_route e rq st of
        ((status, headers, body), st1) \<Rightarrow>
          ((status, headers, if hq_method rq = HEAD then [] else body), st1))"

section \<open>Start-up and shutdown\<close>

datatype gateway_boot_error = ProcessExit nat | BootFailed GatewayError

text \<open>
  The results of installing the metrics recorder and of binding the address are inputs.  The state
  is built before the address is bound.
\<close>

definition gateway_boot :: "environ \<Rightarrow> string + unit \<Rightarrow> nat \<Rightarrow> string + unit \<Rightarrow> gateway_boot_error + AppState" where
  "gateway_boot env prometheus now bind =
     (case Config_from_env env of
        None \<Rightarrow> Inl (ProcessExit 1)
      | Some config \<Rightarrow>
          (case prometheus of
             Inl e \<Rightarrow> Inl (BootFailed (PrometheusInstall e))
           | Inr _ \<Rightarrow>
               let st = \<lparr>as_gateway = gateway_start env config,
                         as_dashboard = Dashboard_new now (DashboardConfig_from_env env)\<rparr>
               in case bind of Inl e \<Rightarrow> Inl (BootFailed (Http e)) | Inr _ \<Rightarrow> Inr st))"

text \<open>
  After the HTTP server has stopped, which dropped the router with its sender, the writer's own
  sender is dropped and the task is awaited for ten seconds.  \<open>ins\<close> are the answers the task
  gets in that time.
\<close>

definition shutdown_drain :: "ch_in list \<Rightarrow> gateway \<Rightarrow> GatewayError option \<times> gateway" where
  "shutdown_drain ins g =
     (let g1 = drop_senders 2 g;
          w = ch_run ins (gw_writer g1)
      in (if cw_pc w = Stopped then None else Some (DrainTimeout 10), g1\<lparr>gw_writer := w\<rparr>))"

section \<open>Runs of the server\<close>

text \<open>
  Requests interleave at their awaits: the dashboard handlers are split there.  The writer task
  runs between any two of these steps.
\<close>

inductive server_step :: "AppState \<Rightarrow> AppState \<Rightarrow> bool" where
  request: "1 < cw_senders (gw_writer (as_gateway st)) \<Longrightarrow> server_step st (snd (handle_request e rq st))"
| state_begin: "server_step st (snd (state_lookup uc now auth params st))"
| state_end: "server_step st (snd (state_store now q result st))"
| health_begin: "server_step st (snd (health_lookup now auth st))"
| health_end: "server_step st (snd (health_store now body st))"
| task: "ch_step i (gw_writer (as_gateway st)) = Some w \<Longrightarrow>
    server_step st (st\<lparr>as_gateway := (as_gateway st)\<lparr>gw_writer := w\<rparr>\<rparr>)"

inductive_cases server_stepE: "server_step st st'"

definition server_reachable :: "environ \<Rightarrow> AppState \<Rightarrow> bool" where
  "server_reachable env st \<longleftrightarrow>
     (\<exists>now st0. gateway_boot env (Inr ()) now (Inr ()) = Inr st0 \<and> server_step\<^sup>*\<^sup>* st0 st)"

section \<open>Effects of requests\<close>

lemma state_lookup_gateway [simp]: "as_gateway (snd (state_lookup uc now auth params st)) = as_gateway st"
proof -
  obtain r st1 where g: "guard now auth st = (r, st1)" by fastforce
  with guard_spec(3) [OF g] show ?thesis
    by (cases r) (simp_all add: state_lookup_def Let_def split: prod.splits option.splits)
qed

lemma state_store_gateway [simp]: "as_gateway (snd (state_store now q result st)) = as_gateway st"
  by (simp add: state_store_def Let_def split: sum.splits)

lemma health_lookup_gateway [simp]: "as_gateway (snd (health_lookup now auth st)) = as_gateway st"
proof -
  obtain r st1 where g: "guard now auth st = (r, st1)" by fastforce
  with guard_spec(3) [OF g] show ?thesis
    by (cases r) (simp_all add: health_lookup_def Let_def split: prod.splits option.splits)
qed

lemma health_store_gateway [simp]: "as_gateway (snd (health_store now body st)) = as_gateway st"
  by (simp add: health_store_def Let_def)

lemma state_handler_gateway [simp]: "as_gateway (snd (state_handler uc bk now clock auth params st)) = as_gateway st"
  using state_lookup_gateway [of uc now auth params st]
  by (cases "state_lookup uc now auth params st") (auto simp: state_handler_def split: sum.splits)

lemma health_handler_gateway [simp]: "as_gateway (snd (health_handler bk now clock auth st)) = as_gateway st"
  using health_lookup_gateway [of now auth st]
  by (cases "health_lookup now auth st") (auto simp: health_handler_def split: option.splits)

lemma find_route_ingest: "find_route m path = Some Ingest \<longleftrightarrow> m = POST \<and> path = ''/ingest''"
  by (auto simp: find_route_def router_def)

lemma handle_request_state: "snd (handle_request e rq st) = snd (call_route e rq st)"
  by (simp add: handle_request_def split: prod.splits)

lemma handle_request_gateway:
  "as_gateway (snd (handle_request e rq st)) =
     (if hq_method rq = POST \<and> hq_path rq = ''/ingest'' \<and> length (hq_body rq) \<le> BODY_LIMIT
      then (case se_decode e (hq_body rq) of
              Inr batch \<Rightarrow> snd (ingest_handler (hq_auth rq) batch (as_gateway st)) | Inl _ \<Rightarrow> as_gateway st)
      else as_gateway st)"
proof (cases "find_route (hq_method rq) (hq_path rq) = Some Ingest")
  case True
  then show ?thesis
    using True [unfolded find_route_ingest]
    by (auto simp: handle_request_state call_route_def ingest_route_def split: sum.splits prod.splits)
next
  case False
  have "as_gateway (snd (handle_request e rq st)) = as_gateway st"
    using False by (cases "find_route (hq_method rq) (hq_path rq)") (auto simp: handle_request_state call_route_def split: route.splits)
  then show ?thesis using False [unfolded find_route_ingest] by auto
qed

text \<open>The status and the effect of a post to the ingest route whose body decodes.\<close>

lemma ingest_request:
  assumes "hq_method rq = POST" and "hq_path rq = ''/ingest''" and "se_decode e (hq_body rq) = Inr batch"
  shows "fst (fst (handle_request e rq st)) =
      (if BODY_LIMIT < length (hq_body rq) then fst (se_too_large e) else fst (fst (ingest_handler (hq_auth rq) batch (as_gateway st))))"
    and "as_gateway (snd (handle_request e rq st)) =
      (if BODY_LIMIT < length (hq_body rq) then as_gateway st else snd (ingest_handler (hq_auth rq) batch (as_gateway st)))"
proof -
  have "find_route (hq_method rq) (hq_path rq) = Some Ingest" using assms(1,2) by (simp add: find_route_ingest)
  with assms(1,3) show "fst (fst (handle_request e rq st)) =
      (if BODY_LIMIT < length (hq_body rq) then fst (se_too_large e) else fst (fst (ingest_handler (hq_auth rq) batch (as_gateway st))))"
    by (simp add: handle_request_def call_route_def ingest_route_def split: prod.splits)
  show "as_gateway (snd (handle_request e rq st)) =
      (if BODY_LIMIT < length (hq_body rq) then as_gateway st else snd (ingest_handler (hq_auth rq) batch (as_gateway st)))"
    using assms by (simp add: handle_request_gateway)
qed

section \<open>Invariants of the server\<close>

definition caches_ok :: "AppState \<Rightarrow> bool" where
  "caches_ok st \<longleftrightarrow> ttl_cache_ok (db_state_cache (as_dashboard st)) \<and> ttl_cache_ok (db_health_cache (as_dashboard st))"

lemma guard_caches: "guard now auth st = (r, st1) \<Longrightarrow> caches_ok st1 = caches_ok st"
  by (auto simp: guard_def caches_ok_def Let_def split: if_splits prod.splits bool.splits)

lemma cache_get_ok: "cache_get now key c = (r, c1) \<Longrightarrow> ttl_cache_ok c \<Longrightarrow> ttl_cache_ok c1"
  using ttl.lookup_ok [of c now key] by simp

lemma state_lookup_caches: "caches_ok st \<Longrightarrow> caches_ok (snd (state_lookup uc now auth params st))"
proof -
  assume ok: "caches_ok st"
  obtain r st1 where g: "guard now auth st = (r, st1)" by fastforce
  with guard_caches [OF g] ok show ?thesis
    by (cases r) (auto simp: state_lookup_def caches_ok_def Let_def dest: cache_get_ok split: prod.splits option.splits)
qed

lemma health_lookup_caches: "caches_ok st \<Longrightarrow> caches_ok (snd (health_lookup now auth st))"
proof -
  assume ok: "caches_ok st"
  obtain r st1 where g: "guard now auth st = (r, st1)" by fastforce
  with guard_caches [OF g] ok show ?thesis
    by (cases r) (auto simp: health_lookup_def caches_ok_def Let_def dest: cache_get_ok split: prod.splits option.splits)
qed

lemma state_store_caches: "caches_ok st \<Longrightarrow> caches_ok (snd (state_store now q result st))"
  by (auto simp: state_store_def caches_ok_def Let_def ttl.store_ok split: sum.splits)

lemma health_store_caches: "caches_ok st \<Longrightarrow> caches_ok (snd (health_store now body st))"
  by (auto simp: health_store_def caches_ok_def Let_def ttl.store_ok)

lemmas handler_caches = state_lookup_caches health_lookup_caches state_store_caches health_store_caches

lemma caches_ok_gateway [simp]: "caches_ok (st\<lparr>as_gateway := g\<rparr>) = caches_ok st"
  by (simp add: caches_ok_def)

lemma state_handler_caches: "caches_ok st \<Longrightarrow> caches_ok (snd (state_handler uc bk now clock auth params st))"
  using state_lookup_caches [of st uc now auth params]
  by (cases "state_lookup uc now auth params st") (auto simp: state_handler_def handler_caches split: sum.splits)

lemma health_handler_caches: "caches_ok st \<Longrightarrow> caches_ok (snd (health_handler bk now clock auth st))"
  using health_lookup_caches [of st now auth]
  by (cases "health_lookup now auth st") (auto simp: health_handler_def handler_caches split: option.splits)

lemma handle_request_caches: "caches_ok st \<Longrightarrow> caches_ok (snd (handle_request e rq st))"
  unfolding handle_request_state call_route_def
  by (auto simp: ingest_route_def state_handler_caches health_handler_caches split: option.splits route.splits sum.splits prod.splits)

lemma server_step_caches: "server_step st st' \<Longrightarrow> caches_ok st \<Longrightarrow> caches_ok st'"
  by (erule server_stepE) (simp_all add: handler_caches handle_request_caches)

text \<open>Every step of the server is a step of the ingest model, or none.\<close>

lemma server_step_simulates:
  assumes "server_step st st'"
  shows "gw_step\<^sup>*\<^sup>* (as_gateway st) (as_gateway st')"
  using assms
proof (cases rule: server_step.cases)
  case (request e rq)
  then show ?thesis
    using gw_step.request [OF request(2)] by (auto simp: handle_request_gateway split: sum.splits)
next
  case (task i w)
  then show ?thesis using gw_step.task [OF task(2)] by auto
qed simp_all

lemma boot_state:
  assumes "gateway_boot env (Inr ()) now (Inr ()) = Inr st"
  obtains cfg where "Config_from_env env = Some cfg" and "as_gateway st = gateway_start env cfg" and "caches_ok st"
  using assms by (auto simp: gateway_boot_def Let_def Dashboard_new_def TtlCache_new_def caches_ok_def ttl_cache_ok_def
      split: option.splits)

interpretation server: step_system "\<lambda>st. \<exists>now. gateway_boot env (Inr ()) now (Inr ()) = Inr st" server_step
  "\<lambda>st. caches_ok st \<and> (\<exists>cfg. Config_from_env env = Some cfg \<and> gw_reachable env cfg (as_gateway st))" for env
proof
  fix s assume "\<exists>now. gateway_boot env (Inr ()) now (Inr ()) = Inr s"
  then show "caches_ok s \<and> (\<exists>cfg. Config_from_env env = Some cfg \<and> gw_reachable env cfg (as_gateway s))"
    by (auto elim!: boot_state simp: gw_reachable_def)
next
  fix s s'
  assume s: "server_step s s'"
    and i: "caches_ok s \<and> (\<exists>cfg. Config_from_env env = Some cfg \<and> gw_reachable env cfg (as_gateway s))"
  then show "caches_ok s' \<and> (\<exists>cfg. Config_from_env env = Some cfg \<and> gw_reachable env cfg (as_gateway s'))"
    using server_step_caches [OF s] server_step_simulates [OF s] by (auto simp: gw_reachable_def intro: rtranclp_trans)
qed

text \<open>While the server runs the router, the writer and the depth sampler hold a sender each.\<close>

lemma ingest_handler_senders [simp]:
  "cw_senders (gw_writer (snd (ingest_handler auth batch g))) = cw_senders (gw_writer g)"
  by (auto simp: ingest_handler_def ingest_inner_def Let_def split: option.splits)

lemma server_step_senders:
  "server_step st st' \<Longrightarrow> cw_senders (gw_writer (as_gateway st')) = cw_senders (gw_writer (as_gateway st))"
  by (erule server_stepE) (auto simp: handle_request_gateway dest: ch_step_senders split: sum.splits)

interpretation senders: step_system "\<lambda>st. \<exists>now. gateway_boot env (Inr ()) now (Inr ()) = Inr st" server_step
  "\<lambda>st. cw_senders (gw_writer (as_gateway st)) = 3" for env
  by unfold_locales (auto elim!: boot_state simp: gateway_start_def spawn_writer_def Let_def server_step_senders)

lemma ch_run_reachable:
  "gw_reachable env cfg g \<Longrightarrow> gw_reachable env cfg (g\<lparr>gw_writer := ch_run ins (gw_writer g)\<rparr>)"
proof (induction ins arbitrary: g)
  case (Cons i ins)
  show ?case
  proof (cases "ch_step i (gw_writer g)")
    case None
    with Cons show ?thesis by simp
  next
    case (Some w)
    from Cons.prems gw_step.task [OF Some] have "gw_reachable env cfg (g\<lparr>gw_writer := w\<rparr>)"
      unfolding gw_reachable_def by (rule rtranclp.rtrancl_into_rtrancl)
    from Cons.IH [OF this] Some show ?thesis by simp
  qed
qed simp

lemma summary_query_binds: "placeholders (fst (summary_query c)) = map fst (snd (summary_query c))"
  unfolding summary_query_def SUMMARY_SQL_def by code_simp

section \<open>Properties\<close>

text \<open>
  C14: The server runs the ingest model.  In every state the server can reach by requests to any
  route, interleaved at their awaits and with the writer task, the ingest state is one the
  ingest model can reach, so every accepted row is finished, in hand or in the channel, in
  order; the caches of the dashboard are well formed; and no request changes the ingest state
  but a POST to \<^verbatim>\<open>/ingest\<close> with a body of at most 2 MiB.
\<close>

theorem server_runs_ingest_model:
  assumes "server_reachable env st"
  shows "(\<exists>cfg. Config_from_env env = Some cfg \<and> gw_reachable env cfg (as_gateway st))
    \<and> gw_accepted (as_gateway st) = cw_finished (gw_writer (as_gateway st)) @ in_hand (cw_pc (gw_writer (as_gateway st)))
        @ ch_buf (cw_rx (gw_writer (as_gateway st)))
    \<and> ttl_cache_ok (db_state_cache (as_dashboard st)) \<and> ttl_cache_ok (db_health_cache (as_dashboard st))
    \<and> (\<forall>e rq. as_gateway (snd (handle_request e rq st)) \<noteq> as_gateway st \<longrightarrow>
          hq_method rq = POST \<and> hq_path rq = ''/ingest'' \<and> length (hq_body rq) \<le> 2097152)"
proof -
  have inv: "caches_ok st" "\<exists>cfg. Config_from_env env = Some cfg \<and> gw_reachable env cfg (as_gateway st)"
    using assms server.reach_inv [of env] unfolding server_reachable_def by blast+
  then have "gw_accepted (as_gateway st) = flow (gw_writer (as_gateway st))"
    using gw_reachable_ok by (auto simp: gw_ok_def)
  with inv show ?thesis
    by (auto simp: caches_ok_def flow_def handle_request_gateway BODY_LIMIT_def split: if_splits)
qed

text \<open>
  C38: A shutdown never completes its drain.  From every state the server can reach, whatever
  ClickHouse answers and however long the writer task is given, the task has not stopped when
  the time is over and the shutdown reports a drain timeout: the depth sampler still holds a
  sender, so the channel never closes.
\<close>

theorem shutdown_always_times_out:
  assumes "server_reachable env st"
  shows "fst (shutdown_drain ins (as_gateway st)) = Some (DrainTimeout 10)"
proof -
  obtain cfg where r: "gw_reachable env cfg (as_gateway st)"
    using assms server.reach_inv [of env] unfolding server_reachable_def by blast
  have s: "cw_senders (gw_writer (as_gateway st)) = 3"
    using assms senders.reach_inv [of env] unfolding server_reachable_def by blast
  have "gw_reachable env cfg (drop_senders 2 (as_gateway st))"
    using r gw_step.shutdown [OF s] unfolding gw_reachable_def by (rule rtranclp.rtrancl_into_rtrancl)
  from writer_never_stops [OF ch_run_reachable [OF this, of ins]]
  have "cw_pc (ch_run ins (gw_writer (drop_senders 2 (as_gateway st)))) \<noteq> Stopped" by simp
  then show ?thesis by (simp add: shutdown_drain_def Let_def)
qed

definition booted_server :: AppState where
  "booted_server = (case gateway_boot no_env (Inr ()) 0 (Inr ()) of Inr st \<Rightarrow> st)"

lemma booted_server_reachable: "server_reachable no_env booted_server"
proof -
  have "gateway_boot no_env (Inr ()) 0 (Inr ()) = Inr booted_server"
    by (simp add: booted_server_def gateway_boot_def Config_from_env_def env_api_port_def var_def var_with_legacy_def no_env_def Let_def
        split: option.splits)
  then show ?thesis unfolding server_reachable_def by blast
qed

theorem server_runs_ingest_model_witness:
  "\<exists>cfg. Config_from_env no_env = Some cfg \<and> gw_reachable no_env cfg (as_gateway booted_server)"
  using server_runs_ingest_model [OF booted_server_reachable] by blast

theorem shutdown_always_times_out_witness:
  "fst (shutdown_drain (replicate 100 \<lparr>ci_ping = True, ci_linger_over = True, ci_insert_ok = True\<rparr>) (as_gateway booted_server))
     = Some (DrainTimeout 10)"
  by (rule shutdown_always_times_out [OF booted_server_reachable])

end
