(* ===== verification/Ch_Insert.thy ===== *)
theory Ch_Insert
  imports Gateway
begin

text \<open>
  Inserting into ClickHouse: \<^verbatim>\<open>flush_batch\<close> of \<^verbatim>\<open>statix-gateway/src/clickhouse_writer.rs\<close> over the answers
  of the client library, and the table the inserts fill.  An insert that is not acknowledged
  may have been stored anyway, completely or in part, and is tried again.  Theorem: the table
  holds every row counted as inserted, holds nothing else than accepted rows, and holds a row
  at most five times for each time it was accepted.
\<close>

section \<open>One insert\<close>

text \<open>
  The answers of the library to opening the insert, to writing each row and to ending it
  (None if the time is over), and, for the statements, the rows the table gained.
\<close>

record insert_in =
  ii_insert :: "string + unit"
  ii_write :: "nat \<Rightarrow> MetricRow \<Rightarrow> string + unit"
  ii_end :: "(string + unit) option"
  ii_stored :: "MetricRow list"

fun write_rows :: "(nat \<Rightarrow> MetricRow \<Rightarrow> string + unit) \<Rightarrow> nat \<Rightarrow> MetricRow list \<Rightarrow> string + unit" where
  "write_rows wr n [] = Inr ()"
| "write_rows wr n (row # rows) = try_then (wr n row) (\<lambda>_. write_rows wr (n + 1) rows)"

definition flush_batch :: "insert_in \<Rightarrow> MetricRow list \<Rightarrow> string + unit" where
  "flush_batch i batch =
     try_then (ii_insert i) (\<lambda>_.
     try_then (write_rows (ii_write i) 0 batch) (\<lambda>_.
     case ii_end i of Some result \<Rightarrow> result | None \<Rightarrow> Inl ''timeout expired''))"

text \<open>
  What the code relies on: an insert that was acknowledged is stored, and no insert stores rows
  it was not given.  Nothing is assumed about an insert that failed.
\<close>

definition insert_contract :: "insert_in \<Rightarrow> MetricRow list \<Rightarrow> bool" where
  "insert_contract i batch \<longleftrightarrow>
     (flush_batch i batch = Inr () \<longrightarrow> mset (ii_stored i) = mset batch) \<and> mset (ii_stored i) \<subseteq># mset batch"

lemma write_rows_ok: "(\<And>n row. wr n row = Inr ()) \<Longrightarrow> write_rows wr n rows = Inr ()"
  by (induction rows arbitrary: n) (simp_all add: try_then_def)

section \<open>The gateway and its table\<close>

text \<open>
  One step of the writer task; only a step of the retry loop touches the table.  The table is the record
  of the rows stored, in order; what ClickHouse does with it later (merging rows with equal keys, expiring old
  ones) is left to the reader of the table.
\<close>

definition store_task :: "ch_in \<Rightarrow> insert_in \<Rightarrow> gateway \<times> MetricRow list \<Rightarrow> (gateway \<times> MetricRow list) option" where
  "store_task i ii gt =
     (case gt of (g, t) \<Rightarrow>
        case cw_pc (gw_writer g) of
          Inserting batch _ _ _ \<Rightarrow>
            map_option (\<lambda>w. (g\<lparr>gw_writer := w\<rparr>, t @ ii_stored ii))
              (ch_step (i\<lparr>ci_insert_ok := (flush_batch ii batch = Inr ())\<rparr>) (gw_writer g))
        | _ \<Rightarrow> map_option (\<lambda>w. (g\<lparr>gw_writer := w\<rparr>, t)) (ch_step i (gw_writer g)))"

text \<open>The requests carry batches of \<open>B\<close>.\<close>

inductive tbl_step :: "IngestBatch set \<Rightarrow> gateway \<times> MetricRow list \<Rightarrow> gateway \<times> MetricRow list \<Rightarrow> bool" for B where
  request: "1 < cw_senders (gw_writer g) \<Longrightarrow> batch \<in> B \<Longrightarrow> tbl_step B (g, t) (snd (ingest_handler auth batch g), t)"
| task: "insert_contract ii (in_hand (cw_pc (gw_writer g))) \<Longrightarrow> store_task i ii (g, t) = Some gt \<Longrightarrow> tbl_step B (g, t) gt"
| shutdown: "cw_senders (gw_writer g) = 3 \<Longrightarrow> tbl_step B (g, t) (drop_senders 2 g, t)"

inductive_cases tbl_stepE: "tbl_step B gt gt'"

definition tbl_reachable :: "environ \<Rightarrow> Config \<Rightarrow> IngestBatch set \<Rightarrow> gateway \<times> MetricRow list \<Rightarrow> bool" where
  "tbl_reachable env cfg B gt \<longleftrightarrow> (tbl_step B)\<^sup>*\<^sup>* (gateway_start env cfg, []) gt"

section \<open>Invariant\<close>

definition batch_rows :: "IngestBatch \<Rightarrow> MetricRow list" where
  "batch_rows b = map (from_ingest b) (ib_workloads b)"

fun attempts :: "ch_pc \<Rightarrow> nat" where
  "attempts (Inserting _ n _ _) = n"
| "attempts _ = 0"

definition tbl_ok :: "IngestBatch set \<Rightarrow> gateway \<times> MetricRow list \<Rightarrow> bool" where
  "tbl_ok B gt \<longleftrightarrow>
     (case gt of (g, t) \<Rightarrow>
        gw_ok g \<and> set (gw_accepted g) \<subseteq> (\<Union>b \<in> B. set (batch_rows b))
        \<and> mset (cw_inserted (gw_writer g)) \<subseteq># mset t
        \<and> (\<forall>r. count (mset t) r \<le> 5 * count (mset (cw_finished (gw_writer g))) r
              + attempts (cw_pc (gw_writer g)) * count (mset (in_hand (cw_pc (gw_writer g)))) r))"

lemma resume_attempts [simp]: "attempts (cw_pc (resume k w)) = 0" "cw_inserted (resume k w) = cw_inserted w"
  by (cases k; simp add: stop_task_def)+

lemma ingest_handler_writer:
  obtains rows where "gw_writer (snd (ingest_handler auth batch g))
      = (gw_writer g)\<lparr>cw_rx := (cw_rx (gw_writer g))\<lparr>ch_buf := ch_buf (cw_rx (gw_writer g)) @ rows\<rparr>\<rparr>"
    and "gw_accepted (snd (ingest_handler auth batch g)) = gw_accepted g @ rows" and "set rows \<subseteq> set (batch_rows batch)"
proof -
  let ?rows = "if fst (fst (ingest_handler auth batch g)) = 200 then batch_rows batch else []"
  have "set ?rows \<subseteq> set (batch_rows batch)" by auto
  then show thesis
    using ingest_handler_spec [of auth batch g] that [of ?rows] unfolding Let_def batch_rows_def by blast
qed

text \<open>A step outside the retry loop finishes nothing and inserts nothing.\<close>

lemma ch_step_quiet:
  assumes "ch_step i w = Some w'" and "\<And>b n m k. cw_pc w \<noteq> Inserting b n m k"
  shows "cw_finished w' = cw_finished w" and "cw_inserted w' = cw_inserted w" and "attempts (cw_pc w') = 0"
  using assms
  by (cases "cw_pc w"; auto simp: ch_step_def ping_ready_def start_insert_def stop_task_def recv_many_Some
        split: option.splits if_splits)+

lemma insert_attempt_table:
  assumes "n < 5" and "mset (cw_inserted w) \<subseteq># mset t" and c: "insert_contract ii b"
    and le: "\<And>r. count (mset t) r \<le> 5 * count (mset (cw_finished w)) r + n * count (mset b) r"
    and w': "w' = insert_attempt (flush_batch ii b = Inr ()) b n backoff k w"
  shows "mset (cw_inserted w') \<subseteq># mset (t @ ii_stored ii)"
    and "count (mset (t @ ii_stored ii)) r
       \<le> 5 * count (mset (cw_finished w')) r + attempts (cw_pc w') * count (mset (in_hand (cw_pc w'))) r"
proof -
  have sub: "mset (ii_stored ii) \<subseteq># mset b" and ok: "flush_batch ii b = Inr () \<Longrightarrow> mset (ii_stored ii) = mset b"
    using c by (auto simp: insert_contract_def)
  show "mset (cw_inserted w') \<subseteq># mset (t @ ii_stored ii)"
    using assms(2) ok by (auto simp: w' insert_attempt_def Let_def intro: subset_mset.add_mono subset_mset.trans)
  have one: "count (mset (ii_stored ii)) r \<le> count (mset b) r" using sub by (rule mset_subset_eq_count)
  have n4: "n * count (mset b) r \<le> 4 * count (mset b) r" using assms(1) by (intro mult_right_mono) simp_all
  show "count (mset (t @ ii_stored ii)) r
     \<le> 5 * count (mset (cw_finished w')) r + attempts (cw_pc w') * count (mset (in_hand (cw_pc w'))) r"
    using le [of r] le_trans [OF le [of r] add_left_mono [OF n4]] one
    by (simp add: w' insert_attempt_def Let_def del: mult_le_cancel2)
qed

lemma store_task_ok:
  assumes ok: "tbl_ok B (g, t)" and c: "insert_contract ii (in_hand (cw_pc (gw_writer g)))"
    and st: "store_task i ii (g, t) = Some gt"
  shows "tbl_ok B gt"
proof -
  have g: "gw_ok g" using ok by (simp add: tbl_ok_def Let_def)
  show ?thesis
  proof (cases "\<exists>b n m k. cw_pc (gw_writer g) = Inserting b n m k")
    case True
    then obtain b n m k where pc: "cw_pc (gw_writer g) = Inserting b n m k" by blast
    have n: "n < 5" using g pc by (simp add: gw_ok_def ch_ok_def MAX_INSERT_RETRIES_def)
    let ?i = "i\<lparr>ci_insert_ok := (flush_batch ii b = Inr ())\<rparr>"
    let ?w = "insert_attempt (flush_batch ii b = Inr ()) b n m k (gw_writer g)"
    have w: "ch_step ?i (gw_writer g) = Some ?w" and gt: "gt = (g\<lparr>gw_writer := ?w\<rparr>, t @ ii_stored ii)"
      using st pc by (simp_all add: store_task_def ch_step_def)
    note tb = insert_attempt_table [OF n _ c [unfolded pc in_hand.simps] _ refl, where w = "gw_writer g" and t = t and backoff = m and k = k]
    have "gw_ok (g\<lparr>gw_writer := ?w\<rparr>)" using gw_step_ok [OF gw_step.task [OF w] g] .
    with ok tb pc show ?thesis by (simp add: tbl_ok_def gt)
  next
    case False
    then obtain w where w: "ch_step i (gw_writer g) = Some w" and gt: "gt = (g\<lparr>gw_writer := w\<rparr>, t)"
      using st by (auto simp: store_task_def split: ch_pc.splits)
    have "gw_ok (g\<lparr>gw_writer := w\<rparr>)" using gw_step_ok [OF gw_step.task [OF w] g] .
    moreover have "attempts (cw_pc (gw_writer g)) = 0" using False by (cases "cw_pc (gw_writer g)") auto
    ultimately show ?thesis
      using ok ch_step_quiet [OF w] False by (auto simp: tbl_ok_def gt)
  qed
qed

lemma tbl_step_ok: "tbl_step B gt gt' \<Longrightarrow> tbl_ok B gt \<Longrightarrow> tbl_ok B gt'"
proof (induction rule: tbl_step.induct)
  case (request g batch t auth)
  obtain rows where r: "gw_writer (snd (ingest_handler auth batch g))
      = (gw_writer g)\<lparr>cw_rx := (cw_rx (gw_writer g))\<lparr>ch_buf := ch_buf (cw_rx (gw_writer g)) @ rows\<rparr>\<rparr>"
    "gw_accepted (snd (ingest_handler auth batch g)) = gw_accepted g @ rows" "set rows \<subseteq> set (batch_rows batch)"
    by (rule ingest_handler_writer)
  with request show ?case
    using ingest_handler_ok [of g auth batch] by (auto simp: tbl_ok_def)
next
  case (task ii g i t gt)
  then show ?case using store_task_ok by blast
next
  case (shutdown g t)
  then show ?case
    using gw_step_ok [OF gw_step.shutdown [OF shutdown(1)]] by (simp add: tbl_ok_def) (simp add: drop_senders_def)
qed

interpretation tbl: step_system "\<lambda>gt. gt = (gateway_start env cfg, [])" "tbl_step B" "tbl_ok B" for env cfg B
  by unfold_locales
     (simp_all add: tbl_step_ok, simp add: tbl_ok_def gateway_start_ok, simp add: gateway_start_def spawn_writer_def Let_def)

lemma tbl_reachable_ok: "tbl_reachable env cfg B gt \<Longrightarrow> tbl_ok B gt"
  unfolding tbl_reachable_def by (rule tbl.reach_inv [OF refl])

lemma tbl_reachable_stored:
  assumes "tbl_reachable env cfg B (g, t)"
  shows "mset (cw_inserted (gw_writer g)) \<subseteq># mset t
    \<and> set t \<subseteq> set (gw_accepted g) \<and> set (gw_accepted g) \<subseteq> (\<Union>b \<in> B. set (batch_rows b))
    \<and> count (mset t) r \<le> 5 * count (mset (gw_accepted g)) r"
proof -
  note ok = tbl_reachable_ok [OF assms]
  have acc: "gw_accepted g = flow (gw_writer g)" and pc: "pc_ok (cw_batch_max (gw_writer g)) (cw_pc (gw_writer g))"
    using ok by (simp_all add: tbl_ok_def Let_def gw_ok_def ch_ok_def)
  have five: "count (mset t) r \<le> 5 * count (mset (gw_accepted g)) r" for r
  proof -
    have "attempts (cw_pc (gw_writer g)) \<le> 5"
      using pc by (cases "cw_pc (gw_writer g)") (simp_all add: MAX_INSERT_RETRIES_def)
    then have "attempts (cw_pc (gw_writer g)) * count (mset (in_hand (cw_pc (gw_writer g)))) r
        \<le> 5 * count (mset (in_hand (cw_pc (gw_writer g)))) r" by (rule mult_right_mono) simp
    moreover have "count (mset t) r \<le> 5 * count (mset (cw_finished (gw_writer g))) r
        + attempts (cw_pc (gw_writer g)) * count (mset (in_hand (cw_pc (gw_writer g)))) r"
      using ok by (simp add: tbl_ok_def Let_def)
    ultimately have "count (mset t) r \<le> 5 * count (mset (cw_finished (gw_writer g))) r
        + 5 * count (mset (in_hand (cw_pc (gw_writer g)))) r" by linarith
    then show ?thesis by (simp add: acc flow_def)
  qed
  have "x \<in> set (gw_accepted g)" if "x \<in> set t" for x
    using five [of x] that by (metis count_mset_0_iff le_zero_eq mult_0_right)
  with ok five show ?thesis by (auto simp: tbl_ok_def Let_def)
qed

section \<open>Properties\<close>

text \<open>
  C13: Inserted rows are stored.  In every state the gateway can reach, with any failures of the
  inserts, including those that stored rows without being acknowledged, and with any retries: the
  table contains every row counted as inserted as often as it was counted, contains no row that
  was not accepted from a request, and contains a row at most five times for every time it was
  accepted.
\<close>

theorem inserted_rows_are_stored:
  assumes "tbl_reachable env cfg B (g, t)"
  shows "mset (cw_inserted (gw_writer g)) \<subseteq># mset t
    \<and> set t \<subseteq> set (gw_accepted g) \<and> set (gw_accepted g) \<subseteq> (\<Union>b \<in> B. set (batch_rows b))
    \<and> count (mset t) r \<le> 5 * count (mset (gw_accepted g)) r"
  using tbl_reachable_stored [OF assms] .

text \<open>
  A run: ClickHouse answers the ping, a batch of one row is accepted, its first insert is stored
  but not acknowledged in time, the second is.
\<close>

definition lost_ack :: "MetricRow list \<Rightarrow> insert_in" where
  "lost_ack rows = \<lparr>ii_insert = Inr (), ii_write = (\<lambda>_ _. Inr ()), ii_end = None, ii_stored = rows\<rparr>"

definition acked :: "MetricRow list \<Rightarrow> insert_in" where
  "acked rows = \<lparr>ii_insert = Inr (), ii_write = (\<lambda>_ _. Inr ()), ii_end = Some (Inr ()), ii_stored = rows\<rparr>"

definition up :: ch_in where
  "up = \<lparr>ci_ping = True, ci_linger_over = True, ci_insert_ok = True\<rparr>"

definition twice_stored :: "IngestBatch \<Rightarrow> gateway \<times> MetricRow list" where
  "twice_stored batch =
     (let rows = batch_rows batch;
          run = (\<lambda>ii gt. the (store_task up ii gt))
      in run (acked rows) (run (lost_ack rows) (run (lost_ack []) (run (lost_ack []) (snd (ingest_handler None batch ready_gateway), [])))))"

lemma sample_inserts:
  "flush_batch (acked rows) b = Inr ()" "flush_batch (lost_ack rows) b \<noteq> Inr ()"
  "insert_contract (acked rows) rows" "insert_contract (lost_ack rows) rows" "insert_contract (lost_ack []) b"
  by (simp_all add: insert_contract_def flush_batch_def try_then_def acked_def lost_ack_def write_rows_ok)

lemma store_task_steps:
  assumes "tbl_reachable env cfg B (g, t)" and "insert_contract ii (in_hand (cw_pc (gw_writer g)))"
    and "store_task i ii (g, t) = Some gt"
  shows "tbl_reachable env cfg B gt"
  using assms(1) tbl_step.task [OF assms(2,3)] unfolding tbl_reachable_def by (rule rtranclp.rtrancl_into_rtrancl)

lemma twice_stored_reachable:
  assumes "batch \<in> B" and "ib_schema_version batch = 4" and "ib_workloads batch = [wr]"
  shows "tbl_reachable no_env sample_config B (twice_stored batch)
    \<and> snd (twice_stored batch) = [from_ingest batch wr, from_ingest batch wr]
    \<and> cw_inserted (gw_writer (fst (twice_stored batch))) = [from_ingest batch wr]"
proof -
  let ?r = "from_ingest batch wr"
  define g0 where "g0 = snd (ingest_handler None batch ready_gateway)"
  have g0: "ch_buf (cw_rx (gw_writer g0)) = [?r]" "cw_pc (gw_writer g0) = Receiving" "cw_inserted (gw_writer g0) = []"
    unfolding g0_def
    using assms(2,3) by (simp_all add: ready_gateway_def gateway_start_def spawn_writer_def ping_ready_def channel_def ingest_handler_def
        ingest_inner_def sample_config_def MIN_SCHEMA_VERSION_def MAX_SCHEMA_VERSION_def capacity_def
        ingest_channel_capacity_def MIN_CHANNEL_SIZE_def Let_def)
  have "tbl_reachable no_env sample_config B (ready_gateway, [])"
    by (rule store_task_steps [of _ _ _ "gateway_start no_env sample_config" "[]" "lost_ack []" up])
       (simp_all add: tbl_reachable_def sample_inserts store_task_def ch_step_def ready_gateway_def gateway_start_def spawn_writer_def
          up_def Let_def)
  moreover have "tbl_step B (ready_gateway, []) (g0, [])"
    unfolding g0_def by (rule tbl_step.request [OF _ assms(1)])
      (simp add: ready_gateway_def ping_ready_def gateway_start_def spawn_writer_def Let_def)
  ultimately have r0: "tbl_reachable no_env sample_config B (g0, [])"
    unfolding tbl_reachable_def by (rule rtranclp.rtrancl_into_rtrancl)
  obtain g1 where g1: "store_task up (lost_ack []) (g0, []) = Some (g1, [])" "cw_pc (gw_writer g1) = Filling [?r]"
      "cw_inserted (gw_writer g1) = []"
    using g0 by (simp add: store_task_def ch_step_def recv_many_def Let_def)
  have r1: "tbl_reachable no_env sample_config B (g1, [])"
    by (rule store_task_steps [OF r0 _ g1(1)]) (simp add: g0(2) sample_inserts)
  obtain g2 where g2: "store_task up (lost_ack []) (g1, []) = Some (g2, [])"
      "cw_pc (gw_writer g2) = Inserting [?r] 0 100 BackToFill" "cw_inserted (gw_writer g2) = []"
    using g1(2,3) by (simp add: store_task_def ch_step_def start_insert_def INITIAL_BACKOFF_MS_def up_def)
  have r2: "tbl_reachable no_env sample_config B (g2, [])"
    by (rule store_task_steps [OF r1 _ g2(1)]) (simp add: sample_inserts)
  obtain g3 where g3: "store_task up (lost_ack [?r]) (g2, []) = Some (g3, [?r])"
      "cw_pc (gw_writer g3) = Inserting [?r] 1 200 BackToFill" "cw_inserted (gw_writer g3) = []"
    using g2(2,3) sample_inserts(2) [of "[?r]" "[?r]"]
    by (simp add: store_task_def ch_step_def insert_attempt_def Let_def MAX_INSERT_RETRIES_def MAX_BACKOFF_MS_def lost_ack_def)
  have r3: "tbl_reachable no_env sample_config B (g3, [?r])"
    by (rule store_task_steps [OF r2 _ g3(1)]) (simp add: sample_inserts g2(2))
  obtain g4 where g4: "store_task up (acked [?r]) (g3, [?r]) = Some (g4, [?r, ?r])" "cw_inserted (gw_writer g4) = [?r]"
    using g3(2,3) sample_inserts(1) [of "[?r]" "[?r]"]
    by (simp add: store_task_def ch_step_def insert_attempt_def acked_def)
  have "tbl_reachable no_env sample_config B (g4, [?r, ?r])"
    by (rule store_task_steps [OF r3 _ g4(1)]) (simp add: sample_inserts g3(2))
  moreover have "twice_stored batch = (g4, [?r, ?r])"
    using g1(1) g2(1) g3(1) g4(1) assms(3) by (simp add: twice_stored_def g0_def [symmetric] batch_rows_def)
  ultimately show ?thesis using g4(2) by simp
qed

theorem inserted_rows_are_stored_witness:
  "mset (cw_inserted (gw_writer (fst (twice_stored sample_batch)))) \<subseteq># mset (snd (twice_stored sample_batch))
   \<and> count (mset (snd (twice_stored sample_batch))) (from_ingest sample_batch sample_row) = 2
   \<and> count (mset (snd (twice_stored sample_batch))) (from_ingest sample_batch sample_row)
       \<le> 5 * count (mset (gw_accepted (fst (twice_stored sample_batch)))) (from_ingest sample_batch sample_row)"
proof -
  have b: "sample_batch \<in> {sample_batch}" "ib_schema_version sample_batch = 4" "ib_workloads sample_batch = [sample_row]"
    by (simp_all add: sample_batch_def)
  obtain g t where gt: "twice_stored sample_batch = (g, t)" by fastforce
  note st = twice_stored_reachable [OF b, unfolded gt]
  from inserted_rows_are_stored [OF st [THEN conjunct1], of "from_ingest sample_batch sample_row"] st
  show ?thesis unfolding gt by simp
qed

end
