(* ===== verification/Billing.thy ===== *)
theory Billing
  imports Emit Ch_Insert
begin

text \<open>
  What is billed.  Delivery is at least once: the retry worker, the replay of the log and the
  retries of the gateway's inserts can all store a row several times.  The table is declared in
  \<^verbatim>\<open>deploy/clickhouse/01_init.sql\<close> to keep one row per node, window start and cgroup, and bills are
  read from it with \<^verbatim>\<open>FINAL\<close>.  Theorem: that key identifies the rows of a fleet of agents, so that
  whatever was stored how often, no row is billed twice and none that was inserted is missing.
\<close>

section \<open>The table\<close>

definition row_key :: "MetricRow \<Rightarrow> string \<times> u64 \<times> u64" where
  "row_key r = (mr_node r, mr_window_start_ns r, mr_cgroup_id r)"

text \<open>
  Reading a table of that engine with \<^verbatim>\<open>FINAL\<close>: one of the rows of every key.
\<close>

locale replacing_table =
  fixes final :: "MetricRow list \<Rightarrow> MetricRow list"
  assumes final_rows: "set (final t) \<subseteq> set t"
    and final_keys: "row_key ` set (final t) = row_key ` set t"
    and final_distinct: "distinct (map row_key (final t))"
begin

lemma final_once: "distinct (final t)"
  using final_distinct [of t] by (simp add: distinct_map)

lemma final_all:
  assumes "inj_on row_key (set t)"
  shows "set (final t) = set t"
proof
  show "set t \<subseteq> set (final t)"
  proof
    fix r assume r: "r \<in> set t"
    then obtain r' where r': "r' \<in> set (final t)" "row_key r' = row_key r"
      using final_keys [of t] by (metis (no_types, lifting) image_iff)
    with r assms final_rows have "r' = r" by (auto dest: inj_onD)
    with r' show "r \<in> set (final t)" by simp
  qed
qed (rule final_rows)

end

text \<open>
  The engine as it is documented: of the rows with equal keys it keeps the one with the largest
  \<^verbatim>\<open>window_end_ns\<close>, of several such the last one stored.  The table also expires rows 30 days after the start of
  their window (\<^verbatim>\<open>TTL\<close> in the same statement); that is not modelled, the bill is that of rows that have not expired.
\<close>

fun replace_row :: "MetricRow \<Rightarrow> MetricRow list \<Rightarrow> MetricRow list" where
  "replace_row r [] = [r]"
| "replace_row r (x # xs) =
     (if row_key x = row_key r then (if mr_window_end_ns x \<le> mr_window_end_ns r then r else x) # xs
      else x # replace_row r xs)"

definition replacing_final :: "MetricRow list \<Rightarrow> MetricRow list" where
  "replacing_final t = fold replace_row t []"

lemma replace_row_keys: "row_key ` set (replace_row r xs) = insert (row_key r) (row_key ` set xs)"
  by (induction xs) auto

lemma replace_row_set: "set (replace_row r xs) \<subseteq> insert r (set xs)"
  by (induction xs) auto

lemma replace_row_distinct: "distinct (map row_key xs) \<Longrightarrow> distinct (map row_key (replace_row r xs))"
proof (induction xs)
  case (Cons x xs)
  with replace_row_keys [of r xs] show ?case by (auto simp: image_iff)
qed simp

lemma fold_replace_row:
  "row_key ` set (fold replace_row t xs) = row_key ` set t \<union> row_key ` set xs
   \<and> set (fold replace_row t xs) \<subseteq> set t \<union> set xs
   \<and> (distinct (map row_key xs) \<longrightarrow> distinct (map row_key (fold replace_row t xs)))"
proof (induction t arbitrary: xs)
  case (Cons r t)
  from Cons.IH [of "replace_row r xs"] replace_row_keys [of r xs] replace_row_set [of r xs] replace_row_distinct [of xs r]
  show ?case by auto
qed simp

interpretation merge_tree: replacing_table replacing_final
  using fold_replace_row [of _ "[]"] by unfold_locales (auto simp: replacing_final_def)

section \<open>Agents\<close>

text \<open>
  An agent of the fleet: its node, the clock at its start, and what its aggregator does.  The
  clock of a node advances between two operations.
\<close>

type_synonym agent_run = "string \<times> u64 \<times> (agg_env \<times> agg_op) list"

definition clock_advances :: "u64 \<Rightarrow> (agg_env \<times> agg_op) list \<Rightarrow> bool" where
  "clock_advances now ops \<longleftrightarrow> sorted_wrt (<) (now # map (ae_now \<circ> fst) ops)"

fun run_batches :: "agent_run \<Rightarrow> BatchPayload list" where
  "run_batches (node, now, ops) = fst (agg_run node ops (Aggregator_new now))"

definition fleet_batches :: "agent_run list \<Rightarrow> IngestBatch list" where
  "fleet_batches fleet = map ingest_batch (concat (map run_batches fleet))"

definition fleet_rows :: "agent_run list \<Rightarrow> MetricRow list" where
  "fleet_rows fleet = concat (map batch_rows (fleet_batches fleet))"

section \<open>The key identifies the rows\<close>

lemma flush_window:
  assumes "flush env node a = (r, a')"
  shows "agg_window_start_ns a' = ae_now env"
    and "r = Some p \<Longrightarrow> bp_window_start_ns p = agg_window_start_ns a"
  using assms by (auto simp: flush_def Let_def reset_window_def split: if_splits)

lemma update_entry_window [simp]: "agg_window_start_ns (update_entry cid f a) = agg_window_start_ns a"
  by (simp add: update_entry_def Let_def)

lemma early_flush_window:
  assumes "try_early_flush env node a = (r, a')"
  shows "agg_window_start_ns a' = (if r = None \<and> active_len a < agg_max_keys a then agg_window_start_ns a else ae_now env)"
    and "r = Some p \<Longrightarrow> bp_window_start_ns p = agg_window_start_ns a"
  using assms flush_window [of env node a r a'] by (auto simp: try_early_flush_def split: if_splits)

text \<open>An operation that emits a batch closes the window and starts the next at its clock reading.\<close>

lemma agg_apply_window:
  assumes "agg_apply node (env, op) a = (r, a')"
  shows "r = None \<Longrightarrow> agg_window_start_ns a' \<in> {agg_window_start_ns a, ae_now env}"
    and "r = Some p \<Longrightarrow> bp_window_start_ns p = agg_window_start_ns a \<and> agg_window_start_ns a' = ae_now env"
  using assms flush_window [of env node] early_flush_window [of env node]
  by (cases op; auto simp: on_statix_event_def ingest_memory_sample_def ingest_memory_sample_inner_def ingest_cpu_sample_def Let_def
      split: if_splits prod.splits)+

lemma agg_run_windows:
  assumes "agg_run node ops a = (bs, a')" and "sorted_wrt (<) (agg_window_start_ns a # map (ae_now \<circ> fst) ops)"
  shows "sorted_wrt (<) (map bp_window_start_ns bs) \<and> (\<forall>b \<in> set bs. agg_window_start_ns a \<le> bp_window_start_ns b)"
  using assms
proof (induction ops arbitrary: a bs)
  case (Cons op ops)
  obtain env o1 where op: "op = (env, o1)" by (cases op)
  obtain r a1 where s1: "agg_apply node (env, o1) a = (r, a1)" by (cases "agg_apply node (env, o1) a")
  obtain bs1 where s2: "agg_run node ops a1 = (bs1, a')" and bs: "bs = (case r of None \<Rightarrow> bs1 | Some b \<Rightarrow> b # bs1)"
    using Cons.prems(1) s1 op by (auto split: prod.splits)
  note w = agg_apply_window [OF s1]
  have lt: "agg_window_start_ns a < ae_now env" using Cons.prems(2) op by simp
  have "agg_window_start_ns a1 \<in> {agg_window_start_ns a, ae_now env}" using w by (cases r) auto
  then have "sorted_wrt (<) (agg_window_start_ns a1 # map (ae_now \<circ> fst) ops)"
    using Cons.prems(2) op by (auto simp: comp_def)
  note IH = Cons.IH [OF s2 this]
  show ?case
  proof (cases r)
    case None
    with w(1) IH lt bs show ?thesis by fastforce
  next
    case (Some p)
    with w(2) have p: "bp_window_start_ns p = agg_window_start_ns a" "agg_window_start_ns a1 = ae_now env" by auto
    with IH lt have "\<forall>b \<in> set bs1. agg_window_start_ns a < bp_window_start_ns b" by fastforce
    with IH Some bs p show ?thesis by auto
  qed
qed simp

lemma batch_rows_fields:
  "map row_key (batch_rows (ingest_batch p)) = map (\<lambda>w. (bp_node p, bp_window_start_ns p, wr_cgroup_id w)) (bp_workloads p)"
  by (simp add: batch_rows_def from_ingest_def ingest_batch_def row_key_def)

lemma batches_keys:
  assumes "sorted_wrt (<) (map bp_window_start_ns bs)" and "\<forall>b \<in> set bs. distinct (map wr_cgroup_id (bp_workloads b))"
  shows "distinct (map row_key (concat (map (batch_rows \<circ> ingest_batch) bs)))"
  using assms
proof (induction bs)
  case (Cons p bs)
  have own: "distinct (map row_key (batch_rows (ingest_batch p)))"
    using Cons.prems(2) unfolding batch_rows_fields by (auto simp: distinct_map inj_on_def)
  have "k \<notin> set (map row_key (concat (map (batch_rows \<circ> ingest_batch) bs)))"
    if "k \<in> set (map row_key (batch_rows (ingest_batch p)))" for k
  proof
    assume "k \<in> set (map row_key (concat (map (batch_rows \<circ> ingest_batch) bs)))"
    then obtain b where b: "b \<in> set bs" "k \<in> set (map row_key (batch_rows (ingest_batch b)))" by auto
    then have "fst (snd k) = bp_window_start_ns b" "fst (snd k) = bp_window_start_ns p"
      using that unfolding batch_rows_fields by auto
    with Cons.prems(1) b(1) show False by auto
  qed
  then have "set (map row_key (batch_rows (ingest_batch p)))
      \<inter> set (map row_key (concat (map (batch_rows \<circ> ingest_batch) bs))) = {}" by blast
  moreover have "distinct (map row_key (concat (map (batch_rows \<circ> ingest_batch) bs)))"
    by (rule Cons.IH) (use Cons.prems in auto)
  ultimately show ?case
    using own unfolding list.map concat.simps comp_apply map_append distinct_append by blast
qed simp

lemma run_reports:
  assumes "clock_advances now ops"
  obtains wins cur where "concat wins @ cur = observations ops" and "list_all2 (report node) wins (run_batches (node, now, ops))"
    and "distinct (map row_key (concat (map (batch_rows \<circ> ingest_batch) (run_batches (node, now, ops)))))"
    and "\<forall>b \<in> set (run_batches (node, now, ops)). bp_node b = node"
proof -
  obtain bs a where run: "agg_run node ops (Aggregator_new now) = (bs, a)" by fastforce
  obtain wins cur where w: "concat wins @ cur = observations ops" "list_all2 (report node) wins bs"
    using agg_run_rep [OF new_rep run] by auto
  have rep: "bp_node b = node \<and> distinct (map wr_cgroup_id (bp_workloads b))" if "b \<in> set bs" for b
    using w(2) that by (auto simp: list_all2_conv_all_nth in_set_conv_nth report_def)
  have "sorted_wrt (<) (map bp_window_start_ns bs)"
    using agg_run_windows [OF run] assms by (simp add: clock_advances_def Aggregator_new_def)
  with rep have "distinct (map row_key (concat (map (batch_rows \<circ> ingest_batch) bs)))" by (intro batches_keys) auto
  with w rep run that [of wins cur] show thesis by simp
qed

lemma fleet_rows_Cons:
  "fleet_rows (ag # fleet) = concat (map (batch_rows \<circ> ingest_batch) (run_batches ag)) @ fleet_rows fleet"
  by (simp add: fleet_rows_def fleet_batches_def comp_def)

lemma run_rows_node:
  assumes "\<forall>b \<in> set bs. bp_node b = node" and "r \<in> set (concat (map (batch_rows \<circ> ingest_batch) bs))"
  shows "mr_node r = node"
  using assms by (auto simp: batch_rows_def from_ingest_def ingest_batch_def)

lemma fleet_node:
  assumes "\<forall>(node, now, ops) \<in> set fleet. clock_advances now ops" and "r \<in> set (fleet_rows fleet)"
  shows "mr_node r \<in> fst ` set fleet"
  using assms
proof (induction fleet)
  case (Cons ag fleet)
  obtain node now ops where ag: "ag = (node, now, ops)" by (cases ag)
  with Cons.prems(1) have adv: "clock_advances now ops" by auto
  obtain wins cur where n: "\<forall>b \<in> set (run_batches ag). bp_node b = node"
    using run_reports [OF adv, of node] unfolding ag by blast
  from Cons run_rows_node [OF n, of r] show ?case unfolding fleet_rows_Cons by (auto simp: ag)
qed (simp add: fleet_rows_def fleet_batches_def)

lemma fleet_keys:
  assumes "distinct (map fst fleet)" and "\<forall>(node, now, ops) \<in> set fleet. clock_advances now ops"
  shows "distinct (map row_key (fleet_rows fleet))"
  using assms
proof (induction fleet)
  case (Cons ag fleet)
  obtain node now ops where ag: "ag = (node, now, ops)" by (cases ag)
  with Cons.prems(2) have adv: "clock_advances now ops" by auto
  obtain wins cur where d: "distinct (map row_key (concat (map (batch_rows \<circ> ingest_batch) (run_batches ag))))"
      and n: "\<forall>b \<in> set (run_batches ag). bp_node b = node"
    using run_reports [OF adv, of node] unfolding ag by blast
  have "row_key r \<noteq> row_key r'"
    if r: "r \<in> set (concat (map (batch_rows \<circ> ingest_batch) (run_batches ag)))" and r': "r' \<in> set (fleet_rows fleet)" for r r'
  proof -
    have "mr_node r = node" using run_rows_node [OF n r] .
    moreover have "mr_node r' \<in> fst ` set fleet" using fleet_node [OF _ r'] Cons.prems(2) by auto
    moreover have "node \<notin> fst ` set fleet" using Cons.prems(1) ag by simp
    ultimately show ?thesis by (metis row_key_def prod.inject)
  qed
  then have "set (map row_key (concat (map (batch_rows \<circ> ingest_batch) (run_batches ag))))
      \<inter> set (map row_key (fleet_rows fleet)) = {}" unfolding set_map by blast
  with d Cons show ?case unfolding fleet_rows_Cons map_append distinct_append by auto
qed (simp add: fleet_rows_def fleet_batches_def)

section \<open>The bill\<close>

definition billed_cpu :: "string \<Rightarrow> u64 \<Rightarrow> MetricRow list \<Rightarrow> nat" where
  "billed_cpu node cid rows =
     sum_list (map (unat \<circ> mr_cpu_usage_usec) (filter (\<lambda>r. mr_node r = node \<and> mr_cgroup_id r = cid) rows))"

lemma billed_cpu_append [simp]: "billed_cpu node cid (xs @ ys) = billed_cpu node cid xs + billed_cpu node cid ys"
  by (simp add: billed_cpu_def)

lemma billed_cpu_mono:
  assumes "distinct xs" and "distinct ys" and "set xs \<subseteq> set ys"
  shows "billed_cpu node cid xs \<le> billed_cpu node cid ys"
proof -
  have "billed_cpu node cid zs = sum (unat \<circ> mr_cpu_usage_usec) {r \<in> set zs. mr_node r = node \<and> mr_cgroup_id r = cid}"
    if "distinct zs" for zs
    using that by (simp add: billed_cpu_def sum_list_distinct_conv_sum_set)
  with assms show ?thesis by (auto intro: sum_mono2)
qed

lemma billed_other_node:
  assumes "\<And>r. r \<in> set rows \<Longrightarrow> mr_node r \<noteq> node"
  shows "billed_cpu node cid rows = 0"
  using assms by (simp add: billed_cpu_def cong: filter_cong)

lemma billed_batch:
  "bp_node p = node \<Longrightarrow> billed_cpu node cid (batch_rows (ingest_batch p))
     = sum_list (map (unat \<circ> wr_cpu_usage_usec) (filter (\<lambda>w. wr_cgroup_id w = cid) (bp_workloads p)))"
  by (simp add: billed_cpu_def batch_rows_def filter_map comp_def from_ingest_def ingest_batch_def)

lemma billed_run:
  assumes "\<forall>b \<in> set bs. bp_node b = node"
  shows "billed_cpu node cid (concat (map (batch_rows \<circ> ingest_batch) bs))
       = sum_list (map (unat \<circ> wr_cpu_usage_usec) (rows_of cid bs))"
  using assms by (induction bs) (simp_all add: billed_batch rows_of_def, simp add: billed_cpu_def)

lemma fleet_bill:
  assumes "distinct (map fst fleet)" and "\<forall>(node, now, ops) \<in> set fleet. clock_advances now ops"
    and "(node, now, ops) \<in> set fleet" and "total_cpu cid (observations ops) < 2 ^ 64"
  shows "billed_cpu node cid (fleet_rows fleet) = sum_list (map (unat \<circ> wr_cpu_usage_usec) (rows_of cid (run_batches (node, now, ops))))
     \<and> billed_cpu node cid (fleet_rows fleet) \<le> total_cpu cid (observations ops)"
  using assms(1-3)
proof (induction fleet)
  case (Cons ag fleet)
  obtain node' now' ops' where ag: "ag = (node', now', ops')" by (cases ag)
  with Cons.prems(2) have adv: "clock_advances now' ops'" by auto
  obtain wins cur where w: "concat wins @ cur = observations ops'" "list_all2 (report node') wins (run_batches ag)"
      and n: "\<forall>b \<in> set (run_batches ag). bp_node b = node'"
    using run_reports [OF adv, of node'] unfolding ag by blast
  show ?case
  proof (cases "node = node'")
    case True
    with Cons.prems(1,3) ag have eq: "ag = (node, now, ops)" "node \<notin> fst ` set fleet" by (auto simp: image_iff)
    have "billed_cpu node cid (fleet_rows fleet) = 0"
      using fleet_node [of fleet] Cons.prems(2) eq(2) by (intro billed_other_node) auto
    moreover have "total_cpu cid (concat wins) \<le> total_cpu cid (observations ops)"
      using w(1) eq(1) ag by (metis le_add1 prod.inject totals_append(2))
    ultimately show ?thesis
      using billed_run [OF n, of cid] True eq reports_cpu [OF w(2), of cid] assms(4) unfolding fleet_rows_Cons by (simp add: comp_def)
  next
    case False
    then have "billed_cpu node cid (concat (map (batch_rows \<circ> ingest_batch) (run_batches ag))) = 0"
      using run_rows_node [OF n] by (intro billed_other_node) auto
    moreover have "(node, now, ops) \<in> set fleet" using False Cons.prems(3) ag by auto
    ultimately show ?thesis using Cons.IH Cons.prems(1,2) unfolding fleet_rows_Cons by simp
  qed
qed simp

section \<open>Properties\<close>

text \<open>
  C2: Billing is exactly once.  Take agents on different nodes whose clocks advance, and any run of
  the gateway on their batches: batches may be posted any number of times, in any order, and their
  inserts may fail, be retried, or be stored without an acknowledgement.  Let \<open>final\<close> read the table as
  ClickHouse does, one row per key, as long as no row has expired.  Then the bill has no row twice, has every row counted as
  inserted, and has only rows an agent emitted; the CPU time billed for a cgroup of a node
  is never more than was sampled; and once every emitted row is inserted, the bill is
  exactly the emitted rows.
\<close>

theorem billing_is_exactly_once:
  assumes "replacing_table final" and "distinct (map fst fleet)"
    and "\<forall>(node, now, ops) \<in> set fleet. clock_advances now ops"
    and "tbl_reachable env cfg (set (fleet_batches fleet)) (g, t)"
  shows "distinct (final t) \<and> set (cw_inserted (gw_writer g)) \<subseteq> set (final t) \<and> set (final t) \<subseteq> set (fleet_rows fleet)
    \<and> ((node, now, ops) \<in> set fleet \<and> total_cpu cid (observations ops) < 2 ^ 64 \<longrightarrow>
         billed_cpu node cid (final t) \<le> total_cpu cid (observations ops))
    \<and> (set (fleet_rows fleet) \<subseteq> set (cw_inserted (gw_writer g)) \<longrightarrow> mset (final t) = mset (fleet_rows fleet))"
proof -
  have ok: "mset (cw_inserted (gw_writer g)) \<subseteq># mset t" "set t \<subseteq> set (fleet_rows fleet)"
    using tbl_reachable_stored [OF assms(4)] by (auto simp: fleet_rows_def)
  note keys = fleet_keys [OF assms(2,3)]
  have d: "distinct (fleet_rows fleet)" "distinct (final t)"
    using keys replacing_table.final_once [OF assms(1)] by (simp_all add: distinct_map)
  have fin: "set (final t) = set t"
    using keys ok(2) replacing_table.final_all [OF assms(1), of t] by (auto simp: distinct_map inj_on_subset)
  have ins: "set (cw_inserted (gw_writer g)) \<subseteq> set t" using set_mset_mono [OF ok(1)] by simp
  have bill: "billed_cpu node cid (final t) \<le> billed_cpu node cid (fleet_rows fleet)"
    using billed_cpu_mono [OF d(2,1)] fin ok(2) by simp
  have "mset (final t) = mset (fleet_rows fleet)" if "set (fleet_rows fleet) \<subseteq> set (cw_inserted (gw_writer g))"
    using that d fin ins ok(2) by (simp add: set_eq_iff_mset_eq_distinct [symmetric] subset_antisym)
  with d fin ins ok(2) bill fleet_bill [OF assms(2,3), of node now ops cid] show ?thesis by auto
qed

definition sample_fleet :: "agent_run list" where
  "sample_fleet = [(''n'', 0, [(sample_env, ACpu 7 5 cache_empty), (sample_env\<lparr>ae_now := 20\<rparr>, AFlush)])]"

definition sample_emitted :: BatchPayload where
  "sample_emitted = \<lparr>bp_window_start_ns = 0, bp_window_end_ns = 20, bp_node = ''n'', bp_batch_id = ''id'', bp_agent_version = ''0.1.0'',
     bp_workloads = [workload_row 7 (default_stats\<lparr>st_cpu_usage_usec := 5\<rparr>)]\<rparr>"

lemma sample_fleet_batches: "fleet_batches sample_fleet = [ingest_batch sample_emitted]"
  by (simp add: fleet_batches_def sample_fleet_def sample_emitted_def sample_env_def ingest_cpu_sample_def try_early_flush_def
      flush_def update_entry_def active_len_def Aggregator_new_def DEFAULT_MAX_KEYS_def Let_def reset_window_def fast_batch_id_def
      default_stats_def labels_for_cgroup_def cache_empty_def sat_add_def)

text \<open>The row of the only batch is stored twice, by an insert that was not acknowledged and its retry, and billed once.\<close>

theorem billing_is_exactly_once_witness:
  "length (snd (twice_stored (ingest_batch sample_emitted))) = 2
   \<and> mset (replacing_final (snd (twice_stored (ingest_batch sample_emitted)))) = mset (fleet_rows sample_fleet)
   \<and> length (fleet_rows sample_fleet) = 1"
proof -
  obtain w where b: "ingest_batch sample_emitted \<in> set (fleet_batches sample_fleet)"
      "ib_schema_version (ingest_batch sample_emitted) = 4" "ib_workloads (ingest_batch sample_emitted) = [w]"
    by (simp add: sample_fleet_batches) (simp add: ingest_batch_def sample_emitted_def SCHEMA_VERSION_def)
  obtain g t where gt: "twice_stored (ingest_batch sample_emitted) = (g, t)" by fastforce
  note st = twice_stored_reachable [OF b, unfolded gt]
  have rows: "fleet_rows sample_fleet = [from_ingest (ingest_batch sample_emitted) w]"
    using b(3) by (simp add: fleet_rows_def sample_fleet_batches batch_rows_def)
  have "\<forall>(node, now, ops) \<in> set sample_fleet. clock_advances now ops"
    by (simp add: sample_fleet_def clock_advances_def sample_env_def)
  moreover have "distinct (map fst sample_fleet)" by (simp add: sample_fleet_def)
  ultimately have "mset (replacing_final t) = mset (fleet_rows sample_fleet)"
    using billing_is_exactly_once [OF merge_tree.replacing_table_axioms _ _ st [THEN conjunct1]] st rows by simp
  with st rows gt show ?thesis by simp
qed

end
