(* ===== verification/Sleeps.thy ===== *)
theory Sleeps
  imports F64_Order Output Attribution
begin

text \<open>
  The lengths of the agent's sleeps, computed in double precision: the spread of the probes after
  an outage (\<^verbatim>\<open>wal/drainer.rs\<close>, \<^verbatim>\<open>output.rs\<close>), the backoff of the retry worker (\<^verbatim>\<open>output.rs\<close>) and of the
  pod watcher (\<^verbatim>\<open>attribution/mod.rs\<close>).  A length that is negative, not a number or too large
  makes \<^verbatim>\<open>Duration::from_secs_f64\<close> panic, which would end the task.  Theorem: each is within a
  millisecond of the real number it stands for and none panics, if the configured backoff is below \<open>2 ^ 40\<close>
  seconds; with the largest backoff that can be configured the retry worker panics.
\<close>

section \<open>Addition and durations\<close>

fun f64_add :: "f64 \<Rightarrow> f64 \<Rightarrow> f64" where
  "f64_add F64_NaN y = F64_NaN"
| "f64_add x F64_NaN = F64_NaN"
| "f64_add (F64_Inf s) (F64_Inf t) = (if s = t then F64_Inf s else F64_NaN)"
| "f64_add (F64_Inf s) (F64 t n f) = F64_Inf s"
| "f64_add (F64 s m e) (F64_Inf t) = F64_Inf t"
| "f64_add (F64 s m e) (F64 t n f) =
     (case (f64_int_frac s m e, f64_int_frac t n f) of
        ((a, b), (c, d)) \<Rightarrow>
          let num = a * d + c * b
          in f64_round (if num = 0 then s \<and> t else num < 0) (nat \<bar>num\<bar>, nat (b * d)))"

text \<open>\<^verbatim>\<open>Duration::from_secs_f64\<close> panics unless the number is finite, not negative and below \<open>2 ^ 64\<close>.\<close>

definition from_secs_f64_ok :: "f64 \<Rightarrow> bool" where
  "from_secs_f64_ok x \<longleftrightarrow> f64_is_finite x \<and> f64_nonneg x \<and> f64_gt (F64 False 1 64) x"

definition f64_0_3 :: f64 where
  "f64_0_3 = f64_round False (3, 10)"

section \<open>Sleeps\<close>

text \<open>\<open>hash\<close> is the hash of the node's name, \<open>rnd\<close> a random number between 0 and 1.\<close>

definition recovery_spread_secs :: "u64 \<Rightarrow> f64 \<Rightarrow> f64" where
  "recovery_spread_secs hash rnd =
     (let spread_secs = f64_div (f64_of_u64 (hash mod 30000)) (f64_of_u64 1000)
      in f64_add (f64_mul rnd (f64_of_u64 5)) spread_secs)"

definition recovery_spread_sleep_secs :: "u64 \<Rightarrow> f64 \<Rightarrow> f64" where
  "recovery_spread_sleep_secs hash rnd =
     (let spread_secs = f64_div (f64_of_u64 (hash mod 30000)) (f64_of_u64 1000)
      in f64_add (f64_mul rnd (f64_of_u64 5)) spread_secs)"

definition retry_sleep_secs :: "f64 \<Rightarrow> u64 \<Rightarrow> f64" where
  "retry_sleep_secs rnd backoff_secs =
     (let jitter = f64_mul rnd (f64_mul (f64_of_u64 backoff_secs) f64_0_3)
      in f64_add (f64_of_u64 backoff_secs) jitter)"

definition reconnect_jitter :: "f64 \<Rightarrow> nat \<Rightarrow> f64" where
  "reconnect_jitter rnd reconnect_backoff = f64_mul (f64_mul rnd (f64_of_u64 (word_of_nat reconnect_backoff))) f64_0_3"

section \<open>Bounds\<close>

lemma f64_val_nonneg [simp]: "0 \<le> f64_val m e"
  by (simp add: f64_val_def)

lemma f64_val_mult: "f64_val (m * n) (e + f) = f64_val m e * f64_val n f"
  by (simp add: f64_val_def power_int_add)

text \<open>
  Doubles close to a real number.  Up to \<open>2 ^ 40 + 2 ^ 39\<close>, which is 1649267441664, the doubles include all multiples of \<open>2 ^ - 12\<close>, so one rounding
  changes a value by at most that.
\<close>

fun f64_near :: "real \<Rightarrow> real \<Rightarrow> f64 \<Rightarrow> bool" where
  "f64_near eps v (F64 neg m e) = (\<not> neg \<and> \<bar>f64_val m e - v\<bar> \<le> eps)"
| "f64_near eps v _ = False"

lemma f64_nearE:
  assumes "f64_near eps v x"
  obtains m e where "x = F64 False m e" and "\<bar>f64_val m e - v\<bar> \<le> eps"
  using assms by (cases x) auto

lemma f64_round_near:
  assumes "0 < den" and "v = real num / real den" and "v \<le> 1649267441664"
  shows "f64_near (1 / 4096) v (f64_round False (num, den))"
proof (cases "num = 0")
  case True
  then show ?thesis using assms(2) by (simp add: f64_round_def f64_val_def)
next
  case False
  define p where "p = num * 2 ^ 12 div den"
  have p: "p * den \<le> num * 2 ^ 12" "num * 2 ^ 12 \<le> (p + 1) * den"
    using assms(1) dividend_less_div_times [of den "num * 2 ^ 12"] by (simp_all add: p_def)
  have "real (p * den) \<le> real (num * 2 ^ 12)" "real (num * 2 ^ 12) \<le> real ((p + 1) * den)"
    using p by (simp_all only: of_nat_le_iff)
  then have r: "real p / 2 ^ 12 \<le> v" "v \<le> real (p + 1) / 2 ^ 12"
    using assms(1) unfolding assms(2) by (simp_all add: field_simps)
  then have "real p < real (2 ^ 53 - 1)" using assms(3) by simp
  then have p53: "p < 2 ^ 53" "p + 1 < 2 ^ 53" by (simp_all only: of_nat_less_iff)
  have "f64_at_most (real (p + 1) / 2 ^ 12) (f64_round False (num, den))"
    using f64_round_below [OF assms(1) p53(2) _ p(2)] by simp
  then obtain m e where x: "f64_round False (num, den) = F64 False m e" "f64_val m e \<le> real (p + 1) / 2 ^ 12"
    by (cases "f64_round False (num, den)") auto
  have "f64_at_least (real p / 2 ^ 12) (F64 False m e)"
    using f64_round_above [OF _ assms(1) p53(1) _ p(1)] False unfolding x(1) by simp
  then have "real p / 2 ^ 12 \<le> f64_val m e" by simp
  moreover have "real (p + 1) / 2 ^ 12 = real p / 2 ^ 12 + 1 / 4096" by (simp add: add_divide_distrib)
  ultimately have "\<bar>f64_val m e - v\<bar> \<le> 1 / 4096" using r x(2) by linarith
  then show ?thesis unfolding x(1) by simp
qed

lemma f64_mul_near:
  assumes "f64_val m e * f64_val n f \<le> 1649267441664"
  shows "f64_near (1 / 4096) (f64_val m e * f64_val n f) (f64_mul (F64 False m e) (F64 False n f))"
proof -
  obtain num den where fr: "f64_frac (m * n) (e + f) = (num, den)" by fastforce
  note v = frac_val [OF fr]
  from f64_round_near [OF v(1) refl, of num] assms v(2) show ?thesis by (simp add: fr f64_val_mult)
qed

lemma f64_add_nonneg:
  obtains num den where "f64_add (F64 False m e) (F64 False n f) = f64_round False (num, den)" and "0 < den"
    and "real num / real den = f64_val m e + f64_val n f"
proof -
  obtain a b c d where fr: "f64_frac m e = (a, b)" "f64_frac n f = (c, d)" by fastforce
  note v = frac_val [OF fr(1)] frac_val [OF fr(2)]
  have "f64_add (F64 False m e) (F64 False n f) = f64_round False (a * d + c * b, b * d)"
    by (simp add: f64_int_frac_def fr Let_def nat_mult_distrib nat_add_distrib flip: of_nat_mult of_nat_add)
  moreover have "real (a * d + c * b) / real (b * d) = f64_val m e + f64_val n f" using v by (simp add: field_simps)
  ultimately show thesis using that v(1,3) by (metis nat_0_less_mult_iff)
qed

lemma f64_add_near:
  assumes "f64_val m e + f64_val n f \<le> 1649267441664"
  shows "f64_near (1 / 4096) (f64_val m e + f64_val n f) (f64_add (F64 False m e) (F64 False n f))"
proof -
  obtain num den where s: "f64_add (F64 False m e) (F64 False n f) = f64_round False (num, den)" "0 < den"
      "real num / real den = f64_val m e + f64_val n f"
    by (rule f64_add_nonneg)
  from f64_round_near [OF s(2) refl, of num] s assms show ?thesis by simp
qed

lemma f64_div_near:
  assumes "f64_val n f = real c" and "0 < c" and "f64_val m e / real c \<le> 1649267441664"
  shows "f64_near (1 / 4096) (f64_val m e / real c) (f64_div (F64 False m e) (F64 False n f))"
proof -
  obtain num den where s: "f64_div (F64 False m e) (F64 False n f) = f64_round False (num, den)" "0 < den"
      "real num / real den = f64_val m e / real c"
    using assms(1,2) by (rule f64_div_fraction)
  from f64_round_near [OF s(2) refl, of num] s assms(3) show ?thesis by simp
qed

lemma f64_of_u64_val:
  assumes "n = unat w" and "n < 2 ^ 53"
  shows "\<exists>m e. f64_of_u64 w = F64 False m e \<and> f64_val m e = real n"
proof -
  have n: "f64_nat (f64_of_u64 w) n" using f64_of_u64_exact [of w] assms by simp
  then obtain m e where w: "f64_of_u64 w = F64 False m e" by (auto simp: f64_nat_def)
  with f64_nat_val [of False m e n] n show ?thesis by simp
qed

lemma from_secs_ok:
  assumes "f64_at_most b x" and "b < 2 ^ 64"
  shows "from_secs_f64_ok x"
proof -
  obtain m e where x: "x = F64 False m e" "f64_val m e \<le> b" using assms(1) by (cases x) auto
  have "f64_val 1 64 = 2 ^ 64" by (simp add: f64_val_def)
  then have "f64_gt (F64 False 1 64) (F64 False m e)" unfolding f64_gt_val using x(2) assms(2) by simp
  with x(1) show ?thesis unfolding from_secs_f64_ok_def by simp
qed

lemma near_from_secs_ok:
  assumes "f64_near eps v x" and "v + eps < 2 ^ 64"
  shows "from_secs_f64_ok x"
proof -
  obtain m e where x: "x = F64 False m e" "\<bar>f64_val m e - v\<bar> \<le> eps" using assms(1) by (rule f64_nearE)
  then have "f64_at_most (v + eps) x" by (simp add: abs_le_iff)
  from from_secs_ok [OF this assms(2)] show ?thesis .
qed

text \<open>The constant 0.3 is the closest double, a little below.\<close>

lemma f64_0_3_val: "f64_0_3 = F64 False 5404319552844595 (- 54)"
proof -
  have "bit_len 3 = 2" "bit_len 10 = 4" using bit_len_unique [of 1 3] bit_len_unique [of 3 10] by simp_all
  then have "f64_exponent (3, 10) = - 54" by (simp add: f64_exponent_def scale2_def)
  then show ?thesis by (simp add: f64_0_3_def f64_round_def scale2_def round_half_even_def Let_def)
qed

lemma f64_0_3_near: "f64_val 5404319552844595 (- 54) \<le> 3 / 10" "3 / 10 - f64_val 5404319552844595 (- 54) \<le> 1 / 2 ^ 54"
  by (simp_all add: f64_val_def)

text \<open>A product with a factor between 0 and 1.\<close>

lemma scaled_error:
  assumes "\<bar>a - b\<bar> \<le> (eps :: real)" and "0 \<le> r" and "r \<le> 1"
  shows "\<bar>r * a - r * b\<bar> \<le> eps"
proof -
  have "\<bar>r * a - r * b\<bar> = r * \<bar>a - b\<bar>" using assms(2) by (simp add: abs_mult flip: right_diff_distrib)
  also have "\<dots> \<le> 1 * eps" using assms by (intro mult_mono) auto
  finally show ?thesis by simp
qed

lemma times_0_3:
  assumes "0 \<le> a" and "a \<le> 1099511627777"
  shows "\<bar>a * f64_val 5404319552844595 (- 54) - 3 / 10 * a\<bar> \<le> 1 / 8192"
proof -
  let ?c = "f64_val 5404319552844595 (- 54)"
  have "\<bar>a * ?c - 3 / 10 * a\<bar> = a * (3 / 10 - ?c)"
    using assms(1) f64_0_3_near(1) mult_left_mono [of ?c "3 / 10" a] by (simp add: abs_if algebra_simps)
  also have "\<dots> \<le> 1099511627777 * (1 / 2 ^ 54)" using assms f64_0_3_near by (intro mult_mono) auto
  finally show ?thesis by simp
qed

lemma spread_near:
  assumes "rnd = F64 False rm re" and "f64_val rm re \<le> 1" and "n = unat (hash mod 30000)"
  shows "f64_near (1 / 1024) (5 * f64_val rm re + real n / 1000) (recovery_spread_secs hash rnd)"
proof -
  let ?r = "f64_val rm re" and ?h = "real n"
  have h: "n < 30000" using assms(3) by (simp add: unat_mod)
  then have h': "?h \<le> 30000" by simp
  obtain hm he where hv: "f64_of_u64 (hash mod 30000) = F64 False hm he" "f64_val hm he = ?h"
    using f64_of_u64_val [OF assms(3)] h by auto
  obtain km ke where kv: "f64_of_u64 1000 = F64 False km ke" "f64_val km ke = real 1000" using f64_of_u64_val [of 1000 1000] by auto
  obtain fm fe where fv: "f64_of_u64 5 = F64 False fm fe" "f64_val fm fe = 5" using f64_of_u64_val [of 5 5] by auto
  have "f64_near (1 / 4096) (?h / 1000) (f64_div (F64 False hm he) (F64 False km ke))"
    using f64_div_near [OF kv(2), of hm he] hv(2) h' by simp
  then obtain dm de where d: "f64_div (F64 False hm he) (F64 False km ke) = F64 False dm de" "\<bar>f64_val dm de - ?h / 1000\<bar> \<le> 1 / 4096"
    by (rule f64_nearE)
  have "f64_near (1 / 4096) (?r * 5) (f64_mul rnd (F64 False fm fe))"
    using f64_mul_near [of rm re fm fe] assms fv(2) by simp
  then obtain jm je where j: "f64_mul rnd (F64 False fm fe) = F64 False jm je" "\<bar>f64_val jm je - ?r * 5\<bar> \<le> 1 / 4096"
    by (rule f64_nearE)
  have "f64_val jm je + f64_val dm de \<le> 1649267441664" using j(2) d(2) h' assms(2) by linarith
  from f64_add_near [OF this] obtain m e where
    s: "f64_add (F64 False jm je) (F64 False dm de) = F64 False m e" "\<bar>f64_val m e - (f64_val jm je + f64_val dm de)\<bar> \<le> 1 / 4096"
    by (rule f64_nearE)
  have "recovery_spread_secs hash rnd = F64 False m e"
    unfolding recovery_spread_secs_def Let_def hv(1) kv(1) fv(1) d(1) j(1) s(1) ..
  moreover have "\<bar>f64_val m e - (5 * ?r + ?h / 1000)\<bar> \<le> 1 / 1024" using s(2) d(2) j(2) by linarith
  ultimately show ?thesis by simp
qed

lemma retry_near:
  assumes "rnd = F64 False rm re" and "f64_val rm re \<le> 1" and "n = unat b" and "n \<le> 2 ^ 40"
  shows "f64_near (1 / 1024) (real n + 3 / 10 * real n * f64_val rm re) (retry_sleep_secs rnd b)"
proof -
  let ?r = "f64_val rm re" and ?b = "real n" and ?c = "f64_val 5404319552844595 (- 54)"
  have b: "?b \<le> 1099511627776" using assms(4) by simp
  obtain bm be where bv: "f64_of_u64 b = F64 False bm be" "f64_val bm be = ?b"
    using f64_of_u64_val [OF assms(3)] assms(4) by auto
  have c: "\<bar>?b * ?c - 3 / 10 * ?b\<bar> \<le> 1 / 8192" using times_0_3 [of ?b] b by simp
  then have "?b * ?c \<le> 1649267441664" using b by linarith
  then have "f64_near (1 / 4096) (?b * ?c) (f64_mul (F64 False bm be) f64_0_3)"
    using f64_mul_near [of bm be 5404319552844595 "- 54"] bv(2) unfolding f64_0_3_val by simp
  then obtain tm te where t: "f64_mul (F64 False bm be) f64_0_3 = F64 False tm te" "\<bar>f64_val tm te - ?b * ?c\<bar> \<le> 1 / 4096"
    by (rule f64_nearE)
  have t3: "\<bar>f64_val tm te - 3 / 10 * ?b\<bar> \<le> 1 / 4096 + 1 / 8192" using t(2) c by linarith
  note rt = scaled_error [OF t3 f64_val_nonneg assms(2)]
  have rb: "?r * (3 / 10 * ?b) \<le> 1 * (3 / 10 * ?b)" using assms(2) by (intro mult_right_mono) simp_all
  have "?r * f64_val tm te \<le> 1649267441664" using rt rb b by linarith
  from f64_mul_near [OF this] obtain jm je where
    j: "f64_mul rnd (F64 False tm te) = F64 False jm je" "\<bar>f64_val jm je - ?r * f64_val tm te\<bar> \<le> 1 / 4096"
    unfolding assms(1) by (rule f64_nearE)
  have "f64_val bm be + f64_val jm je \<le> 1649267441664" using j(2) rt rb b bv(2) by linarith
  from f64_add_near [OF this] obtain m e where
    s: "f64_add (F64 False bm be) (F64 False jm je) = F64 False m e" "\<bar>f64_val m e - (f64_val bm be + f64_val jm je)\<bar> \<le> 1 / 4096"
    by (rule f64_nearE)
  have "retry_sleep_secs rnd b = F64 False m e"
    unfolding retry_sleep_secs_def Let_def bv(1) t(1) j(1) s(1) ..
  moreover have "\<bar>f64_val m e - (?b + 3 / 10 * ?b * ?r)\<bar> \<le> 1 / 1024"
    using s(2) j(2) rt bv(2) mult.commute [of ?r "3 / 10 * ?b"] by linarith
  ultimately show ?thesis by simp
qed

lemma jitter_near:
  assumes "rnd = F64 False rm re" and "f64_val rm re \<le> 1" and "b \<le> 300"
  shows "f64_near (1 / 1024) (3 / 10 * real b * f64_val rm re) (reconnect_jitter rnd b)"
proof -
  let ?r = "f64_val rm re" and ?c = "f64_val 5404319552844595 (- 54)"
  have u: "unat (word_of_nat b :: u64) = b" using assms(3) by (simp add: unat_of_nat)
  obtain bm be where bv: "f64_of_u64 (word_of_nat b) = F64 False bm be" "f64_val bm be = real b"
    using f64_of_u64_val [OF u [symmetric]] assms(3) by auto
  have rb: "?r * real b \<le> 1 * real b" using assms(2) by (intro mult_right_mono) simp_all
  then have "?r * real b \<le> 1649267441664" using assms(3) by simp
  then have "f64_near (1 / 4096) (?r * real b) (f64_mul rnd (F64 False bm be))"
    using f64_mul_near [of rm re bm be] bv(2) assms(1) by simp
  then obtain tm te where t: "f64_mul rnd (F64 False bm be) = F64 False tm te" "\<bar>f64_val tm te - ?r * real b\<bar> \<le> 1 / 4096"
    by (rule f64_nearE)
  have "real b \<le> 300" using assms(3) by simp
  with t(2) rb have tb: "f64_val tm te \<le> 301" by linarith
  have c: "\<bar>f64_val tm te * ?c - 3 / 10 * f64_val tm te\<bar> \<le> 1 / 8192" using times_0_3 [of "f64_val tm te"] tb by simp
  then have "f64_val tm te * ?c \<le> 1649267441664" using tb by linarith
  from f64_mul_near [OF this] obtain m e where
    s: "f64_mul (F64 False tm te) f64_0_3 = F64 False m e" "\<bar>f64_val m e - f64_val tm te * ?c\<bar> \<le> 1 / 4096"
    unfolding f64_0_3_val by (rule f64_nearE)
  have "reconnect_jitter rnd b = F64 False m e" unfolding reconnect_jitter_def bv(1) t(1) s(1) ..
  moreover have "\<bar>f64_val m e - 3 / 10 * real b * ?r\<bar> \<le> 1 / 1024"
    using s(2) c t(2) mult.commute [of ?r "real b"] by linarith
  ultimately show ?thesis by simp
qed

lemma turn_backoff:
  assumes "5 \<le> fst bs" and "fst bs \<le> 300" and "watch_k8s_pods_turn configured events listing bs = (slept, nxt, s)"
  shows "5 \<le> slept" and "slept \<le> 300" and "5 \<le> nxt" and "nxt \<le> 300"
proof -
  have f: "\<exists>s'. fold (\<lambda>ev (_, s). (5, watch_event_step ev s)) events (b, s) = (if events = [] then b else 5, s')" for b :: nat and s
  proof (induction events arbitrary: b s)
    case (Cons ev events)
    from Cons.IH [of 5 "watch_event_step ev s"] show ?case by (cases events) auto
  qed simp
  show "5 \<le> slept" "slept \<le> 300" "5 \<le> nxt" "nxt \<le> 300"
    using assms f [of "fst bs" "snd bs"] by (auto simp: watch_k8s_pods_turn_def MAX_RECONNECT_BACKOFF_def Let_def split: prod.splits)
qed

lemma watch_backoff:
  assumes "5 \<le> fst bs" and "fst bs \<le> 300"
  shows "5 \<le> fst (watch_k8s_pods turns bs) \<and> fst (watch_k8s_pods turns bs) \<le> 300"
  using assms
proof (induction turns arbitrary: bs)
  case (Cons t turns)
  with turn_backoff [OF Cons.prems] show ?case by (auto simp: Let_def split: prod.splits)
qed simp

text \<open>The backoff is read from the environment without a limit: the largest value makes the worker panic.\<close>

lemma huge_backoff_panics: "\<not> from_secs_f64_ok (retry_sleep_secs (F64 False 0 0) (- 1))"
proof -
  have bl: "bit_len 18446744073709551615 = 64" "bit_len 1 = 1"
    using bit_len_unique [of 63 18446744073709551615] bit_len_unique [of 0 1] by simp_all
  have x: "f64_exponent (18446744073709551615, 1) = 11"
    unfolding f64_exponent_def by (simp add: bl [simplified] scale2_def)
  have b: "f64_of_u64 (- 1) = F64 False (2 ^ 53) 11"
    by (simp add: f64_of_u64_def f64_round_def x [simplified] scale2_def round_half_even_def unsigned_minus_1_eq_mask mask_eq_exp_minus_1 Let_def)
  have z: "f64_mul (F64 False 0 0) x = F64_NaN \<or> (\<exists>t. f64_mul (F64 False 0 0) x = F64 t 0 0)" for x
    by (cases x) (auto simp: f64_frac_def f64_round_def)
  have "f64_exact (2 ^ 64)" unfolding f64_exact_def using power_strict_increasing [of 64 1024 "2 :: nat"]
    by (intro exI [of _ 1] exI [of _ 64] conjI) simp_all
  then have ex: "f64_nat (f64_round False (2 ^ 64, 1)) (2 ^ 64)" using f64_round_exact [of "2 ^ 64" 0] by simp
  then obtain m e where big1: "f64_round False (2 ^ 64, 1) = F64 False m e" unfolding f64_nat_def by blast
  have big: "f64_round False (2 ^ 64, 1) = F64 False m e" "f64_val m e = 2 ^ 64"
    using f64_nat_val [OF ex [unfolded big1]] big1 by simp_all
  have one: "f64_val 1 64 = 2 ^ 64" by (simp add: f64_val_def)
  have "\<not> f64_gt (F64 False 1 64) (F64 False m e)" unfolding f64_gt_val one big(2) by simp
  moreover have "f64_add (F64 False (2 ^ 53) 11) (F64 t 0 0) = F64 False m e" for t
    using big(1) by (simp add: f64_int_frac_def f64_frac_def)
  ultimately show ?thesis
    using z [of "f64_mul (f64_of_u64 (- 1)) f64_0_3"] unfolding retry_sleep_secs_def from_secs_f64_ok_def b Let_def by auto
qed

definition huge_backoff_env :: environ where
  "huge_backoff_env = [''STATIX_BACKOFF_INITIAL_SECS'' \<mapsto> ''18446744073709551615'']"

lemma huge_backoff_configured: "rw_backoff (init_retry_worker huge_backoff_env) = - 1"
proof -
  have "parse_uint (2 ^ 64) ''18446744073709551615'' = Some 18446744073709551615"
    by (simp add: parse_uint_def digit_val_def Let_def)
  then show ?thesis
    by (simp add: init_retry_worker_def huge_backoff_env_def read_env_u64_def read_env_positive_def var_with_legacy_def Let_def)
qed

section \<open>Properties\<close>

text \<open>
  C36: The sleeps of the agent.  For every hash of the node's name and every random number \<open>r\<close> between
  0 and 1, each sleep is within a millisecond of the length meant: the spread after an outage of \<open>5 r\<close> seconds plus
  the hash modulo 30000 in milliseconds; the backoff of the retry worker, after any outcomes of its posts, plus 30
  percent of it times \<open>r\<close>; and the pod watcher's jitter of 30 percent times \<open>r\<close> of a backoff of 5 to 300 seconds, after any
  number of turns.  None of these lengths makes \<^verbatim>\<open>Duration::from_secs_f64\<close> panic, for the retry worker provided that
  the configured maximum of the backoff is at most \<open>2 ^ 40\<close> seconds: the source sets no limit, and with the largest
  value that can be configured the first sleep panics.
\<close>

theorem sleeps_are_accurate:
  assumes "rnd = F64 False rm re" and "r = f64_val rm re" and "r \<le> 1"
    and "rw = fst (fold (\<lambda>out (rw, cb). worker_outcome out rw cb) outs (init_retry_worker env, cb))"
    and "unat (rw_max (init_retry_worker env)) \<le> 2 ^ 40" and "b = unat (rw_backoff rw)"
    and "watch_k8s_pods_turn configured events listing (watch_k8s_pods turns (5, s0)) = (slept, nxt, s)"
  shows "f64_near (1 / 1024) (5 * r + real (unat hash mod 30000) / 1000) (recovery_spread_secs hash rnd)
    \<and> from_secs_f64_ok (recovery_spread_secs hash rnd)
    \<and> recovery_spread_sleep_secs hash rnd = recovery_spread_secs hash rnd
    \<and> f64_near (1 / 1024) (real b + 3 / 10 * real b * r) (retry_sleep_secs rnd (rw_backoff rw))
    \<and> from_secs_f64_ok (retry_sleep_secs rnd (rw_backoff rw))
    \<and> 5 \<le> slept \<and> slept \<le> 300
    \<and> f64_near (1 / 1024) (3 / 10 * real slept * r) (reconnect_jitter rnd slept)
    \<and> from_secs_f64_ok (reconnect_jitter rnd slept)
    \<and> \<not> from_secs_f64_ok (retry_sleep_secs (F64 False 0 0) (rw_backoff (init_retry_worker huge_backoff_env)))"
proof -
  have r: "f64_val rm re \<le> 1" "0 \<le> r" using assms(2,3) by simp_all
  have "unat hash mod 30000 = unat (hash mod 30000)" by (simp add: unat_mod)
  from spread_near [OF assms(1) r(1) this]
  have spread: "f64_near (1 / 1024) (5 * r + real (unat hash mod 30000) / 1000) (recovery_spread_secs hash rnd)"
    unfolding assms(2) .
  have "unat hash mod 30000 < 30000" by simp
  then have "real (unat hash mod 30000) < real 30000" by (simp only: of_nat_less_iff)
  then have spread_le: "5 * r + real (unat hash mod 30000) / 1000 + 1 / 1024 < 2 ^ 64" using assms(3) by simp
  have "rw_backoff rw \<le> rw_max (init_retry_worker env)" using backoff_bounded [OF assms(4)] assms(5) by simp
  then have b: "b \<le> 2 ^ 40" using assms(5,6) by (simp add: word_le_nat_alt)
  from retry_near [OF assms(1) r(1) assms(6) b]
  have retry: "f64_near (1 / 1024) (real b + 3 / 10 * real b * r) (retry_sleep_secs rnd (rw_backoff rw))"
    unfolding assms(2) .
  have rb: "real b * r \<le> real b * 1" using assms(3) by (intro mult_left_mono) simp_all
  have "real b \<le> 1099511627776" using b by simp
  with rb have retry_le: "real b + 3 / 10 * real b * r + 1 / 1024 < 2 ^ 64" by simp
  have sl: "5 \<le> slept" "slept \<le> 300"
    using turn_backoff [OF _ _ assms(7)] watch_backoff [of "(5, s0)" turns] by simp_all
  from jitter_near [OF assms(1) r(1) sl(2)]
  have jitter: "f64_near (1 / 1024) (3 / 10 * real slept * r) (reconnect_jitter rnd slept)" unfolding assms(2) .
  have "real slept * r \<le> real slept * 1" using assms(3) by (intro mult_left_mono) simp_all
  then have jitter_le: "3 / 10 * real slept * r + 1 / 1024 < 2 ^ 64" using sl(2) by simp
  have "recovery_spread_sleep_secs hash rnd = recovery_spread_secs hash rnd"
    by (simp add: recovery_spread_sleep_secs_def recovery_spread_secs_def)
  moreover note near_from_secs_ok [OF spread spread_le] near_from_secs_ok [OF retry retry_le] near_from_secs_ok [OF jitter jitter_le]
  moreover have "\<not> from_secs_f64_ok (retry_sleep_secs (F64 False 0 0) (rw_backoff (init_retry_worker huge_backoff_env)))"
    unfolding huge_backoff_configured by (rule huge_backoff_panics)
  ultimately show ?thesis using spread retry jitter sl by blast
qed

theorem sleeps_are_accurate_witness:
  "f64_near (1 / 1024) (1 + 3 / 10 * 1 * (1 / 2)) (retry_sleep_secs (F64 False 1 (- 1)) (rw_backoff (init_retry_worker (\<lambda>_. None))))"
proof -
  have i: "unat (rw_max (init_retry_worker (\<lambda>_. None))) = 30" "unat (rw_backoff (init_retry_worker (\<lambda>_. None))) = 1"
    by (simp_all add: init_retry_worker_def read_env_u64_def read_env_positive_def var_with_legacy_def Let_def)
  have v: "1 / 2 = f64_val 1 (- 1)" by (simp add: f64_val_def)
  have w: "fst (fold (\<lambda>out (rw, cb). worker_outcome out rw cb) [] (init_retry_worker (\<lambda>_. None), cb)) = init_retry_worker (\<lambda>_. None)" for cb
    by simp
  obtain slept nxt s where t: "watch_k8s_pods_turn False [] (Inr []) (watch_k8s_pods [] (5, cache_empty)) = (slept, nxt, s)"
    by (metis prod_cases3)
  from sleeps_are_accurate [OF refl v _ w [symmetric] _ _ t, of 1] i show ?thesis by simp
qed

end
