(* ===== verification/Source_Tests.thy ===== *)
theory Source_Tests
  imports Agent_Main Gateway_Main
begin

text \<open>
  Unit tests of the repository, run on the model by kernel evaluation.  Each lemma checks the
  assertions of a test, or of two tests that share their input, on the definitions that model the
  code under test, so that a definition that drifts from its source fails here first.  The tests of the
  write-ahead log are not repeated: they are instances of the theorems of \<^verbatim>\<open>Segment\<close>,
  \<^verbatim>\<open>Wal_Queue\<close>, \<^verbatim>\<open>Wal_Recovery\<close> and \<^verbatim>\<open>Circuit\<close>, which hold for every input.
\<close>

lemmas str_eval = strip_suffix_def trim_def is_ws_def to_ascii_lowercase_def to_ascii_lower_def digit_val_def Let_def

section \<open>statix-infra/src/env.rs\<close>

lemmas env_eval = read_env_u64_def read_env_usize_def read_env_positive_def var_with_legacy_def parse_uint_def str_eval

lemma read_env_u64_rejects_zero_and_negative_strings:
  "read_env_u64 [''K'' \<mapsto> ''0''] ''K'' 42 = 42 \<and> read_env_u64 [''K'' \<mapsto> ''-1''] ''K'' 42 = 42
   \<and> read_env_u64 [''K'' \<mapsto> ''10''] ''K'' 42 = 10"
  by (simp add: env_eval)

lemma read_env_usize_rejects_zero:
  "read_env_usize [''K'' \<mapsto> ''0''] ''K'' 99 = 99 \<and> read_env_usize [''K'' \<mapsto> ''5''] ''K'' 99 = 5"
  by (simp add: env_eval)

section \<open>statix/src/attribution/mod.rs\<close>

definition ID_A :: string where
  "ID_A = ''af223617009e7b29a5359185bbe2a9b79b296314cc8e4eca93ecbd19d7c0daae''"

definition ID_B :: string where
  "ID_B = replicate 64 CHR ''b''"

lemma pod_uid_test_paths:
  "map (\<lambda>p. pod_uid_from_path (path_of_str p))
     [''/kubepods.slice/kubepods-burstable.slice/kubepods-burstable-pod2b7669e8_6828_4310_9a1f_0eaad6933466.slice/cri-containerd-af22.scope'',
      ''/kubepods.slice/kubepods-pod2b7669e8_6828_4310_9a1f_0eaad6933466.slice/cri-containerd-af22.scope'',
      ''/kubepods/besteffort/pod2b7669e8-6828-4310-9a1f-0eaad6933466/af22'']
   = replicate 3 (Some ''2b7669e8-6828-4310-9a1f-0eaad6933466'')"
  by code_simp

lemma pod_uid_none_outside_kubernetes:
  "pod_uid_from_path (path_of_str ''/system.slice/ssh.service'') = None
   \<and> pod_uid_from_path (path_of_str ''/kubepods.slice/kubepods-burstable.slice'') = None"
  by code_simp

lemma container_id_test_names:
  "map container_id_from_dir_name
     [''cri-containerd-'' @ ID_A @ ''.scope'', ''crio-'' @ ID_A @ ''.scope'', ''docker-'' @ ID_A @ ''.scope'', ID_A]
   = replicate 4 (Some ID_A)"
  by code_simp

lemma container_id_none_for_non_containers:
  "map container_id_from_dir_name
     [''kubepods-burstable-pod2b7669e8_6828_4310_9a1f_0eaad6933466.slice'', ''ssh.service'', ''session-4.scope'',
      ''cri-containerd-tooshort.scope'']
   = replicate 4 None"
  by code_simp

lemma container_name_in_pod_cases:
  "map (\<lambda>name. container_name_in_pod name
          \<lparr>pi_namespace = [], pi_name = [], pi_containers = [(ID_A, ''web'')], pi_resources = []\<rparr>)
     [''cri-containerd-'' @ ID_A @ ''.scope'', ''cri-containerd-'' @ ID_B @ ''.scope'', ''crio-conmon-'' @ ID_A @ ''.scope'']
   = [Some ''web'', None, None]"
  by code_simp

text \<open>The quantities are IEEE doubles: their tests compute every rounding.\<close>

lemma bit_len_numeral [simp]:
  "bit_len (Suc 0) = 1" "bit_len (numeral (num.Bit0 n)) = Suc (bit_len (numeral n))"
  "bit_len (numeral (num.Bit1 n)) = Suc (bit_len (numeral n))"
  by (simp_all add: bit_len.simps [of 0] bit_len.simps [of "Suc 0"] bit_len.simps [of "numeral (num.Bit0 n)"]
      bit_len.simps [of "numeral (num.Bit1 n)"])

lemmas f64_eval = f64_round_def f64_exponent_def scale2_def round_half_even_def f64_frac_def f64_of_nat_def
  finite_nonneg_u64_def f64_round_to_u64_def parse_f64_def parse_exponent_def digits_num_def

lemmas quantity_eval = cpu_millicores_def memory_bytes_def memory_units_def List.map_filter_def f64_eval str_eval
  numeral_2_eq_2 [symmetric]

lemma cpu_quantities:
  "cpu_millicores ''250m'' = Some 250" "cpu_millicores ''100m'' = Some 100" "cpu_millicores ''1'' = Some 1000"
  "cpu_millicores ''0.5'' = Some 500" "cpu_millicores ''1.5'' = Some 1500" "cpu_millicores ''2'' = Some 2000"
  by (simp_all add: quantity_eval)

lemma cpu_quantities_bad:
  "cpu_millicores '''' = None" "cpu_millicores ''abc'' = None" "cpu_millicores ''-1'' = None" "cpu_millicores ''inf'' = None"
  by (simp_all add: quantity_eval)

lemma memory_quantities:
  "memory_bytes ''128Mi'' = Some 134217728" "memory_bytes ''1Gi'' = Some 1073741824"
  "memory_bytes ''64Ki'' = Some 65536" "memory_bytes ''500M'' = Some 500000000"
  "memory_bytes ''1G'' = Some 1000000000" "memory_bytes ''1k'' = Some 1000"
  "memory_bytes ''134217728'' = Some 134217728" "memory_bytes ''1e9'' = Some 1000000000"
  "memory_bytes ''1.5Gi'' = Some 1610612736"
  by (simp_all add: quantity_eval)

lemma memory_quantities_bad:
  "memory_bytes '''' = None" "memory_bytes ''abc'' = None" "memory_bytes ''-1Gi'' = None" "memory_bytes ''inf'' = None"
  by (simp_all add: quantity_eval)

section \<open>statix/src/memory_sampler.rs\<close>

lemma phase14_priming_and_second_read:
  "cpu_delta [] 42 5000000000 = (None, [(42, 5000000000)])
   \<and> fst (cpu_delta [(42, 5000000000)] 42 5000080000) = Some 80000"
  by code_simp

fun deltas :: "(u64 \<times> u64) list \<Rightarrow> u64 list \<Rightarrow> u64 option list" where
  "deltas baseline [] = []"
| "deltas baseline (r # rs) = (case cpu_delta baseline 1 r of (d, baseline') \<Rightarrow> d # deltas baseline' rs)"

lemma phase14_conservation_and_regression:
  "deltas [] [1000, 1050, 1120, 1200] = [None, Some 50, Some 70, Some 80]
   \<and> deltas [] [100, 50] = [None, Some 0]"
  by code_simp

section \<open>statix-gateway\<close>

lemma readiness_threshold:
  "ingest_channel_over_threshold 1000 8192 80 \<and> \<not> ingest_channel_over_threshold 4096 8192 80"
  by (simp add: ingest_channel_over_threshold_def)

lemma expired_entry_is_not_served:
  "(let c = cache_put 0 ''k'' ''body'' False (TtlCache_new 50 8)
    in fst (cache_get 1 ''k'' c) = Some ''body'' \<and> fst (cache_get 71 ''k'' c) = None)"
  by code_simp

lemma junk_filters_never_evict_the_default_view:
  "fst (cache_get 1 ''default''
     (cache_run (Put 0 ''default'' ''hot'' True # map (\<lambda>i. Put 0 (''q=junk'' @ dec_str i) ''x'' False) [0..<50])
        (TtlCache_new 5000 4))) = Some ''hot''"
  by code_simp

lemma rate_limiter_caps_then_refills_next_window:
  "fst (limiter_run [0, 0, 0, 0, 70] (RateLimiter_new 0 3 50)) = [True, True, True, False, True]"
  by code_simp

lemma chars_take_replicate:
  "char_start c \<Longrightarrow> chars_take n (replicate m c) = replicate (min n m) c"
  by (induction m arbitrary: n) (auto split: nat.split)

lemmas query_eval = NormalizedQuery_new_def ascii_unicode_def plain_params_def keep_if_def chars_count_def char_start_def
  DEFAULT_RANGE_SECS_def MIN_RANGE_SECS_def MAX_RANGE_SECS_def DEFAULT_LIMIT_def MAX_Q_LEN_def

lemma q_test_chars:
  "is_ws CHR ''A'' = False" "to_ascii_lower CHR ''A'' = CHR ''a''" "char_start CHR ''a''"
  by code_simp+

lemma q_is_bounded:
  "nq_q (NormalizedQuery_new ascii_unicode (plain_params\<lparr>sp_q := Some (replicate 500 CHR ''A'')\<rparr>) 500)
   = Some (replicate MAX_Q_LEN CHR ''a'')"
  by (simp add: NormalizedQuery_new_def ascii_unicode_def plain_params_def keep_if_def Let_def trim_def
      to_ascii_lowercase_def dropWhile_replicate q_test_chars chars_count_def MAX_Q_LEN_def chars_take_replicate)

lemma q_is_trimmed_and_lowercased:
  "nq_q (NormalizedQuery_new ascii_unicode (plain_params\<lparr>sp_q := Some ''  NgInX  ''\<rparr>) 500) = Some ''nginx''
   \<and> nq_q (NormalizedQuery_new ascii_unicode (plain_params\<lparr>sp_q := Some ''   ''\<rparr>) 500) = None"
  by code_simp

lemma limit_is_clamped_to_configured_max:
  "map (\<lambda>l. nq_limit (NormalizedQuery_new ascii_unicode (plain_params\<lparr>sp_limit := l\<rparr>) 500)) [Some 99999, Some 0, None]
   = [500, 1, DEFAULT_LIMIT]"
  by (simp add: query_eval)

lemma range_is_clamped_to_supported_horizons:
  "map (\<lambda>r. nq_range_secs (NormalizedQuery_new ascii_unicode (plain_params\<lparr>sp_range_secs := Some r\<rparr>) 500))
     [1, 999999, 900]
   = [MIN_RANGE_SECS, MAX_RANGE_SECS, 900]"
  by code_simp

lemma only_unfiltered_views_are_pinned:
  "is_hot_view (NormalizedQuery_new ascii_unicode plain_params 500)
   \<and> \<not> is_hot_view (NormalizedQuery_new ascii_unicode (plain_params\<lparr>sp_q := Some ''nginx''\<rparr>) 500)
   \<and> filter_active (NormalizedQuery_new ascii_unicode (plain_params\<lparr>sp_q := Some ''x''\<rparr>) 500)"
  by code_simp

lemma cutoff_is_range_seconds_behind_now:
  "cutoff_ns (NormalizedQuery_new ascii_unicode plain_params 500) 1000000000000 = 700000000000
   \<and> cutoff_ns (NormalizedQuery_new ascii_unicode plain_params 500) 5 = 0"
  by (simp add: query_eval cutoff_ns_def sat_sub_def sat_mul_def)

end
