(* ===== verification/Spec2Isabelle.thy ===== *)
theory Spec2Isabelle
  imports Agent_Main Gateway_Main Billing Sleeps Source_Tests
begin

text \<open>
  Statix attributes the memory and CPU use of a Kubernetes node to its workloads.  An agent on every
  node listens to process starts through an eBPF probe, reads the cgroup files of every
  container, rolls the readings up into windows and posts one batch per window to a gateway; while
  the gateway is unreachable, batches spill to a write-ahead log on disk.  The gateway queues
  the rows for ClickHouse and serves a dashboard.  This development models both programs as
  they are written, proves the properties that make them correct, and proves where they are not.

  \<^bold>\<open>Parts and how they interact.\<close>
  \<^item> Kernel probe (\<^verbatim>\<open>statix-ebpf\<close>, \<^verbatim>\<open>statix-common\<close>, \<^verbatim>\<open>statix/src/loader.rs\<close>): writes a record per exec to a
    ring buffer, which the agent's main loop drains.
  \<^item> Attribution (\<^verbatim>\<open>statix/src/attribution\<close>): the cache of cgroup paths and labels, fed by exec events,
    a walk at the start and the pod watcher; it is the sampler's list of targets.
  \<^item> Sampler and aggregator (\<^verbatim>\<open>memory_sampler.rs\<close>, \<^verbatim>\<open>aggregator.rs\<close>): readings and events become
    per-cgroup statistics, flushed as a batch when a window ends or a buffer is full.
  \<^item> Output (\<^verbatim>\<open>output.rs\<close>) and write-ahead log (\<^verbatim>\<open>wal/\<close>): the hot path puts a batch on the retry queue
    and spills the oldest to the log's append queue; the writer thread appends to disk, the drainer
    feeds frames back while the health circuit allows it, the retry worker posts.
  \<^item> Gateway (\<^verbatim>\<open>statix-gateway\<close>): the ingest handler reserves a slot for every row of a batch or
    refuses it; the writer task batches rows and inserts them with retries; the dashboard reads
    ClickHouse through a cache and a rate limit.

  \<^bold>\<open>Theories and the code they model.\<close>  Every definition carries the name of the Rust item it
  translates; a struct is a record, an enum a datatype, \<^verbatim>\<open>Result\<close> a sum with the error on the left, a machine
  integer a word or a number with its wrap-around written out.
  \<^item> \<open>Statix_Prelude\<close>, \<open>Rust_Path\<close>, \<open>Channel\<close>, \<open>F64\<close>, \<open>F64_Order\<close>: what the code uses of the language and
    its standard library: saturating and wrapping arithmetic, little-endian bytes, strings and numbers,
    paths, the bounded channel, doubles; and the interface \<open>step_system\<close> through which
    invariants of runs are proved.
  \<^item> \<open>Env\<close>: \<^verbatim>\<open>statix-infra/src/env.rs\<close>.
  \<^item> \<open>Segment\<close>, \<open>Wal_Store\<close>, \<open>Wal_Recovery\<close>, \<open>Circuit\<close>, \<open>Wal_Runtime\<close>: \<^verbatim>\<open>wal/segment.rs\<close>, \<^verbatim>\<open>wal/mod.rs\<close>,
    \<^verbatim>\<open>wal/recovery.rs\<close>, \<^verbatim>\<open>wal/writer.rs\<close>, \<^verbatim>\<open>wal/drainer.rs\<close>.  \<open>Wal_Refine\<close> gives the meaning of a store as a
    queue of frames, \<open>Wal_Queue\<close> the interface \<open>spill_queue\<close> it implements.
  \<^item> \<open>Output\<close>, \<open>Emit\<close>: \<^verbatim>\<open>output.rs\<close>.  \<open>Pipeline\<close>: its interleaving with the threads of the log.
  \<^item> \<open>Wire\<close>: \<^verbatim>\<open>statix-common\<close>, \<^verbatim>\<open>statix-ebpf\<close>, the ring monitor, \<^verbatim>\<open>statix-wire\<close>.
  \<^item> \<open>Cgroup_Files\<close>, \<open>Quantity\<close>, \<open>Attribution\<close>, \<open>Attribution_Props\<close>: \<^verbatim>\<open>attribution/mod.rs\<close> and
    \<^verbatim>\<open>attribution/error.rs\<close>, with the interface \<open>sample_source\<close> the sampler relies on.
  \<^item> \<open>Aggregator\<close>, \<open>Sampler\<close>, \<open>Agent_Loop\<close>: \<^verbatim>\<open>aggregator.rs\<close>, \<^verbatim>\<open>memory_sampler.rs\<close>, the select loop of \<^verbatim>\<open>main.rs\<close>,
    \<^verbatim>\<open>ebpf_select.rs\<close>.
  \<^item> \<open>Agent_Main\<close>: the rest of \<^verbatim>\<open>main.rs\<close>, \<^verbatim>\<open>loader.rs\<close>, \<^verbatim>\<open>bpf_memlock.rs\<close>, \<^verbatim>\<open>bin/verify_ebpf.rs\<close>.
  \<^item> \<open>Ch_Writer\<close>, \<open>Gateway\<close>: \<^verbatim>\<open>clickhouse_writer.rs\<close>, \<^verbatim>\<open>config.rs\<close>, \<^verbatim>\<open>error.rs\<close>, \<^verbatim>\<open>routes/ingest.rs\<close>, \<^verbatim>\<open>routes/query.rs\<close>
    and the checks of the gateway's \<^verbatim>\<open>main.rs\<close>.
  \<^item> \<open>Ch_Insert\<close>: the insert of a batch, \<^verbatim>\<open>flush_batch\<close> of \<^verbatim>\<open>clickhouse_writer.rs\<close>, with the table it fills.
    \<open>Billing\<close>: the key of the table in \<^verbatim>\<open>deploy/clickhouse/01_init.sql\<close>, with the interface
    \<open>replacing_table\<close> of a table read with \<^verbatim>\<open>FINAL\<close>.
  \<^item> \<open>Sleeps\<close>: the lengths of the agent's sleeps in \<^verbatim>\<open>output.rs\<close>, \<^verbatim>\<open>wal/drainer.rs\<close> and \<^verbatim>\<open>attribution/mod.rs\<close>.
  \<^item> \<open>Source_Tests\<close>: the unit tests of the sources (environment, attribution, sampler, gateway), run on the model.
  \<^item> \<open>Dash_Cache\<close>, \<open>Dash_Sql\<close>, \<open>Dashboard\<close>: \<^verbatim>\<open>routes/dashboard/\<close>, with the interface \<open>response_cache\<close>.
  \<^item> \<open>Gateway_Main\<close>: start-up, routing and shutdown of the gateway, and the summary query.

  \<^bold>\<open>What is proved.\<close>
  \<^item> No loss: the log is a bounded queue that drops only its oldest frames and counts them (\<open>Wal_Queue\<close>);
    recovery after a crash keeps every frame before a torn or damaged tail (\<open>Wal_Recovery\<close>) and the restarted agent delivers
    them (\<open>Agent_Main\<close>); in every interleaving of the hot path and the three threads every batch is
    accounted for (\<open>Pipeline\<close>); a batch the agent counts as delivered is queued by the gateway
    completely, and it gives one up only for a wrong token or a body over 2 MiB (this theory); accepted rows are inserted or counted as dropped (\<open>Gateway\<close>), also with all
    other routes running (\<open>Gateway_Main\<close>).
  \<^item> No double counting: posts, replays and inserts repeat, but a row is stored a bounded number of
    times (\<open>Ch_Insert\<close>) and, as the key of the table identifies the rows of a fleet, billed once
    (\<open>Billing\<close>).
  \<^item> Right numbers: the batches partition the observations (\<open>Aggregator\<close>), every leaf cgroup is read once
    a tick (\<open>Sampler\<close>), the CPU time billed is the span of the kernel counter (\<open>Agent_Loop\<close>), targets
    and labels follow the kernel and the pods (\<open>Attribution_Props\<close>), quantities and kernel texts are
    read exactly (\<open>Quantity\<close>, \<open>Cgroup_Files\<close>).
  \<^item> The dashboard: its cache and limiter meet their contracts (\<open>Dash_Cache\<close>), queries bind their
    parameters (\<open>Dash_Sql\<close>, \<open>Dashboard\<close>), answers and staleness are exact (\<open>Dashboard\<close>).
  \<^item> The sleeps of the agent are within a millisecond of what is meant and do not panic, as long as the
    configured backoff is at most \<open>2 ^ 40\<close> seconds (\<open>Sleeps\<close>); the circuit trips at exactly the third failure (\<open>Circuit\<close>).
  \<^item> Behaviour the authors did not intend, stated as theorems: an idle unhealthy gateway stays down,
    its shutdown always times out, labels without a path are never evicted, pinned cache entries are
    unbounded, an agent whose background task ends panics, the failure counter wraps, an unlimited
    backoff panics, a batch over 2 MiB is given up by the agent.

  \<^bold>\<open>Termination and bounds.\<close>  All loops of the code that end are total functions.  The loops that do
  not (threads, tasks, the select loop, the server) are step functions or step relations between the
  points where another thread can run, and their theorems hold for all finite runs; that the
  gateway's final drain ends is proved with an explicit bound on the steps.  No fuel is used.

  \<^bold>\<open>Parameters.\<close>  The outcome of every system call, the content of files and directories, clock
  readings, random bytes, and the answers of libraries (serde, reqwest, tokio timers, kube, aya, axum,
  uuid, crc32, ClickHouse) are inputs.  A \<^verbatim>\<open>HashMap\<close> is an association list in its iteration order.  Channels
  follow the documented contract of tokio.  Trimming in the agent is on ASCII white space; the
  Unicode tables are a parameter of the dashboard.

  \<^bold>\<open>Not modelled.\<close>  The passing of time during a sleep; \<^verbatim>\<open>fdatasync\<close> and
  \<^verbatim>\<open>posix_fadvise\<close>, which do not change what a file reads as (a crash may keep any part of the frame
  bytes, synced or not); the merges and the expiry of rows in ClickHouse; the interleaving of the sends of
  two batches on several threads, and of single channel operations within one call; log messages, the metrics exporter and histograms; the installation of signal
  handlers; the dashboard page and the build script.
\<close>

section \<open>Agent and gateway\<close>

text \<open>
  C5: The agent and the gateway agree on the fate of a batch.  Take any batch the aggregator emits, serialised to a body
  that the gateway's decoder reads back, any state the whole gateway can reach, and the answer of its \<^verbatim>\<open>/ingest\<close> route as the
  agent classifies it.  A body over 2 MiB is refused with 413 before anything else, and a wrong token with 401: these
  two, and only these, make the agent give the batch up.  Otherwise it retries exactly while ClickHouse is unhealthy, the writer is
  gone or the channel has no room for all rows, and counts the batch as delivered in all other
  cases.  Exactly when it counts it as delivered the rows are queued for ClickHouse, all and in order; the retry worker
  keeps the body exactly when it retries.  And if the body is within the limit, the token matches, the
  gateway is healthy with its writer running, and its channel was configured with at
  least 4096 slots and is empty, the batch is delivered.
\<close>

theorem agent_batch_meets_gateway:
  assumes "agg_run node ops (Aggregator_new now) = (bs, a)" and "b \<in> set bs" and "server_reachable env st"
    and json: "to_json (ingest_batch b) = Some json" and decode: "se_decode e (str_bytes json) = Inr (ingest_batch b)"
    and too_large: "fst (se_too_large e) = 413"
    and "hq_method rq = POST" and "hq_path rq = ''/ingest''" and "hq_body rq = str_bytes json"
    and "handle_request e rq st = (resp, st')" and "out = post_ingest display True (Inr (fst resp))"
    and "w = gw_writer (as_gateway st)"
  shows "out = (if 2 * 1024 * 1024 < length json then NonRetryable 413
                else if \<exists>t. gw_expected_bearer (as_gateway st) = Some t \<and> hq_auth rq \<noteq> Some t then NonRetryable 401
                else if \<not> cw_healthy w \<or> bp_workloads b \<noteq> [] \<and> (ch_closed (cw_rx w)
                     \<or> ch_cap (cw_rx w) < length (ch_buf (cw_rx w)) + length (bp_workloads b))
                then Retryable (''HTTP '' @ display 503)
                else Success)
    \<and> gw_accepted (as_gateway st') = gw_accepted (as_gateway st)
        @ (if out = Success then map (from_ingest (ingest_batch b)) (bp_workloads b) else [])
    \<and> rw_body (fst (worker_outcome out rw cb)) = (if \<exists>why. out = Retryable why then rw_body rw else None)
    \<and> (length json \<le> 2 * 1024 * 1024
        \<and> (\<forall>t. gw_expected_bearer (as_gateway st) = Some t \<longrightarrow> hq_auth rq = Some t) \<and> cw_healthy w
        \<and> \<not> ch_closed (cw_rx w) \<and> ch_buf (cw_rx w) = [] \<and> 4096 \<le> ingest_channel_capacity env
        \<longrightarrow> out = Success)"
proof -
  have v: "unat (ib_schema_version (ingest_batch b)) = 4" "ib_workloads (ingest_batch b) = bp_workloads b"
    by (simp_all add: ingest_batch_def SCHEMA_VERSION_def)
  have n: "length (bp_workloads b) \<le> 4096" 
    using agg_run_rep [OF new_rep assms(1)] assms(2) by (auto simp: DEFAULT_MAX_KEYS_def)
  obtain cfg where "gw_reachable env cfg (as_gateway st)"
    using assms(3) server.reach_inv [of env] unfolding server_reachable_def by blast
  note cap = gw_reachable_cap [OF this]
  have resp: "fst resp = (if 2097152 < length json then 413 else fst (fst (ingest_handler (hq_auth rq) (ingest_batch b) (as_gateway st))))"
    "as_gateway st' = (if 2097152 < length json then as_gateway st else snd (ingest_handler (hq_auth rq) (ingest_batch b) (as_gateway st)))"
    using ingest_request [OF assms(7,8), of e "ingest_batch b" st] assms(9,10) decode too_large by (simp_all add: BODY_LIMIT_def)
  have worker: "rw_body (fst (worker_outcome out rw cb)) = (if \<exists>why. out = Retryable why then rw_body rw else None)"
    by (cases out) (simp_all add: worker_outcome_def)
  show ?thesis
  proof (cases "2097152 < length json")
    case True
    with resp worker assms(11) show ?thesis by (simp add: post_ingest_def is_retryable_status_def)
  next
    case False
    with ingest_handler_spec [of "hq_auth rq" "ingest_batch b" "as_gateway st"] n worker resp show ?thesis
      unfolding Let_def v cap assms(11,12)
      by (auto simp: post_ingest_def is_retryable_status_def split: if_splits)
  qed
qed

definition sample_agg_ops :: "(agg_env \<times> agg_op) list" where
  "sample_agg_ops = [(sample_env, AMem 7 100 cache_empty), (sample_env, AFlush)]"

text \<open>A server that has pinged ClickHouse, and requests with a body of \<open>k\<close> bytes that decodes to a given batch.\<close>

definition ready_server :: AppState where
  "ready_server = booted_server\<lparr>as_gateway := (as_gateway booted_server)\<lparr>gw_writer := ping_ready True (gw_writer (as_gateway booted_server))\<rparr>\<rparr>"

definition body_env :: "BatchPayload \<Rightarrow> server_env" where
  "body_env b = \<lparr>se_now = 0, se_clock = None, se_unicode = ascii_unicode, se_backend = down_backend, se_summary = (\<lambda>_. Inl []),
     se_summary_json = (\<lambda>_. []), se_read_to_string = (\<lambda>_. Inl []), se_embedded = [], se_render = [],
     se_fallback = (\<lambda>_ _. (404, [], [])), se_too_large = (413, [], []), se_decode = (\<lambda>_. Inr (ingest_batch b))\<rparr>"

definition body_request :: "nat \<Rightarrow> http_request" where
  "body_request k = \<lparr>hq_method = POST, hq_path = ''/ingest'', hq_auth = None, hq_body = str_bytes (replicate k CHR ''x''),
     hq_hours = None, hq_params = plain_params\<rparr>"

lemma ready_server_reachable: "server_reachable no_env ready_server"
proof -
  have "server_step booted_server ready_server"
    unfolding ready_server_def
    by (rule server_step.task [where i = "\<lparr>ci_ping = True, ci_linger_over = False, ci_insert_ok = False\<rparr>"])
       (simp add: booted_server_def gateway_boot_def Config_from_env_def env_api_port_def var_def var_with_legacy_def no_env_def Let_def
          gateway_start_def spawn_writer_def ch_step_def)
  with booted_server_reachable show ?thesis unfolding server_reachable_def by (meson rtranclp.rtrancl_into_rtrancl)
qed

lemma ready_server_state:
  "gw_expected_bearer (as_gateway ready_server) = None" "cw_healthy (gw_writer (as_gateway ready_server))"
  "\<not> ch_closed (cw_rx (gw_writer (as_gateway ready_server)))" "ch_buf (cw_rx (gw_writer (as_gateway ready_server))) = []"
  by (simp_all add: ready_server_def booted_server_def gateway_boot_def Config_from_env_def env_api_port_def env_string_def var_def
      var_with_legacy_def no_env_def gateway_start_def spawn_writer_def ping_ready_def channel_def Let_def)

theorem agent_batch_meets_gateway_witness:
  "\<exists>b. fst (agg_run ''n'' sample_agg_ops (Aggregator_new 0)) = [b] \<and> length (bp_workloads b) = 1
     \<and> post_ingest dec_str True (Inr (fst (fst (handle_request (body_env b) (body_request 700) ready_server)))) = Success
     \<and> post_ingest dec_str True (Inr (fst (fst (handle_request (body_env b) (body_request 2097153) ready_server)))) = NonRetryable 413"
proof -
  obtain b where b: "fst (agg_run ''n'' sample_agg_ops (Aggregator_new 0)) = [b]" "length (bp_workloads b) = 1"
    by (simp add: sample_agg_ops_def ingest_memory_sample_def ingest_memory_sample_inner_def try_early_flush_def
        flush_def update_entry_def active_len_def Aggregator_new_def DEFAULT_MAX_KEYS_def Let_def reset_window_def)
  have c: "4096 \<le> ingest_channel_capacity no_env"
    by (simp add: ingest_channel_capacity_def read_env_usize_def read_env_positive_def var_with_legacy_def no_env_def
        strip_prefix.simps split: option.splits)
  have m: "b \<in> set (fst (agg_run ''n'' sample_agg_ops (Aggregator_new 0)))" using b(1) by simp
  have e: "se_decode (body_env b) bytes = Inr (ingest_batch b)" "fst (se_too_large (body_env b)) = 413" for bytes
    by (simp_all add: body_env_def)
  have rq: "hq_method (body_request k) = POST" "hq_path (body_request k) = ''/ingest''"
      "hq_body (body_request k) = str_bytes (replicate k CHR ''x'')" "hq_auth (body_request k) = None" for k
    by (simp_all add: body_request_def)
  have meets: "post_ingest dec_str True (Inr (fst (fst (handle_request (body_env b) (body_request k) ready_server))))
      = (if 2 * 1024 * 1024 < k then NonRetryable 413 else Success)" for k
    using agent_batch_meets_gateway [where to_json = "\<lambda>_. Some (replicate k CHR ''x'')" and display = dec_str,
        OF surjective_pairing m ready_server_reachable refl e rq(1-3) surjective_pairing refl refl] ready_server_state c
    by fastforce
  have "post_ingest dec_str True (Inr (fst (fst (handle_request (body_env b) (body_request 700) ready_server)))) = Success"
    unfolding meets by simp
  moreover have "post_ingest dec_str True (Inr (fst (fst (handle_request (body_env b) (body_request 2097153) ready_server)))) = NonRetryable 413"
    unfolding meets by simp
  ultimately show ?thesis using b by blast
qed

end
